(* ===== verification/Prelude.thy ===== *)
theory Prelude
  imports Complex_Main "HOL-Library.Word" "HOL-Library.AList" "HOL-Library.Multiset"
begin

text \<open>
  What every component of the model shares: Go's run-time panics as values, sequential
  composition of code that may panic, loops over slices, slice expressions, the 64-bit
  integers with their wrap-around written out, and the conversion of an integer to a
  \<open>float64\<close>.  Nothing here is specific to sg-core.
\<close>

section \<open>Collections of facts\<close>

named_theorems go_simps "evaluation of the Go primitives"

section \<open>Panics\<close>

text \<open>
  A Go function that panics does not return: the panic unwinds the goroutine and, since
  sg-core never recovers, ends the process.  A piece of code that may panic has the type
  \<open>'a go\<close>: \<open>Inl\<close> is the panic, \<open>Inr\<close> the normal result (which may itself carry an
  ordinary Go \<open>error\<close>).  A call that never returns, because it is in an endless loop, has
  the value \<open>Inl Runs_Forever\<close>: like a panic it has no result, and nothing after it is executed.
\<close>

datatype go_panic =
    Index_Out_Of_Range
  | Slice_Bounds_Out_Of_Range
  | Nil_Dereference
  | Failed_Type_Assertion
  | Makeslice_Out_Of_Range
  | Non_Positive_Ticker
  | Duplicate_Pattern
  | Runs_Forever

type_synonym 'a go = "go_panic + 'a"

definition go_bind :: "'a go \<Rightarrow> ('a \<Rightarrow> 'b go) \<Rightarrow> 'b go" where
  "go_bind m f = (case m of Inl p \<Rightarrow> Inl p | Inr x \<Rightarrow> f x)"

lemma go_bind_simps [simp, go_simps]:
  "go_bind (Inl p) f = Inl p"
  "go_bind (Inr x) f = f x"
  by (simp_all add: go_bind_def)

lemma go_bind_eq_Inr_iff:
  "go_bind m f = Inr y \<longleftrightarrow> (\<exists>x. m = Inr x \<and> f x = Inr y)"
  by (cases m) auto

lemma go_bind_eq_Inl_iff:
  "go_bind m f = Inl p \<longleftrightarrow> m = Inl p \<or> (\<exists>x. m = Inr x \<and> f x = Inl p)"
  by (cases m) auto

lemma go_bind_assoc: "go_bind (go_bind m f) g = go_bind m (\<lambda>x. go_bind (f x) g)"
  by (cases m) auto

text \<open>A loop over a slice whose body may panic and carries a state.\<close>

fun go_foldM :: "('s \<Rightarrow> 'a \<Rightarrow> 's go) \<Rightarrow> 's \<Rightarrow> 'a list \<Rightarrow> 's go" where
  "go_foldM f s [] = Inr s"
| "go_foldM f s (x # xs) = go_bind (f s x) (\<lambda>s'. go_foldM f s' xs)"

lemma go_foldM_append:
  "go_foldM f s (xs @ ys) = go_bind (go_foldM f s xs) (\<lambda>s'. go_foldM f s' ys)"
  by (induction xs arbitrary: s) (simp_all add: go_bind_assoc)

lemma go_foldM_invariant:
  assumes "go_foldM f s xs = Inr t" and "I s"
    and "\<And>s x s'. \<lbrakk>x \<in> set xs; I s; f s x = Inr s'\<rbrakk> \<Longrightarrow> I s'"
  shows "I t"
  using assms
proof (induction xs arbitrary: s)
  case Nil
  then show ?case by simp
next
  case (Cons x xs)
  from Cons.prems(1) obtain s' where s': "f s x = Inr s'" "go_foldM f s' xs = Inr t"
    by (auto simp: go_bind_eq_Inr_iff)
  with Cons.prems have "I s'" by (meson list.set_intros(1))
  with s' Cons.IH Cons.prems(3) show ?case by (meson list.set_intros(2))
qed

lemma go_foldM_no_panic:
  assumes "I s"
    and "\<And>s x. \<lbrakk>x \<in> set xs; I s\<rbrakk> \<Longrightarrow> \<exists>s'. f s x = Inr s' \<and> I s'"
  shows "\<exists>t. go_foldM f s xs = Inr t \<and> I t"
  using assms
proof (induction xs arbitrary: s)
  case Nil
  then show ?case by simp
next
  case (Cons x xs)
  from Cons.prems obtain s' where s': "f s x = Inr s'" "I s'"
    by (meson list.set_intros(1))
  with Cons.IH [OF s'(2)] Cons.prems(2) show ?case by simp
qed

section \<open>Slices\<close>

text \<open>
  \<open>slice_get xs i\<close> is \<open>xs[i]\<close> and \<open>slice_range xs lo hi\<close> is \<open>xs[lo:hi]\<close> of Go, both with
  the run-time checks.  The capacity of the slices in the model is their length.
\<close>

definition slice_get :: "'a list \<Rightarrow> int \<Rightarrow> 'a go" where
  "slice_get xs i =
     (if 0 \<le> i \<and> i < int (length xs) then Inr (xs ! nat i) else Inl Index_Out_Of_Range)"

definition slice_set :: "'a list \<Rightarrow> int \<Rightarrow> 'a \<Rightarrow> 'a list go" where
  "slice_set xs i x =
     (if 0 \<le> i \<and> i < int (length xs) then Inr (xs[nat i := x]) else Inl Index_Out_Of_Range)"

definition slice_range :: "'a list \<Rightarrow> int \<Rightarrow> int \<Rightarrow> 'a list go" where
  "slice_range xs lo hi =
     (if 0 \<le> lo \<and> lo \<le> hi \<and> hi \<le> int (length xs)
      then Inr (take (nat (hi - lo)) (drop (nat lo) xs))
      else Inl Slice_Bounds_Out_Of_Range)"

lemma slice_get_nat [simp, go_simps]:
  "i < length xs \<Longrightarrow> slice_get xs (int i) = Inr (xs ! i)"
  by (simp add: slice_get_def)

lemma slice_get_eq_Inr_iff:
  "slice_get xs i = Inr x \<longleftrightarrow> 0 \<le> i \<and> i < int (length xs) \<and> x = xs ! nat i"
  by (auto simp: slice_get_def)

lemma slice_range_eq_Inr_iff:
  "slice_range xs lo hi = Inr ys \<longleftrightarrow>
     0 \<le> lo \<and> lo \<le> hi \<and> hi \<le> int (length xs) \<and> ys = take (nat (hi - lo)) (drop (nat lo) xs)"
  by (auto simp: slice_range_def)

section \<open>Integers\<close>

text \<open>
  An \<open>int64\<close> (also Go's \<open>int\<close> and \<open>time.Duration\<close> on the platforms sg-core is built for)
  is an integer in the signed 64-bit range; \<open>wrap64\<close> reduces the mathematical result of
  an operation to it, as the hardware does.  Unsigned counters are \<open>64 word\<close>.
\<close>

type_synonym int64 = int
type_synonym uint64 = "64 word"

definition wrap64 :: "int \<Rightarrow> int64" where
  "wrap64 x = (x + 2 ^ 63) mod 2 ^ 64 - 2 ^ 63"

definition is_int64 :: "int \<Rightarrow> bool" where
  "is_int64 x \<longleftrightarrow> - (2 ^ 63) \<le> x \<and> x < 2 ^ 63"

lemma wrap64_id: "is_int64 x \<Longrightarrow> wrap64 x = x"
  by (simp add: wrap64_def is_int64_def)

lemma wrap64_range: "is_int64 (wrap64 x)"
  by (simp add: wrap64_def is_int64_def)

lemma wrap64_overflow: "2 ^ 63 \<le> x \<Longrightarrow> x < 2 ^ 64 \<Longrightarrow> wrap64 x = x - 2 ^ 64"
proof -
  assume a: "2 ^ 63 \<le> x" "x < 2 ^ 64"
  have "(x + 2 ^ 63) mod 2 ^ 64 = (x - 2 ^ 63) mod 2 ^ (64 :: nat)"
    using minus_mod_self2 [of "x + 2 ^ 63" "2 ^ 64"] by simp
  also have "\<dots> = x - 2 ^ 63"
    using a by (intro mod_pos_pos_trivial) simp_all
  finally show ?thesis by (simp add: wrap64_def)
qed

lemma wrap64_add_wrap64: "wrap64 (a + wrap64 b) = wrap64 (a + b)" "wrap64 (wrap64 a + b) = wrap64 (a + b)"
proof -
  have *: "wrap64 (a + wrap64 b) = wrap64 (a + b)" for a b
  proof -
    have "(a + ((b + 2 ^ 63) mod 2 ^ 64 - 2 ^ 63) + 2 ^ 63) mod 2 ^ (64 :: nat)
            = (a + (b + 2 ^ 63) mod 2 ^ 64) mod 2 ^ 64"
      by (simp add: algebra_simps)
    also have "\<dots> = (a + b + 2 ^ 63) mod 2 ^ (64 :: nat)"
      by (simp add: mod_add_right_eq add.assoc)
    finally show ?thesis by (simp add: wrap64_def)
  qed
  show "wrap64 (a + wrap64 b) = wrap64 (a + b)" by (rule *)
  show "wrap64 (wrap64 a + b) = wrap64 (a + b)" using * [of b a] by (simp add: add.commute)
qed

lemma wrap64_idem [simp]: "wrap64 (wrap64 x) = wrap64 x"
  by (simp add: wrap64_id wrap64_range)

lemma word_of_wrap64 [simp]: "(word_of_int (wrap64 x) :: uint64) = word_of_int x"
proof -
  let ?k = "(x + 2 ^ 63) div 2 ^ 64"
  have "wrap64 x = x - 2 ^ 64 * ?k"
    unfolding wrap64_def by (simp add: minus_mult_div_eq_mod [symmetric])
  then have "(word_of_int (wrap64 x) :: uint64) = word_of_int x - word_of_int (2 ^ 64) * word_of_int ?k"
    by (simp only: wi_hom_syms)
  moreover have "(word_of_int (2 ^ 64) :: uint64) = 0" by (simp add: word_of_int_eq_iff)
  ultimately show ?thesis by (simp only: mult_zero_left diff_zero)
qed

text \<open>The unit of \<open>time.Duration\<close> is the nanosecond.\<close>

definition time_Second :: int64 where
  "time_Second = 1000000000"

section \<open>Floating point\<close>

text \<open>
  A \<open>float64\<close> is modelled by the real number it denotes.  The code moves floats around and
  compares them, it does no floating-point arithmetic on the paths modelled here, with one
  exception: integers are converted, and above \<open>2 ^ 53\<close> the conversion rounds to the
  nearest representable number, ties to even.  NaN and the infinities are not represented.
\<close>

type_synonym float64 = real

definition round_half_even :: "int \<Rightarrow> int \<Rightarrow> int" where
  "round_half_even n d =
     (let q = n div d; r = n mod d
      in if 2 * r < d then q else if 2 * r > d then q + 1 else if even q then q else q + 1)"

text \<open>For an \<open>n\<close> of at most 64 bits; \<open>f64_exp n\<close> is how many low bits are lost.\<close>

fun f64_exp :: "nat \<Rightarrow> int \<Rightarrow> nat" where
  "f64_exp 0 n = 0"
| "f64_exp (Suc k) n = (if n < 2 ^ 53 then 0 else Suc (f64_exp k (n div 2)))"

definition f64_of_int :: "int \<Rightarrow> float64" where
  "f64_of_int n =
     (let d = 2 ^ f64_exp 11 \<bar>n\<bar> in of_int (sgn n * (round_half_even \<bar>n\<bar> d * d)))"

lemma f64_exp_small [simp]: "n < 2 ^ 53 \<Longrightarrow> f64_exp k n = 0"
  by (cases k) simp_all

lemma f64_of_int_exact: "\<bar>n\<bar> < 2 ^ 53 \<Longrightarrow> f64_of_int n = of_int n"
  by (simp add: f64_of_int_def round_half_even_def mult_sgn_abs del: of_int_mult)

text \<open>The conversion of a float to \<open>int64\<close> truncates toward zero (for results in range).\<close>

definition int64_of_f64 :: "float64 \<Rightarrow> int64" where
  "int64_of_f64 x = wrap64 (if 0 \<le> x then \<lfloor>x\<rfloor> else \<lceil>x\<rceil>)"

section \<open>Maps\<close>

text \<open>
  A Go map (and a \<open>sync.Map\<close>) is an association list with distinct keys.  Its order is
  one order in which a \<open>range\<close> over the map may visit the entries: Go leaves that order
  open, so no property may rest on it.
\<close>

type_synonym ('k, 'v) gomap = "('k \<times> 'v) list"

definition gomap_wf :: "('k, 'v) gomap \<Rightarrow> bool" where
  "gomap_wf m \<longleftrightarrow> distinct (map fst m)"

lemma map_of_AList_update [simp]: "map_of (AList.update k v m) = (map_of m)(k \<mapsto> v)"
  by (rule AList.update_conv')

lemma map_of_AList_delete [simp]: "map_of (AList.delete k m) = (map_of m)(k := None)"
  by (rule AList.delete_conv')

lemma gomap_wf_update [simp]: "gomap_wf m \<Longrightarrow> gomap_wf (AList.update k v m)"
  unfolding gomap_wf_def by (rule AList.distinct_update)

lemma gomap_wf_delete [simp]: "gomap_wf m \<Longrightarrow> gomap_wf (AList.delete k m)"
  unfolding gomap_wf_def by (rule AList.distinct_delete)

lemma gomap_wf_Nil [simp]: "gomap_wf []"
  by (simp add: gomap_wf_def)

section \<open>Runs with a trace\<close>

text \<open>A run of a step relation, with the inputs that its steps took, in order.\<close>

definition input_of :: "'e option \<Rightarrow> 'e list" where
  "input_of oe = (case oe of None \<Rightarrow> [] | Some e \<Rightarrow> [e])"

lemma input_of_simps [simp]: "input_of None = []" "input_of (Some e) = [e]"
  by (simp_all add: input_of_def)

inductive traced :: "('s \<Rightarrow> 'e option \<Rightarrow> 's \<Rightarrow> bool) \<Rightarrow> 's \<Rightarrow> 'e list \<Rightarrow> 's \<Rightarrow> bool" for step where
  traced_refl: "traced step s [] s"
| traced_step: "traced step s es t \<Longrightarrow> step t oe u \<Longrightarrow> traced step s (es @ input_of oe) u"

lemma traced_invariant:
  assumes "traced step s es t" and "P s" and "\<And>s oe t. step s oe t \<Longrightarrow> P s \<Longrightarrow> P t"
  shows "P t"
  using assms(1,2) by (induction rule: traced.induct) (blast intro: assms(3))+

lemma traced_silent: "traced step s es t \<Longrightarrow> step t None u \<Longrightarrow> traced step s es u"
  using traced_step [of step s es t None u] by simp

lemma traced_input: "traced step s es t \<Longrightarrow> step t (Some e) u \<Longrightarrow> traced step s (es @ [e]) u"
  using traced_step [of step s es t "Some e" u] by simp

lemma traced_append:
  assumes "traced step t es' u" and "traced step s es t"
  shows "traced step s (es @ es') u"
  using assms
proof (induction rule: traced.induct)
  case (traced_step t es' u oe v)
  then show ?case using traced.traced_step [of step s "es @ es'" u oe v] by simp
qed simp

end
