(* ===== verification/GoStrings.thy ===== *)
theory GoStrings
  imports Prelude
begin

text \<open>
  The functions of Go's packages \<open>strings\<close> and \<open>strconv\<close> that sg-core calls, on strings of
  bytes.  Each follows the algorithm of the standard library (repeated search for the first
  occurrence); the lemmas are the facts the components use: what splitting and joining
  preserve, what replacing one character does, and that decimal numerals are injective.
\<close>

definition newline :: char where
  "newline = CHR 0x0A"

definition quote :: char where
  "quote = CHR 0x22"

section \<open>Searching\<close>

definition has_prefix :: "string \<Rightarrow> string \<Rightarrow> bool" where
  "has_prefix s p \<longleftrightarrow> take (length p) s = p"

fun str_index :: "string \<Rightarrow> string \<Rightarrow> nat option" where
  "str_index sub [] = (if sub = [] then Some 0 else None)"
| "str_index sub (c # cs) =
     (if has_prefix (c # cs) sub then Some 0 else map_option Suc (str_index sub cs))"

fun str_last_index :: "string \<Rightarrow> string \<Rightarrow> nat option" where
  "str_last_index sub [] = (if sub = [] then Some 0 else None)"
| "str_last_index sub (c # cs) =
     (case str_last_index sub cs of
        Some i \<Rightarrow> Some (Suc i)
      | None \<Rightarrow> (if has_prefix (c # cs) sub then Some 0 else None))"

definition str_contains :: "string \<Rightarrow> string \<Rightarrow> bool" where
  "str_contains s sub \<longleftrightarrow> str_index sub s \<noteq> None"

lemma has_prefix_iff: "has_prefix s p \<longleftrightarrow> (\<exists>t. s = p @ t)"
  unfolding has_prefix_def by (metis append_eq_conv_conj append_take_drop_id)

lemma has_prefix_append [simp]: "has_prefix (p @ t) p"
  by (simp add: has_prefix_def)

lemma has_prefix_single [simp]: "has_prefix s [c] \<longleftrightarrow> (\<exists>t. s = c # t)"
  by (simp add: has_prefix_iff)

lemma str_index_Some:
  "str_index sub s = Some m \<Longrightarrow> s = take m s @ sub @ drop (m + length sub) s"
proof (induction sub s arbitrary: m rule: str_index.induct)
  case (1 sub)
  then show ?case by (simp split: if_splits)
next
  case (2 sub c cs)
  show ?case
  proof (cases "has_prefix (c # cs) sub")
    case True
    with 2(2) have "m = 0" by simp
    with True show ?thesis by (metis has_prefix_iff append_eq_conv_conj add_0 append_Nil take0)
  next
    case False
    with 2(2) obtain i where i: "str_index sub cs = Some i" "m = Suc i" by auto
    from 2(1) [OF False i(1)] i(2) show ?thesis by simp
  qed
qed

lemma str_index_bound: "str_index sub s = Some m \<Longrightarrow> m + length sub \<le> length s"
proof (induction sub s arbitrary: m rule: str_index.induct)
  case (1 sub)
  then show ?case by (simp split: if_splits)
next
  case (2 sub c cs)
  show ?case
  proof (cases "has_prefix (c # cs) sub")
    case True
    then have "length sub \<le> length (c # cs)" by (metis has_prefix_iff length_append le_add1)
    with True 2(2) show ?thesis by simp
  next
    case False
    with 2 show ?thesis by fastforce
  qed
qed

lemma str_index_decr:
  "sub \<noteq> [] \<Longrightarrow> str_index sub s = Some m \<Longrightarrow> length s - (m + length sub) < length s"
  using str_index_bound [of sub s m] by (cases sub) auto

lemma str_index_single: "str_index [c] s = None \<longleftrightarrow> c \<notin> set s"
  by (induction s) auto

lemma str_index_single_Some:
  "str_index [c] s = Some m \<Longrightarrow> c \<notin> set (take m s)"
  by (induction s arbitrary: m) (auto split: if_splits)

lemma str_index_single_append:
  "c \<notin> set x \<Longrightarrow> str_index [c] (x @ c # y) = Some (length x)"
  by (induction x) auto

section \<open>Join, split and replace\<close>

fun join :: "string \<Rightarrow> string list \<Rightarrow> string" where
  "join sep [] = []"
| "join sep [x] = x"
| "join sep (x # y # xs) = x @ sep @ join sep (y # xs)"

text \<open>The separator of \<open>Split\<close> and the \<open>old\<close> of \<open>ReplaceAll\<close> are never empty in sg-core.\<close>

function str_split :: "string \<Rightarrow> string \<Rightarrow> string list" where
  "str_split sep s =
     (if sep = [] then [s]
      else case str_index sep s of
             None \<Rightarrow> [s]
           | Some m \<Rightarrow> take m s # str_split sep (drop (m + length sep) s))"
  by pat_completeness auto
termination
  by (relation "measure (\<lambda>(sep, s). length s)") (auto simp: str_index_decr)

declare str_split.simps [simp del]

fun str_split_n :: "string \<Rightarrow> nat \<Rightarrow> string \<Rightarrow> string list" where
  "str_split_n sep 0 s = []"
| "str_split_n sep (Suc 0) s = [s]"
| "str_split_n sep (Suc (Suc n)) s =
     (case str_index sep s of
        None \<Rightarrow> [s]
      | Some m \<Rightarrow> take m s # str_split_n sep (Suc n) (drop (m + length sep) s))"

function replace_all :: "string \<Rightarrow> string \<Rightarrow> string \<Rightarrow> string" where
  "replace_all old new s =
     (if old = [] then s
      else case str_index old s of
             None \<Rightarrow> s
           | Some m \<Rightarrow> take m s @ new @ replace_all old new (drop (m + length old) s))"
  by pat_completeness auto
termination
  by (relation "measure (\<lambda>(old, new, s). length s)") (auto simp: str_index_decr)

declare replace_all.simps [simp del]

lemma join_Cons: "xs \<noteq> [] \<Longrightarrow> join sep (x # xs) = x @ sep @ join sep xs"
  by (cases xs) simp_all

lemma str_split_not_Nil [simp]: "str_split sep s \<noteq> []"
  by (subst str_split.simps) (simp split: option.split)

lemma join_str_split [simp]: "sep \<noteq> [] \<Longrightarrow> join sep (str_split sep s) = s"
proof (induction sep s rule: str_split.induct)
  case (1 sep s)
  show ?case
  proof (cases "str_index sep s")
    case None
    then show ?thesis by (subst str_split.simps) simp
  next
    case (Some m)
    with 1 have "join sep (str_split sep (drop (m + length sep) s)) = drop (m + length sep) s"
      by simp
    with Some 1(2) str_index_Some [OF Some] show ?thesis
      by (subst str_split.simps) (simp add: join_Cons)
  qed
qed

lemma replace_all_eq_join_split: "old \<noteq> [] \<Longrightarrow> replace_all old new s = join new (str_split old s)"
proof (induction old new s rule: replace_all.induct)
  case (1 old new s)
  then show ?case
    by (subst replace_all.simps, subst str_split.simps)
       (auto simp: join_Cons split: option.split)
qed

lemma str_split_single_no_sep: "x \<in> set (str_split [c] s) \<Longrightarrow> c \<notin> set x"
proof (induction "[c]" s arbitrary: x rule: str_split.induct)
  case (1 s)
  show ?case
  proof (cases "str_index [c] s")
    case None
    with 1(2) show ?thesis
      by (simp add: str_split.simps [of "[c]" s] str_index_single)
  next
    case (Some m)
    with 1(2) have "x = take m s \<or> x \<in> set (str_split [c] (drop (Suc m) s))"
      by (simp add: str_split.simps [of "[c]" s])
    with 1(1) [OF _ Some] str_index_single_Some [OF Some] show ?thesis by auto
  qed
qed

lemma str_split_no_sep: "sep \<noteq> [] \<Longrightarrow> str_index sep s = None \<Longrightarrow> str_split sep s = [s]"
  by (simp add: str_split.simps [of sep s])

lemma str_split_single_append:
  "c \<notin> set x \<Longrightarrow> str_split [c] (x @ c # y) = x # str_split [c] y"
  by (subst str_split.simps) (simp add: str_index_single_append)

lemma str_split_single_join:
  "xs \<noteq> [] \<Longrightarrow> (\<And>x. x \<in> set xs \<Longrightarrow> c \<notin> set x) \<Longrightarrow> str_split [c] (join [c] xs) = xs"
proof (induction "[c]" xs rule: join.induct)
  case 1
  then show ?case by simp
next
  case (2 x)
  then show ?case by (simp add: str_split_no_sep str_index_single)
next
  case (3 x y xs)
  then show ?case by (simp add: str_split_single_append)
qed

lemma replace_all_single: "replace_all [a] [b] s = map (\<lambda>c. if c = a then b else c) s"
proof (induction s rule: length_induct)
  case (1 s)
  show ?case
  proof (cases "str_index [a] s")
    case None
    then have "a \<notin> set s" by (simp add: str_index_single)
    then have "map (\<lambda>c. if c = a then b else c) s = s" by (intro map_idI) auto
    with None show ?thesis by (simp add: replace_all.simps [of "[a]" "[b]" s])
  next
    case (Some m)
    let ?f = "\<lambda>c. if c = a then b else c"
    have d: "s = take m s @ a # drop (Suc m) s" using str_index_Some [OF Some] by simp
    have "length (drop (Suc m) s) < length s" using str_index_bound [OF Some] by simp
    with 1 have IH: "replace_all [a] [b] (drop (Suc m) s) = map ?f (drop (Suc m) s)" by blast
    have t: "map ?f (take m s) = take m s"
      using str_index_single_Some [OF Some] by (intro map_idI) auto
    have "map ?f s = map ?f (take m s @ a # drop (Suc m) s)" using d by simp
    also have "\<dots> = take m s @ b # map ?f (drop (Suc m) s)" by (simp only: map_append t) simp
    finally show ?thesis using Some IH by (simp add: replace_all.simps [of "[a]" "[b]" s])
  qed
qed

section \<open>Case\<close>

text \<open>
  \<open>strings.ToLower\<close> on ASCII letters; the bytes of other characters are left as they are
  (Go also maps upper-case letters beyond ASCII).
\<close>

definition char_lower :: "char \<Rightarrow> char" where
  "char_lower c =
     (let n = of_char c :: nat in if 65 \<le> n \<and> n \<le> 90 then char_of (n + 32) else c)"

definition to_lower :: "string \<Rightarrow> string" where
  "to_lower s = map char_lower s"

lemma char_lower_idem: "char_lower (char_lower c) = char_lower c"
  by (auto simp: char_lower_def Let_def)

lemma to_lower_idem [simp]: "to_lower (to_lower s) = to_lower s"
  by (simp add: to_lower_def char_lower_idem)

section \<open>Numerals\<close>

fun itoa_nat :: "nat \<Rightarrow> string" where
  "itoa_nat n =
     (if n < 10 then [char_of (48 + n)] else itoa_nat (n div 10) @ [char_of (48 + n mod 10)])"

declare itoa_nat.simps [simp del]

definition itoa :: "int \<Rightarrow> string" where
  "itoa n = (if n < 0 then CHR ''-'' # itoa_nat (nat (- n)) else itoa_nat (nat n))"

definition itoa_pad2 :: "int \<Rightarrow> string" where
  "itoa_pad2 n = (let s = itoa n in if length s < 2 then CHR ''0'' # s else s)"

text \<open>\<open>is_digit c\<close> holds of the ten decimal digits.\<close>

definition is_digit :: "char \<Rightarrow> bool" where
  "is_digit c \<longleftrightarrow> 48 \<le> (of_char c :: nat) \<and> (of_char c :: nat) \<le> 57"

definition digit_val :: "char \<Rightarrow> nat" where
  "digit_val c = of_char c - 48"

fun nat_of_digits :: "string \<Rightarrow> nat \<Rightarrow> nat" where
  "nat_of_digits [] acc = acc"
| "nat_of_digits (c # cs) acc = nat_of_digits cs (10 * acc + digit_val c)"

lemma nat_of_digits_append:
  "nat_of_digits (s @ t) acc = nat_of_digits t (nat_of_digits s acc)"
  by (induction s arbitrary: acc) simp_all

lemma is_digit_char_of [simp]: "(n :: nat) < 10 \<Longrightarrow> is_digit (char_of (48 + n))"
  by (simp add: is_digit_def)

lemma digit_val_char_of [simp]: "(n :: nat) < 10 \<Longrightarrow> digit_val (char_of (48 + n)) = n"
  by (simp add: digit_val_def)

lemma itoa_nat_digits: "c \<in> set (itoa_nat n) \<Longrightarrow> is_digit c"
proof (induction n rule: itoa_nat.induct)
  case (1 n)
  then show ?case
    by (subst (asm) (2) itoa_nat.simps) (auto split: if_splits)
qed

lemma itoa_nat_not_Nil [simp]: "itoa_nat n \<noteq> []"
  by (subst itoa_nat.simps) simp

lemma nat_of_digits_itoa_nat [simp]: "nat_of_digits (itoa_nat n) 0 = n"
proof (induction n rule: itoa_nat.induct)
  case (1 n)
  show ?case
  proof (cases "n < 10")
    case True
    then show ?thesis by (subst itoa_nat.simps) simp
  next
    case False
    with 1 show ?thesis by (subst itoa_nat.simps) (simp add: nat_of_digits_append)
  qed
qed

lemma itoa_nat_inj [simp]: "itoa_nat m = itoa_nat n \<longleftrightarrow> m = n"
  by (metis nat_of_digits_itoa_nat)

text \<open>
  \<open>strconv.Atoi\<close>: an optional sign and at least one digit; \<open>None\<close> is its error, also for
  numbers beyond 64 bits.
\<close>

definition atoi_digits :: "string \<Rightarrow> nat option" where
  "atoi_digits ds = (if ds \<noteq> [] \<and> list_all is_digit ds then Some (nat_of_digits ds 0) else None)"

definition atoi :: "string \<Rightarrow> int64 option" where
  "atoi s =
     (let (neg, ds) = (case s of
          [] \<Rightarrow> (False, [])
        | c # cs \<Rightarrow> if c = CHR ''-'' then (True, cs) else if c = CHR ''+'' then (False, cs) else (False, s))
      in case atoi_digits ds of
           None \<Rightarrow> None
         | Some n \<Rightarrow> (let i = (if neg then - int n else int n) in if is_int64 i then Some i else None))"

lemma atoi_digits_itoa [simp]: "atoi_digits (itoa_nat n) = Some n"
  by (simp add: atoi_digits_def list_all_iff itoa_nat_digits)

lemma sign_not_digit [simp]: "\<not> is_digit CHR ''-''" "\<not> is_digit CHR ''+''"
  by (simp_all add: is_digit_def)

lemma atoi_itoa: "is_int64 n \<Longrightarrow> atoi (itoa n) = Some n"
proof (cases "n < 0")
  case False
  assume n: "is_int64 n"
  obtain c cs where d: "itoa_nat (nat n) = c # cs" by (cases "itoa_nat (nat n)") auto
  then have "is_digit c" using itoa_nat_digits [of c "nat n"] by simp
  then have "c \<noteq> CHR ''-''" "c \<noteq> CHR ''+''" by auto
  with d n False atoi_digits_itoa [of "nat n"] show ?thesis
    by (simp add: atoi_def itoa_def)
qed (simp add: atoi_def itoa_def)

end
