(* ===== verification/Data.thy ===== *)
theory Data
  imports GoStrings
begin

text \<open>
  The data on the internal buses (\<open>pkg/data/data.go\<close>): metric and event types, severities
  with their order and their names, the events and metrics themselves, and the dynamically
  typed values (\<open>interface{}\<close>) that event labels hold.  Also the transport mode of
  \<open>pkg/transport/transport.go\<close>.
\<close>

section \<open>Metric types\<close>

datatype metric_type = UNTYPED | COUNTER | GAUGE

text \<open>The value \<open>iota\<close> gives each constant.\<close>

fun metric_type_code :: "metric_type \<Rightarrow> int" where
  "metric_type_code UNTYPED = 0"
| "metric_type_code COUNTER = 1"
| "metric_type_code GAUGE = 2"

definition metric_type_String :: "metric_type \<Rightarrow> string go" where
  "metric_type_String mt = slice_get [''untyped'', ''counter'', ''gauge''] (metric_type_code mt)"

section \<open>Event types and severities\<close>

datatype event_type = ERROR | EVENT | LOG | RESULT | TASK

fun event_type_code :: "event_type \<Rightarrow> int" where
  "event_type_code ERROR = 0"
| "event_type_code EVENT = 1"
| "event_type_code LOG = 2"
| "event_type_code RESULT = 3"
| "event_type_code TASK = 4"

definition event_type_String :: "event_type \<Rightarrow> string go" where
  "event_type_String et =
     slice_get [''error'', ''event'', ''log'', ''result'', ''task''] (event_type_code et)"

datatype event_severity = UNKNOWN | DEBUG | INFO | WARNING | CRITICAL

fun event_severity_code :: "event_severity \<Rightarrow> int" where
  "event_severity_code UNKNOWN = 0"
| "event_severity_code DEBUG = 1"
| "event_severity_code INFO = 2"
| "event_severity_code WARNING = 3"
| "event_severity_code CRITICAL = 4"

definition event_severity_String :: "event_severity \<Rightarrow> string go" where
  "event_severity_String es =
     slice_get [''unknown'', ''debug'', ''info'', ''warning'', ''critical'']
       (event_severity_code es)"

lemma event_severity_code_inj [simp]:
  "event_severity_code a = event_severity_code b \<longleftrightarrow> a = b"
  by (cases a; cases b) simp_all

text \<open>Severities are integers in Go and are ordered as their codes are.\<close>

instantiation event_severity :: linorder
begin

definition less_eq_event_severity :: "event_severity \<Rightarrow> event_severity \<Rightarrow> bool" where
  "less_eq_event_severity a b \<longleftrightarrow> event_severity_code a \<le> event_severity_code b"

definition less_event_severity :: "event_severity \<Rightarrow> event_severity \<Rightarrow> bool" where
  "less_event_severity a b \<longleftrightarrow> event_severity_code a < event_severity_code b"

instance
  by standard (auto simp: less_eq_event_severity_def less_event_severity_def)

end

lemma severity_String_total [simp]:
  "\<exists>s. event_severity_String es = Inr s"
  by (cases es) (simp_all add: event_severity_String_def slice_get_def)

lemma event_type_String_total [simp]:
  "\<exists>s. event_type_String et = Inr s"
  by (cases et) (simp_all add: event_type_String_def slice_get_def)

section \<open>Dynamically typed values\<close>

text \<open>
  The values a JSON document decodes to in Go: \<open>string\<close>, \<open>float64\<close>, \<open>bool\<close>, \<open>nil\<close>,
  \<open>[]interface{}\<close> and \<open>map[string]interface{}\<close>.
\<close>

datatype ivalue =
    IString string
  | IFloat float64
  | IBool bool
  | INil
  | IList "ivalue list"
  | IMap "(string \<times> ivalue) list"

text \<open>\<open>v.(string)\<close> and \<open>v.(float64)\<close> in the form that panics when the type differs.\<close>

fun assert_string :: "ivalue \<Rightarrow> string go" where
  "assert_string (IString s) = Inr s"
| "assert_string _ = Inl Failed_Type_Assertion"

fun assert_float :: "ivalue \<Rightarrow> float64 go" where
  "assert_float (IFloat x) = Inr x"
| "assert_float _ = Inl Failed_Type_Assertion"

text \<open>
  \<open>v, ok := m[k].(string)\<close>: a missing key gives the nil interface, whose assertion fails
  like that of any other value that is not a string.
\<close>

definition lookup_string :: "(string, ivalue) gomap \<Rightarrow> string \<Rightarrow> string option" where
  "lookup_string m k = (case map_of m k of Some (IString s) \<Rightarrow> Some s | _ \<Rightarrow> None)"

lemma lookup_string_Some: "lookup_string m k = Some s \<longleftrightarrow> map_of m k = Some (IString s)"
  by (auto simp: lookup_string_def split: option.splits ivalue.splits)

section \<open>Events and metrics\<close>

record event =
  eIndex :: string
  eTime :: float64
  eType :: event_type
  ePublisher :: string
  eSeverity :: event_severity
  eLabels :: "(string, ivalue) gomap"
  eAnnotations :: "(string, ivalue) gomap"
  eMessage :: string

record metric =
  mName :: string
  mTime :: float64
  mType :: metric_type
  mInterval :: int64
  mValue :: float64
  mLabelKeys :: "string list"
  mLabelVals :: "string list"

text \<open>
  The event every handler publishes when it was told to report errors: type \<open>ERROR\<close>,
  severity \<open>CRITICAL\<close>, time zero, the handler's name as index.
\<close>

definition error_event ::
  "string \<Rightarrow> (string, ivalue) gomap \<Rightarrow> string \<Rightarrow> event" where
  "error_event index labels description =
     \<lparr>eIndex = index, eTime = 0, eType = ERROR, ePublisher = [], eSeverity = CRITICAL,
      eLabels = labels, eAnnotations = [(''description'', IString description)],
      eMessage = []\<rparr>"

lemma error_event_simps [simp]:
  "eIndex (error_event i l d) = i"
  "eType (error_event i l d) = ERROR"
  "eSeverity (error_event i l d) = CRITICAL"
  "eLabels (error_event i l d) = l"
  by (simp_all add: error_event_def)

text \<open>The label guarantee that \<open>application.MetricReceiver\<close> documents.\<close>

definition metric_aligned :: "metric \<Rightarrow> bool" where
  "metric_aligned m \<longleftrightarrow> length (mLabelKeys m) = length (mLabelVals m)"

section \<open>Transport mode\<close>

datatype mode = WRITE | READ

fun mode_String :: "mode \<Rightarrow> string" where
  "mode_String WRITE = ''WRITE''"
| "mode_String READ = ''READ''"

text \<open>A string that is not in the table gives the zero value, \<open>WRITE\<close>.\<close>

definition mode_FromString :: "string \<Rightarrow> mode" where
  "mode_FromString s =
     (case map_of [(''write'', WRITE), (''read'', READ)] (to_lower s) of
        Some m \<Rightarrow> m
      | None \<Rightarrow> WRITE)"

lemma mode_roundtrip: "mode_FromString (mode_String m) = m"
  by (cases m) (simp_all only:, code_simp+)

end
