(* ===== verification/Handler.thy ===== *)
theory Handler
  imports Data
begin

text \<open>
  The interface between transports, handlers and buses (\<open>pkg/handler/handler.go\<close>, the
  publish functions of \<open>pkg/bus/bus.go\<close>).  A handler is an object with a state; \<open>Handle\<close>
  takes a message and a flag that asks for error events, calls the two publish functions
  and returns an error or nil.  In the model it returns the new state, the published items
  in the order of the calls, and the error.
\<close>

datatype published = Publish_Metric metric | Publish_Event event

type_synonym blob = string

type_synonym 's handled = "'s \<times> published list \<times> string option"

type_synonym 's handle = "'s \<Rightarrow> blob \<Rightarrow> bool \<Rightarrow> 's handled go"

text \<open>One handler fed a sequence of messages.\<close>

fun handle_all :: "'s handle \<Rightarrow> 's \<Rightarrow> blob list \<Rightarrow> bool \<Rightarrow> ('s \<times> published list) go" where
  "handle_all h s [] report = Inr (s, [])"
| "handle_all h s (b # bs) report =
     go_bind (h s b report) (\<lambda>(s', outs, err).
       go_bind (handle_all h s' bs report) (\<lambda>(s'', outs').
         Inr (s'', outs @ outs')))"

lemma handle_all_ConsE:
  assumes "handle_all h s (b # bs) r = Inr (t, outs)"
  obtains s' outs1 err outs2 where "h s b r = Inr (s', outs1, err)"
    and "handle_all h s' bs r = Inr (t, outs2)" and "outs = outs1 @ outs2"
  using assms by (auto simp: go_bind_eq_Inr_iff)

text \<open>
  What the published items of a handler named \<open>ident\<close> satisfy: metrics carry as many label
  values as keys, error events are marked with the handler's name, and there are none
  unless errors are reported.
\<close>

definition output_ok :: "string \<Rightarrow> bool \<Rightarrow> published \<Rightarrow> bool" where
  "output_ok ident report out =
     (case out of
        Publish_Metric m \<Rightarrow> metric_aligned m
      | Publish_Event e \<Rightarrow> (if eType e = ERROR then report \<and> eIndex e = ident else True))"

lemma output_ok_simps [simp]:
  "output_ok i r (Publish_Metric m) = metric_aligned m"
  "output_ok i r (Publish_Event (error_event j l d)) = (r \<and> j = i)"
  "eType e \<noteq> ERROR \<Longrightarrow> output_ok i r (Publish_Event e)"
  by (simp_all add: output_ok_def)

text \<open>
  The contract of a handler: it counts every message it receives, whatever becomes of it,
  and its published items are in order.  \<open>ready\<close> holds of the states a configured handler
  can be in.
\<close>

locale handler =
  fixes handle :: "'s handle"
    and ident :: string
    and ready :: "'s \<Rightarrow> bool"
    and received :: "'s \<Rightarrow> uint64"
  assumes handle_counts:
      "ready s \<Longrightarrow> handle s b r = Inr (s', outs, err) \<Longrightarrow> received s' = received s + 1"
    and handle_ready: "ready s \<Longrightarrow> handle s b r = Inr (s', outs, err) \<Longrightarrow> ready s'"
    and handle_outputs:
      "ready s \<Longrightarrow> handle s b r = Inr (s', outs, err) \<Longrightarrow> list_all (output_ok ident r) outs"
begin

lemma handle_all_counts:
  "ready s \<Longrightarrow> handle_all handle s bs r = Inr (s', outs) \<Longrightarrow>
     received s' = received s + of_nat (length bs)"
proof (induction bs arbitrary: s outs)
  case Nil
  then show ?case by simp
next
  case (Cons b bs)
  from Cons.prems(2) obtain s1 o1 err o2
    where h: "handle s b r = Inr (s1, o1, err)" "handle_all handle s1 bs r = Inr (s', o2)"
    by (rule handle_all_ConsE)
  from Cons.IH [OF handle_ready [OF Cons.prems(1) h(1)] h(2)]
  show ?case by (simp add: handle_counts [OF Cons.prems(1) h(1)])
qed

lemma handle_all_ready:
  "ready s \<Longrightarrow> handle_all handle s bs r = Inr (s', outs) \<Longrightarrow> ready s'"
  by (induction bs arbitrary: s outs)
     (auto simp: go_bind_eq_Inr_iff dest: handle_ready)

lemma handle_all_outputs:
  "ready s \<Longrightarrow> handle_all handle s bs r = Inr (s', outs) \<Longrightarrow> list_all (output_ok ident r) outs"
proof (induction bs arbitrary: s outs)
  case Nil
  then show ?case by simp
next
  case (Cons b bs)
  from Cons.prems(2) obtain s1 o1 err o2
    where h: "handle s b r = Inr (s1, o1, err)" "handle_all handle s1 bs r = Inr (s', o2)"
      and o: "outs = o1 @ o2"
    by (rule handle_all_ConsE)
  from Cons.IH [OF handle_ready [OF Cons.prems(1) h(1)] h(2)]
    handle_outputs [OF Cons.prems(1) h(1)] o
  show ?case by simp
qed

lemma handle_all_aligned:
  "ready s \<Longrightarrow> handle_all handle s bs r = Inr (s', outs) \<Longrightarrow> Publish_Metric m \<in> set outs \<Longrightarrow>
     metric_aligned m"
  using handle_all_outputs by (fastforce simp: list_all_iff)

text \<open>With error reporting off, no error event reaches the bus.\<close>

lemma handle_all_quiet:
  assumes "ready s" and "handle_all handle s bs False = Inr (s', outs)"
    and "Publish_Event e \<in> set outs"
  shows "eType e \<noteq> ERROR"
  using handle_all_outputs [OF assms(1,2)] assms(3)
  by (auto simp: list_all_iff output_ok_def split: if_splits)

end

text \<open>A handler that additionally never panics.\<close>

locale total_handler = handler +
  assumes handle_total: "ready s \<Longrightarrow> \<exists>res. handle s b r = Inr res"
begin

lemma handle_all_total:
  "ready s \<Longrightarrow> \<exists>s' outs. handle_all handle s bs r = Inr (s', outs)"
proof (induction bs arbitrary: s)
  case Nil
  then show ?case by simp
next
  case (Cons b bs)
  from handle_total [OF Cons.prems, of b r] obtain s' outs err
    where h: "handle s b r = Inr (s', outs, err)" by auto
  with handle_ready Cons.prems Cons.IH obtain s'' outs'
    where "handle_all handle s' bs r = Inr (s'', outs')" by blast
  with h show ?case by simp
qed

end

text \<open>
  The other end of the metric bus (\<open>application.MetricReceiver\<close> in
  \<open>pkg/application/application.go\<close>): an application that survives every metric whose labels
  are aligned, in every state that it can be in after such metrics.
\<close>

locale metric_receiver =
  fixes receive :: "metric \<Rightarrow> 'a \<Rightarrow> 'a go"
    and good :: "'a \<Rightarrow> bool"
  assumes receive_total: "good a \<Longrightarrow> metric_aligned m \<Longrightarrow> \<exists>a'. receive m a = Inr a' \<and> good a'"
begin

lemma receive_all_total:
  "good a \<Longrightarrow> list_all metric_aligned ms \<Longrightarrow>
     \<exists>a'. go_foldM (\<lambda>a m. receive m a) a ms = Inr a' \<and> good a'"
  by (rule go_foldM_no_panic) (auto simp: list_all_iff dest: receive_total)

end

text \<open>The metrics among the published items, in order.\<close>

fun metrics_of :: "published list \<Rightarrow> metric list" where
  "metrics_of [] = []"
| "metrics_of (Publish_Metric m # outs) = m # metrics_of outs"
| "metrics_of (Publish_Event e # outs) = metrics_of outs"

lemma set_metrics_of: "m \<in> set (metrics_of outs) \<longleftrightarrow> Publish_Metric m \<in> set outs"
  by (induction outs rule: metrics_of.induct) auto

text \<open>
  The internal metrics that the handlers' \<open>Run\<close> publishes once a second are all of this
  form: a counter with no timestamp and no interval, labelled with the gateway as source.
\<close>

definition self_metric :: "string \<Rightarrow> uint64 \<Rightarrow> metric" where
  "self_metric name n =
     \<lparr>mName = name, mTime = 0, mType = COUNTER, mInterval = 0, mValue = f64_of_int (uint n),
      mLabelKeys = [''source''], mLabelVals = [''SG'']\<rparr>"

lemma metric_aligned_self [simp]: "metric_aligned (self_metric name n)"
  by (simp add: metric_aligned_def self_metric_def)

end
