(* ===== verification/CollectdMetrics.thy ===== *)
theory CollectdMetrics
  imports Handler
begin

text \<open>
  The collectd-metrics handler (\<open>plugins/handler/collectd-metrics/main.go\<close> and
  \<open>pkg/collectd/collectd.go\<close>): validation of a decoded collectd value list, the names of the
  metrics it is turned into, and the handler's counters and error events.  The JSON decoder
  is a parameter \<open>parse\<close> that returns the decoded list or the decoder's error text,
  \<open>cdtime_Float\<close> is the conversion of a \<open>cdtime.Time\<close>, and \<open>api_error\<close> is the text of the
  error that go-openapi's \<open>errors.New(0, "")\<close> makes.
\<close>

section \<open>Data\<close>

text \<open>A slice that the message leaves out is nil, which is different from an empty one.\<close>

record cd_metric =
  cdValues :: "float64 list option"
  cdDstypes :: "string list option"
  cdDsnames :: "string list option"
  cdTime :: uint64
  cdInterval :: float64
  cdHost :: string
  cdPlugin :: string
  cdPluginInstance :: string
  cdType :: string
  cdTypeInstance :: string

definition slice_of :: "'a list option \<Rightarrow> 'a list" where
  "slice_of s = (case s of None \<Rightarrow> [] | Some xs \<Rightarrow> xs)"

record cd_handler =
  cdMetricsDecoded :: uint64
  cdMessagesReceived :: uint64
  cdDecodeErrors :: uint64

definition cd_New :: cd_handler where
  "cd_New = \<lparr>cdMetricsDecoded = 0, cdMessagesReceived = 0, cdDecodeErrors = 0\<rparr>"

definition strToMetricType :: "string \<Rightarrow> metric_type option" where
  "strToMetricType =
     map_of [(''counter'', COUNTER), (''absolute'', UNTYPED), (''derive'', COUNTER), (''gauge'', GAUGE)]"

section \<open>Validation and names\<close>

text \<open>
  The lengths are compared by exclusive or: \<open>(n \<oplus> t) \<oplus> (n \<oplus> v)\<close> where \<open>n\<close>, \<open>t\<close> and \<open>v\<close> are
  the numbers of names, types and values.
\<close>

definition validateMetric :: "cd_metric \<Rightarrow> bool" where
  "validateMetric m =
     (if cdDsnames m = None \<or> cdDstypes m = None \<or> cdValues m = None
         \<or> cdHost m = [] \<or> cdPlugin m = [] \<or> cdType m = []
      then False
      else let n = int (length (slice_of (cdDsnames m)));
               t = int (length (slice_of (cdDstypes m)));
               v = int (length (slice_of (cdValues m)))
           in xor (xor n t) (xor n v) = 0)"

definition genMetricName :: "cd_metric \<Rightarrow> nat \<Rightarrow> string go" where
  "genMetricName m index =
     (let name0 = (if cdType m = cdPlugin m then ''collectd_'' @ cdPlugin m
                   else ''collectd_'' @ cdPlugin m @ ''_'' @ cdType m)
      in go_bind (slice_get (slice_of (cdDsnames m)) (int index)) (\<lambda>dsname.
           let name1 = (if dsname \<noteq> ''value'' then name0 @ ''_'' @ dsname else name0)
           in go_bind (slice_get (slice_of (cdDstypes m)) (int index)) (\<lambda>dstype.
                Inr (if dstype = ''counter'' \<or> dstype = ''derive'' then name1 @ ''_total'' else name1))))"

section \<open>Writing metrics\<close>

definition or_base :: "string \<Rightarrow> string" where
  "or_base s = (if s = [] then ''base'' else s)"

text \<open>The body of the loop of \<open>writeMetrics\<close>: the metric published for one data source.\<close>

definition cd_metric_at :: "(uint64 \<Rightarrow> float64) \<Rightarrow> cd_metric \<Rightarrow> nat \<Rightarrow> metric go" where
  "cd_metric_at cdtime_Float m index =
     go_bind (slice_get (slice_of (cdDstypes m)) (int index)) (\<lambda>dstype.
     go_bind (genMetricName m index) (\<lambda>name.
     go_bind (slice_get (slice_of (cdValues m)) (int index)) (\<lambda>value.
       Inr \<lparr>mName = name, mTime = cdtime_Float (cdTime m),
            mType = (case strToMetricType dstype of Some t \<Rightarrow> t | None \<Rightarrow> UNTYPED),
            mInterval = wrap64 (int64_of_f64 (cdInterval m) * time_Second),
            mValue = value,
            mLabelKeys = [''host'', ''plugin_instance'', ''type_instance''],
            mLabelVals = [cdHost m, or_base (cdPluginInstance m), or_base (cdTypeInstance m)]\<rparr>)))"

text \<open>\<open>Some\<close> is the error of an invalid value list.\<close>

definition writeMetrics ::
  "(uint64 \<Rightarrow> float64) \<Rightarrow> string \<Rightarrow> cd_handler \<Rightarrow> cd_metric \<Rightarrow> cd_handler handled go" where
  "writeMetrics cdtime_Float api_error c m =
     (if \<not> validateMetric m then Inr (c, [], Some api_error)
      else go_bind
             (go_foldM (\<lambda>(c, outs) index.
                 go_bind (cd_metric_at cdtime_Float m index) (\<lambda>mt.
                   Inr (c\<lparr>cdMetricsDecoded := cdMetricsDecoded c + 1\<rparr>, outs @ [Publish_Metric mt])))
               (c, []) [0..<length (slice_of (cdDsnames m))])
             (\<lambda>(c, outs). Inr (c, outs, None)))"

section \<open>The handler\<close>

definition cd_Identify :: string where
  "cd_Identify = ''collectd-metrics''"

definition cd_error_event :: "string \<Rightarrow> event" where
  "cd_error_event err =
     error_event cd_Identify
       [(''error'', IString err), (''message'', IString ''failed to parse metric - disregarding'')]
       ''internal smartgateway collectd-metrics handler error''"

text \<open>One round of the loop of \<open>Handle\<close> over the decoded value lists.\<close>

definition cd_handle_one ::
  "(uint64 \<Rightarrow> float64) \<Rightarrow> string \<Rightarrow> bool \<Rightarrow> cd_handler \<times> published list \<Rightarrow> cd_metric
     \<Rightarrow> (cd_handler \<times> published list) go" where
  "cd_handle_one cdtime_Float api_error report st m =
     (let (c, outs) = st
      in go_bind (writeMetrics cdtime_Float api_error c m) (\<lambda>(c', ms, err).
           case err of
             None \<Rightarrow> Inr (c', outs @ ms)
           | Some e \<Rightarrow> Inr (c'\<lparr>cdDecodeErrors := cdDecodeErrors c' + 1\<rparr>,
                            outs @ ms @ (if report then [Publish_Event (cd_error_event e)] else []))))"

definition cd_Handle ::
  "(blob \<Rightarrow> string + cd_metric list) \<Rightarrow> (uint64 \<Rightarrow> float64) \<Rightarrow> string \<Rightarrow> cd_handler handle" where
  "cd_Handle parse cdtime_Float api_error c0 b report =
     (let c = c0\<lparr>cdMessagesReceived := cdMessagesReceived c0 + 1\<rparr>
      in case parse b of
           Inl err \<Rightarrow>
             Inr (c\<lparr>cdDecodeErrors := cdDecodeErrors c + 1\<rparr>,
                  (if report then [Publish_Event (cd_error_event err)] else []), None)
         | Inr ms \<Rightarrow>
             go_bind (go_foldM (cd_handle_one cdtime_Float api_error report) (c, []) ms)
               (\<lambda>(c', outs). Inr (c', outs, None)))"

text \<open>What one tick of \<open>Run\<close> publishes.\<close>

definition cd_Run_tick :: "cd_handler \<Rightarrow> metric list" where
  "cd_Run_tick c =
     [self_metric ''sg_total_collectd_metric_decode_count'' (cdMetricsDecoded c),
      self_metric ''sg_total_collectd_metric_decode_error_count'' (cdDecodeErrors c),
      self_metric ''sg_total_collectd_msg_received_count'' (cdMessagesReceived c)]"

section \<open>What validation checks\<close>

lemma xor_cancel_iff: "xor (xor a b) (xor a c) = 0 \<longleftrightarrow> b = (c :: int)"
proof -
  have "xor (xor a b) (xor a c) = xor b c" by (simp add: bit_eq_iff bit_simps) blast
  moreover have "xor b c = 0 \<longleftrightarrow> b = c" by (auto simp: bit_eq_iff bit_simps)
  ultimately show ?thesis by simp
qed

lemma validateMetric_iff:
  "validateMetric m \<longleftrightarrow>
     (\<exists>ns ts vs. cdDsnames m = Some ns \<and> cdDstypes m = Some ts \<and> cdValues m = Some vs
        \<and> length ts = length vs)
     \<and> cdHost m \<noteq> [] \<and> cdPlugin m \<noteq> [] \<and> cdType m \<noteq> []"
  by (auto simp: validateMetric_def xor_cancel_iff slice_of_def)

text \<open>The value lists whose names all have a type and a value, and the others.\<close>

definition cd_in_bounds :: "cd_metric \<Rightarrow> bool" where
  "cd_in_bounds m \<longleftrightarrow> length (slice_of (cdDsnames m)) \<le> length (slice_of (cdDstypes m))"

section \<open>What is published\<close>

definition cd_name_suffix :: "string \<Rightarrow> string \<Rightarrow> string" where
  "cd_name_suffix dsname dstype =
     (if dsname = ''value'' then [] else ''_'' @ dsname)
     @ (if dstype \<in> {''counter'', ''derive''} then ''_total'' else [])"

definition cd_spec_metric :: "(uint64 \<Rightarrow> float64) \<Rightarrow> cd_metric \<Rightarrow> nat \<Rightarrow> metric" where
  "cd_spec_metric cdtime_Float m i =
     (let dstype = slice_of (cdDstypes m) ! i
      in \<lparr>mName = ''collectd_'' @ cdPlugin m
                  @ (if cdType m = cdPlugin m then [] else ''_'' @ cdType m)
                  @ cd_name_suffix (slice_of (cdDsnames m) ! i) dstype,
          mTime = cdtime_Float (cdTime m),
          mType = (case strToMetricType dstype of Some t \<Rightarrow> t | None \<Rightarrow> UNTYPED),
          mInterval = wrap64 (int64_of_f64 (cdInterval m) * time_Second),
          mValue = slice_of (cdValues m) ! i,
          mLabelKeys = [''host'', ''plugin_instance'', ''type_instance''],
          mLabelVals = [cdHost m, or_base (cdPluginInstance m), or_base (cdTypeInstance m)]\<rparr>)"

definition cd_spec_outputs ::
  "(uint64 \<Rightarrow> float64) \<Rightarrow> string \<Rightarrow> bool \<Rightarrow> cd_metric \<Rightarrow> published list" where
  "cd_spec_outputs cdtime_Float api_error report m =
     (if validateMetric m
      then map (\<lambda>i. Publish_Metric (cd_spec_metric cdtime_Float m i))
             [0..<length (slice_of (cdDsnames m))]
      else if report then [Publish_Event (cd_error_event api_error)] else [])"

lemma cd_metric_at_in:
  assumes "i < length (slice_of (cdDsnames m))" and "i < length (slice_of (cdDstypes m))"
    and "length (slice_of (cdValues m)) = length (slice_of (cdDstypes m))"
  shows "cd_metric_at cf m i = Inr (cd_spec_metric cf m i)"
  using assms
  by (simp add: cd_metric_at_def genMetricName_def cd_spec_metric_def cd_name_suffix_def Let_def)

lemma cd_metric_at_out:
  "length (slice_of (cdDstypes m)) \<le> i \<Longrightarrow> cd_metric_at cf m i = Inl Index_Out_Of_Range"
  by (simp add: cd_metric_at_def slice_get_def)

lemma valid_lengths:
  "validateMetric m \<Longrightarrow> length (slice_of (cdValues m)) = length (slice_of (cdDstypes m))"
  by (auto simp: validateMetric_iff slice_of_def)

lemma cd_loop:
  assumes "length (slice_of (cdValues m)) = length (slice_of (cdDstypes m))"
    and "k \<le> length (slice_of (cdDsnames m))" and "k \<le> length (slice_of (cdDstypes m))"
  shows "go_foldM (\<lambda>(c, outs) index.
            go_bind (cd_metric_at cf m index) (\<lambda>mt.
              Inr (c\<lparr>cdMetricsDecoded := cdMetricsDecoded c + 1\<rparr>, outs @ [Publish_Metric mt])))
          (c, outs) [0..<k]
        = Inr (c\<lparr>cdMetricsDecoded := cdMetricsDecoded c + of_nat k\<rparr>,
               outs @ map (\<lambda>i. Publish_Metric (cd_spec_metric cf m i)) [0..<k])"
  using assms(2,3)
  by (induction k) (simp_all add: go_foldM_append cd_metric_at_in assms(1) add.assoc)

lemma writeMetrics_in_bounds:
  assumes "validateMetric m" and "cd_in_bounds m"
  shows "writeMetrics cf ae c m =
           Inr (c\<lparr>cdMetricsDecoded := cdMetricsDecoded c + of_nat (length (slice_of (cdDsnames m)))\<rparr>,
                cd_spec_outputs cf ae r m, None)"
  using cd_loop [OF valid_lengths [OF assms(1)] order_refl, of cf c "[]"] assms
  by (simp add: writeMetrics_def cd_spec_outputs_def cd_in_bounds_def)

lemma writeMetrics_out_of_bounds:
  assumes "validateMetric m" and "\<not> cd_in_bounds m"
  shows "writeMetrics cf ae c m = Inl Index_Out_Of_Range"
proof -
  let ?k = "length (slice_of (cdDstypes m))" and ?n = "length (slice_of (cdDsnames m))"
  from assms(2) have "?k < ?n" by (simp add: cd_in_bounds_def)
  then have "[0..<?n] = [0..<?k] @ ?k # [Suc ?k..<?n]"
    using upt_add_eq_append [of 0 ?k "?n - ?k"] by (simp add: upt_conv_Cons)
  with cd_loop [OF valid_lengths [OF assms(1)], of ?k cf c "[]"] \<open>?k < ?n\<close> assms(1)
  show ?thesis by (simp add: writeMetrics_def go_foldM_append cd_metric_at_out)
qed

lemma cd_handle_one_in_bounds:
  assumes "validateMetric m \<Longrightarrow> cd_in_bounds m"
  shows "cd_handle_one cf ae r (c, outs) m =
           Inr (c\<lparr>cdMetricsDecoded := cdMetricsDecoded c
                    + (if validateMetric m then of_nat (length (slice_of (cdDsnames m))) else 0),
                  cdDecodeErrors := cdDecodeErrors c + (if validateMetric m then 0 else 1)\<rparr>,
                outs @ cd_spec_outputs cf ae r m)"
proof (cases "validateMetric m")
  case True
  with assms writeMetrics_in_bounds [of m cf ae c r] show ?thesis by (simp add: cd_handle_one_def)
next
  case False
  then show ?thesis by (simp add: cd_handle_one_def writeMetrics_def cd_spec_outputs_def)
qed

lemma cd_handle_loop:
  assumes "\<And>m. m \<in> set ms \<Longrightarrow> validateMetric m \<Longrightarrow> cd_in_bounds m"
  shows "go_foldM (cd_handle_one cf ae r) (c, outs) ms =
           Inr (c\<lparr>cdMetricsDecoded := cdMetricsDecoded c
                    + of_nat (\<Sum>m\<leftarrow>filter validateMetric ms. length (slice_of (cdDsnames m))),
                  cdDecodeErrors := cdDecodeErrors c
                    + of_nat (length (filter (\<lambda>m. \<not> validateMetric m) ms))\<rparr>,
                outs @ concat (map (cd_spec_outputs cf ae r) ms))"
  using assms
proof (induction ms arbitrary: c outs)
  case Nil
  then show ?case by simp
next
  case (Cons m ms)
  then show ?case
    by (simp add: cd_handle_one_in_bounds [of m] add.assoc)
qed

lemma cd_handle_loop_panics:
  assumes "m \<in> set ms" and "validateMetric m" and "\<not> cd_in_bounds m"
  shows "go_foldM (cd_handle_one cf ae r) st ms = Inl Index_Out_Of_Range"
  using assms(1)
proof (induction ms arbitrary: st)
  case Nil
  then show ?case by simp
next
  case (Cons x xs)
  obtain c outs where st: "st = (c, outs)" by force
  show ?case
  proof (cases "validateMetric x \<and> \<not> cd_in_bounds x")
    case True
    then show ?thesis by (simp add: st cd_handle_one_def writeMetrics_out_of_bounds)
  next
    case False
    with Cons.prems assms have "m \<in> set xs" by auto
    with False Cons.IH show ?thesis by (simp add: st cd_handle_one_in_bounds)
  qed
qed

lemma cd_Handle_cases:
  assumes "cd_Handle parse cf ae c b r = Inr (c', outs, err)"
  obtains (decode_error) e where "parse b = Inl e"
      and "outs = (if r then [Publish_Event (cd_error_event e)] else [])"
      and "cdMessagesReceived c' = cdMessagesReceived c + 1"
      and "cdMetricsDecoded c' = cdMetricsDecoded c"
      and "cdDecodeErrors c' = cdDecodeErrors c + 1"
    | (decoded) ms where "parse b = Inr ms"
      and "outs = concat (map (cd_spec_outputs cf ae r) ms)"
      and "cdMessagesReceived c' = cdMessagesReceived c + 1"
proof (cases "parse b")
  case (Inl e)
  with assms decode_error show ?thesis by (auto simp: cd_Handle_def)
next
  case (Inr ms)
  let ?c = "c\<lparr>cdMessagesReceived := cdMessagesReceived c + 1\<rparr>"
  have fold: "go_foldM (cd_handle_one cf ae r) (?c, []) ms = Inr (c', outs)"
    using assms Inr by (auto simp: cd_Handle_def go_bind_eq_Inr_iff)
  then have "\<And>m. m \<in> set ms \<Longrightarrow> validateMetric m \<Longrightarrow> cd_in_bounds m"
    using cd_handle_loop_panics by fastforce
  with cd_handle_loop [of ms cf ae r ?c "[]"] fold Inr show ?thesis
    by (auto intro: decoded)
qed

lemma cd_spec_outputs_ok: "list_all (output_ok cd_Identify r) (cd_spec_outputs cf ae r m)"
  by (simp add: cd_spec_outputs_def list_all_iff metric_aligned_def cd_spec_metric_def
      Let_def cd_error_event_def)

interpretation cdh: handler "cd_Handle parse cf ae" cd_Identify "\<lambda>_. True" cdMessagesReceived
  for parse cf ae
proof unfold_locales
  fix s b r s' outs err
  assume h: "cd_Handle parse cf ae s b r = Inr (s', outs, err)"
  then show "cdMessagesReceived s' = cdMessagesReceived s + 1" by (rule cd_Handle_cases)
  from h show "list_all (output_ok cd_Identify r) outs"
  proof (cases rule: cd_Handle_cases)
    case (decode_error e)
    then show ?thesis by (simp add: cd_error_event_def)
  next
    case (decoded ms)
    have "list_all (output_ok cd_Identify r) (concat (map (cd_spec_outputs cf ae r) ms))"
      using cd_spec_outputs_ok by (induction ms) simp_all
    with decoded show ?thesis by simp
  qed
qed simp

section \<open>Properties\<close>

text \<open>A value list used in the witnesses.\<close>

definition cd_example :: "string list \<Rightarrow> cd_metric" where
  "cd_example names =
     \<lparr>cdValues = Some [1, 2], cdDstypes = Some [''derive'', ''gauge''], cdDsnames = Some names,
      cdTime = 5, cdInterval = 10, cdHost = ''h'', cdPlugin = ''virt'', cdPluginInstance = [],
      cdType = ''if_packets'', cdTypeInstance = ''tap''\<rparr>"

text \<open>
  Validation checks that the three slices are present, that there are as many values as
  types, and that host, plugin and type are named; the number of data source names is not
  checked, since it cancels out of the exclusive or.
\<close>

theorem validate_ignores_dsnames:
  "validateMetric m \<longleftrightarrow>
     cdDsnames m \<noteq> None \<and> cdDstypes m \<noteq> None \<and> cdValues m \<noteq> None
     \<and> cdHost m \<noteq> [] \<and> cdPlugin m \<noteq> [] \<and> cdType m \<noteq> []
     \<and> length (slice_of (cdDstypes m)) = length (slice_of (cdValues m))"
  by (auto simp: validateMetric_iff slice_of_def)

text \<open>
  C17: \<open>Handle\<close> panics exactly if one of the decoded value lists passes validation but has
  more names than types; any such message ends the process.
\<close>

theorem collectd_handle_panics_iff:
  "(\<exists>p. cd_Handle parse cf ae c b r = Inl p) \<longleftrightarrow>
     (\<exists>ms. parse b = Inr ms \<and> (\<exists>m \<in> set ms. validateMetric m \<and> \<not> cd_in_bounds m))"
proof (cases "parse b")
  case (Inl e)
  then show ?thesis by (simp add: cd_Handle_def)
next
  case (Inr ms)
  let ?c = "c\<lparr>cdMessagesReceived := cdMessagesReceived c + 1\<rparr>"
  show ?thesis
  proof (cases "\<exists>m \<in> set ms. validateMetric m \<and> \<not> cd_in_bounds m")
    case True
    then have "go_foldM (cd_handle_one cf ae r) (?c, []) ms = Inl Index_Out_Of_Range"
      using cd_handle_loop_panics by blast
    with Inr True show ?thesis by (simp add: cd_Handle_def)
  next
    case False
    with cd_handle_loop [of ms cf ae r ?c "[]"] Inr show ?thesis by (auto simp: cd_Handle_def)
  qed
qed

text \<open>
  C16: A message whose value lists are in bounds is handled completely: every valid list gives
  one metric per data source, in order, every invalid one an error event (if errors are
  reported) and a decode error, one does not stop the others, the counters count metrics and
  errors, and no error is returned.
\<close>

theorem collectd_handle_complete:
  assumes "parse b = Inr ms" and "\<forall>m \<in> set ms. validateMetric m \<longrightarrow> cd_in_bounds m"
  shows "\<exists>c'. cd_Handle parse cf ae c b r =
              Inr (c', concat (map (cd_spec_outputs cf ae r) ms), None)
           \<and> cdMessagesReceived c' = cdMessagesReceived c + 1
           \<and> cdMetricsDecoded c' = cdMetricsDecoded c
               + of_nat (\<Sum>m\<leftarrow>filter validateMetric ms. length (slice_of (cdDsnames m)))
           \<and> cdDecodeErrors c' = cdDecodeErrors c
               + of_nat (length (filter (\<lambda>m. \<not> validateMetric m) ms))"
  using cd_handle_loop [of ms cf ae r "c\<lparr>cdMessagesReceived := cdMessagesReceived c + 1\<rparr>" "[]"] assms
  by (simp add: cd_Handle_def)

theorem collectd_handle_complete_witness:
  "\<exists>c'. cd_Handle (\<lambda>_. Inr [cd_example [''rx'', ''tx'']]) (\<lambda>_. 0) [] cd_New ''x'' True =
        Inr (c', concat (map (cd_spec_outputs (\<lambda>_. 0) [] True) [cd_example [''rx'', ''tx'']]), None)
     \<and> cdMessagesReceived c' = cdMessagesReceived cd_New + 1
     \<and> cdMetricsDecoded c' = cdMetricsDecoded cd_New
         + of_nat (\<Sum>m\<leftarrow>filter validateMetric [cd_example [''rx'', ''tx'']]. length (slice_of (cdDsnames m)))
     \<and> cdDecodeErrors c' = cdDecodeErrors cd_New
         + of_nat (length (filter (\<lambda>m. \<not> validateMetric m) [cd_example [''rx'', ''tx'']]))"
  by (rule collectd_handle_complete)
     (simp_all add: cd_in_bounds_def cd_example_def slice_of_def)

end
