(* ===== verification/GoTime.thy ===== *)
theory GoTime
  imports Prelude
begin

text \<open>
  Time stamps as the handlers read them (\<open>plugins/handler/events/pkg/lib/time.go\<close> and
  \<open>plugins/handler/logs/pkg/lib/time.go\<close>): a string is parsed with the first of five layouts
  that accepts it.  A \<open>time.Time\<close> is its seconds and nanoseconds since the epoch together with
  the offset of its zone, which its calendar date depends on.  \<open>time_Parse layout s\<close> stands for
  \<open>time.Parse\<close>; nothing is assumed of it.
\<close>

record go_time =
  unix_seconds :: int
  nanoseconds :: int
  zone_offset :: int

type_synonym time_parser = "string \<Rightarrow> string \<Rightarrow> go_time option"

text \<open>The value of the first layout that parses.\<close>

fun parse_first :: "time_parser \<Rightarrow> string list \<Rightarrow> string \<Rightarrow> go_time option" where
  "parse_first time_Parse [] ts = None"
| "parse_first time_Parse (l # ls) ts =
     (case time_Parse l ts of Some t \<Rightarrow> Some t | None \<Rightarrow> parse_first time_Parse ls ts)"

definition RFC3339 :: string where
  "RFC3339 = ''2006-01-02T15:04:05Z07:00''"

definition RFC3339Nano :: string where
  "RFC3339Nano = ''2006-01-02T15:04:05.999999999Z07:00''"

definition ANSIC :: string where
  "ANSIC = ''Mon Jan _2 15:04:05 2006''"

definition event_layouts :: "string list" where
  "event_layouts =
     [''2006-01-02T15:04:05.999999'', RFC3339, RFC3339Nano, ANSIC, ''2006-01-02 15:04:05.999999'']"

text \<open>A time stamp that no layout accepts has the epoch 0.\<close>

definition EpochFromFormat :: "time_parser \<Rightarrow> string \<Rightarrow> int64" where
  "EpochFromFormat time_Parse ts =
     (case parse_first time_Parse event_layouts ts of Some t \<Rightarrow> unix_seconds t | None \<Rightarrow> 0)"

text \<open>The same function in \<open>pkg/lib/time.go\<close>, which no plugin imports, with its two layouts.\<close>

definition lib_isoTimeLayout :: string where
  "lib_isoTimeLayout = ''2006-01-02 15:04:05.999999''"

definition lib_rFC3339 :: string where
  "lib_rFC3339 = ''2006-01-02T15:04:05.999999''"

definition lib_EpochFromFormat :: "time_parser \<Rightarrow> string \<Rightarrow> int64" where
  "lib_EpochFromFormat time_Parse ts =
     (case parse_first time_Parse [lib_rFC3339, RFC3339, RFC3339Nano, ANSIC, lib_isoTimeLayout] ts of
        Some stamp \<Rightarrow> unix_seconds stamp
      | None \<Rightarrow> 0)"

lemma lib_EpochFromFormat_eq: "lib_EpochFromFormat = EpochFromFormat"
  by (intro ext)
     (simp add: lib_EpochFromFormat_def EpochFromFormat_def event_layouts_def lib_rFC3339_def lib_isoTimeLayout_def)

definition log_layouts :: "string list" where
  "log_layouts =
     [''2006-01-02T15:04:05.000000'', RFC3339, RFC3339Nano, ANSIC, ''2006-01-02 15:04:05.000000'']"

text \<open>The error of \<open>TimeFromFormat\<close> comes with the current time, which no caller uses.\<close>

definition TimeFromFormat :: "time_parser \<Rightarrow> string \<Rightarrow> string + go_time" where
  "TimeFromFormat time_Parse ts =
     (case parse_first time_Parse log_layouts ts of
        Some t \<Rightarrow> Inr t
      | None \<Rightarrow> Inl ''unable to parse timestamp'')"

lemma parse_first_None: "parse_first tp ls ts = None \<longleftrightarrow> (\<forall>l \<in> set ls. tp l ts = None)"
  by (induction ls) (auto split: option.split)

section \<open>Dates\<close>

text \<open>
  The proleptic Gregorian calendar, in years that begin with March: \<open>year_days\<close> of the day
  of a 400-year era, and the date of a day counted from 1970-01-01.
\<close>

definition date_of_days :: "int \<Rightarrow> int \<times> int \<times> int" where
  "date_of_days days =
     (let z = days + 719468;
          era = z div 146097;
          doe = z mod 146097;
          yoe = (doe - doe div 1460 + doe div 36524 - doe div 146096) div 365;
          doy = doe - (365 * yoe + yoe div 4 - yoe div 100);
          mp = (5 * doy + 2) div 153;
          d = doy - (153 * mp + 2) div 5 + 1;
          m = (if mp < 10 then mp + 3 else mp - 9);
          y = yoe + 400 * era + (if m \<le> 2 then 1 else 0)
      in (y, m, d))"

text \<open>\<open>t.Date()\<close>: year, month and day in the zone of \<open>t\<close>.\<close>

definition Date :: "go_time \<Rightarrow> int \<times> int \<times> int" where
  "Date t = date_of_days ((unix_seconds t + zone_offset t) div 86400)"

lemma date_of_days_examples:
  "date_of_days 0 = (1970, 1, 1)" "date_of_days 18327 = (2020, 3, 6)"
  "date_of_days 11016 = (2000, 2, 29)" "date_of_days (- 1) = (1969, 12, 31)"
  "date_of_days 47540 = (2100, 2, 28)" "date_of_days 47541 = (2100, 3, 1)"
  by code_simp+

end
