(* ===== verification/CeilometerMetrics.thy ===== *)
theory CeilometerMetrics
  imports Handler GoTime
begin

text \<open>
  The ceilometer-metrics handler (\<open>plugins/handler/ceilometer-metrics/main.go\<close> and
  \<open>pkg/ceilometer/ceilometer.go\<close>): the message inside an oslo message is unescaped and
  decoded, and each of its samples becomes a metric.  Decoders are parameters; the two regular
  expressions, the expansion of a replacement template and the labels are modelled in full.
\<close>

section \<open>Messages\<close>

record ceil_metadata =
  mdHost :: string
  mdName :: string
  mdDisplayName :: string
  mdInstanceHost :: string
  mdUserMetadata :: "(string, string) gomap"

record ceil_metric =
  cmSource :: string
  cmCounterName :: string
  cmCounterType :: string
  cmCounterUnit :: string
  cmCounterVolume :: float64
  cmUserID :: string
  cmUserName :: string
  cmProjectID :: string
  cmProjectName :: string
  cmResourceID :: string
  cmTimestamp :: string
  cmResourceMetadata :: ceil_metadata

record ceil_message =
  cmPublisher :: string
  cmPayload :: "ceil_metric list"

section \<open>Unescaping\<close>

definition quoted :: "string \<Rightarrow> string" where
  "quoted s = [quote] @ s @ [quote]"

definition backslash :: char where
  "backslash = CHR 0x5C"

definition dollar :: char where
  "dollar = CHR 0x24"

text \<open>The class \<open>\s\<close>, and the letters, digits and underscore of a group's name (ASCII).\<close>

definition is_space :: "char \<Rightarrow> bool" where
  "is_space c \<longleftrightarrow> c \<in> {CHR 0x09, CHR 0x0A, CHR 0x0C, CHR 0x0D, CHR '' ''}"

definition is_word :: "char \<Rightarrow> bool" where
  "is_word c \<longleftrightarrow>
     is_digit c \<or> c = CHR ''_''
     \<or> (let n = of_char c :: nat in (65 \<le> n \<and> n \<le> 90) \<or> (97 \<le> n \<and> n \<le> 122))"

definition payload_word :: string where
  "payload_word = [quote] @ ''payload'' @ [quote]"

definition strip_prefix :: "string \<Rightarrow> string \<Rightarrow> string option" where
  "strip_prefix p s = (if has_prefix s p then Some (drop (length p) s) else None)"

text \<open>
  \<open>rexForPayload\<close> at the start of a string: the group, which reaches up to the last bracket of
  the line, and what follows the match.
\<close>

definition payload_at :: "string \<Rightarrow> (string \<times> string) option" where
  "payload_at s =
     (case strip_prefix payload_word s of
        None \<Rightarrow> None
      | Some s1 \<Rightarrow>
          (case strip_prefix '':'' (dropWhile is_space s1) of
             None \<Rightarrow> None
           | Some s2 \<Rightarrow>
               (case strip_prefix ''['' (dropWhile is_space s2) of
                  None \<Rightarrow> None
                | Some body \<Rightarrow>
                    (case str_last_index '']'' (takeWhile (\<lambda>c. c \<noteq> newline) body) of
                       None \<Rightarrow> None
                     | Some j \<Rightarrow> Some (take j body, drop (Suc j) body)))))"

text \<open>The leftmost match: what precedes it, its group, what follows it.\<close>

fun find_payload :: "string \<Rightarrow> (string \<times> string \<times> string) option" where
  "find_payload [] = None"
| "find_payload (c # cs) =
     (case payload_at (c # cs) of
        Some (g, r) \<Rightarrow> Some ([], g, r)
      | None \<Rightarrow> (case find_payload cs of None \<Rightarrow> None | Some (p, g, r) \<Rightarrow> Some (c # p, g, r)))"

text \<open>
  The reference at the start of a template, after its dollar sign: the number of the group
  (\<open>None\<close> for a name, which no group of the expression has) and the rest of the template.
\<close>

definition group_number :: "string \<Rightarrow> nat option" where
  "group_number name =
     (if list_all is_digit name \<and> length name \<le> 9 \<and> \<not> (length name > 1 \<and> hd name = CHR ''0'')
      then Some (nat_of_digits name 0) else None)"

definition extract_ref :: "string \<Rightarrow> (nat option \<times> string) option" where
  "extract_ref str =
     (let (brace, s) = (case str of c # cs \<Rightarrow> if c = CHR ''{'' then (True, cs) else (False, str)
                        | [] \<Rightarrow> (False, []));
          name = takeWhile is_word s; rest = dropWhile is_word s
      in if name = [] then None
         else if brace then
           (case rest of c # cs \<Rightarrow> if c = CHR ''}'' then Some (group_number name, cs) else None
            | [] \<Rightarrow> None)
         else Some (group_number name, rest))"

lemma extract_ref_length:
  assumes "extract_ref s = Some (n, rest)"
  shows "length rest \<le> length s"
proof (cases s)
  case Nil
  with assms show ?thesis by (simp add: extract_ref_def)
next
  case (Cons c cs)
  with assms have "rest = dropWhile is_word s \<or> (\<exists>d. d # rest = dropWhile is_word cs)"
    by (auto simp: extract_ref_def Let_def eq_commute [of "[]"] split: list.splits if_splits)
  then show ?thesis
  proof
    assume "\<exists>d. d # rest = dropWhile is_word cs"
    then obtain d where "d # rest = dropWhile is_word cs" by blast
    then have "length (d # rest) \<le> length cs" by (metis length_dropWhile_le)
    with Cons show ?thesis by simp
  qed (simp add: length_dropWhile_le)
qed

text \<open>The replacement template, for a match with the text \<open>whole\<close> and the group \<open>g\<close>.\<close>

function expand :: "string \<Rightarrow> string \<Rightarrow> string \<Rightarrow> string" where
  "expand whole g [] = []"
| "expand whole g (c # cs) =
     (if c \<noteq> dollar then c # expand whole g cs
      else if cs \<noteq> [] \<and> hd cs = dollar then dollar # expand whole g (tl cs)
      else (case extract_ref cs of
              None \<Rightarrow> dollar # expand whole g cs
            | Some (n, rest) \<Rightarrow>
                (if n = Some 0 then whole else if n = Some 1 then g else []) @ expand whole g rest))"
  by pat_completeness auto
termination
  by (relation "measure (\<lambda>(whole, g, t). length t)") (auto dest: extract_ref_length simp: less_Suc_eq_le)

lemma payload_at_length: "payload_at s = Some (g, r) \<Longrightarrow> length r < length s"
proof -
  assume "payload_at s = Some (g, r)"
  then obtain s1 s2 body j where p: "strip_prefix payload_word s = Some s1"
      "strip_prefix '':'' (dropWhile is_space s1) = Some s2"
      "strip_prefix ''['' (dropWhile is_space s2) = Some body" "r = drop (Suc j) body"
    by (auto simp: payload_at_def split: option.splits)
  have strip: "strip_prefix q t = Some u \<Longrightarrow> q \<noteq> [] \<Longrightarrow> length u < length t" for q t u
    by (auto simp: strip_prefix_def has_prefix_iff split: if_splits)
  from strip [OF p(1)] strip [OF p(2)] strip [OF p(3)] length_dropWhile_le [of is_space s1]
    length_dropWhile_le [of is_space s2] p(4)
  show ?thesis by (simp add: payload_word_def)
qed

lemma find_payload_length: "find_payload s = Some (p, g, r) \<Longrightarrow> length p + length r < length s"
  by (induction s arbitrary: p) (auto dest: payload_at_length split: option.splits)

text \<open>\<open>ReplaceAllString\<close>: all matches, one after the other.\<close>

function replace_payloads :: "string \<Rightarrow> string \<Rightarrow> string" where
  "replace_payloads template s =
     (case find_payload s of
        None \<Rightarrow> s
      | Some (p, g, r) \<Rightarrow>
          p @ expand (drop (length p) (take (length s - length r) s)) g template
            @ replace_payloads template r)"
  by pat_completeness auto
termination
  by (relation "measure (\<lambda>(template, s). length s)") (auto dest: find_payload_length)

declare replace_payloads.simps [simp del]

definition unescape_quotes :: "string \<Rightarrow> string" where
  "unescape_quotes s = replace_all [backslash, quote] [quote] s"

definition payload_template :: "string \<Rightarrow> string" where
  "payload_template g = payload_word @ '': ['' @ g @ '']''"

definition sanitize :: "string \<Rightarrow> string" where
  "sanitize oslo =
     (let sanitized = unescape_quotes oslo
      in case find_payload sanitized of
           None \<Rightarrow> sanitized
         | Some (p, g, r) \<Rightarrow> replace_payloads (payload_template g) sanitized)"

section \<open>The handler\<close>

definition ceilTypeToMetricType :: "string \<Rightarrow> metric_type" where
  "ceilTypeToMetricType s =
     (case map_of [(''cumulative'', COUNTER), (''delta'', UNTYPED), (''gauge'', GAUGE)] s of
        Some t \<Rightarrow> t | None \<Rightarrow> UNTYPED)"

text \<open>\<open>schema\<close> is the last decoded oslo message, which the decoder writes into.\<close>

record ceil_handler =
  schema :: string
  chMetricsDecoded :: uint64
  chDecodeErrors :: uint64
  chMessagesReceived :: uint64
  chSource :: string

definition ceil_New :: ceil_handler where
  "ceil_New =
     \<lparr>schema = [], chMetricsDecoded = 0, chDecodeErrors = 0, chMessagesReceived = 0, chSource = []\<rparr>"

text \<open>
  The decoders: \<open>decode_schema b old\<close> is what decoding \<open>b\<close> into the schema leaves there, and the
  error; \<open>decode_message\<close> gives \<open>None\<close> for the nil pointer that a JSON \<open>null\<close> decodes to;
  \<open>decode_msgpack\<close> decodes a packed sample together with the publisher.
\<close>

record ceil_decoders =
  decode_schema :: "blob \<Rightarrow> string \<Rightarrow> string \<times> string option"
  decode_message :: "string \<Rightarrow> string + ceil_message option"
  decode_metric_msgpack :: "blob \<Rightarrow> string + ceil_metric"
  decode_message_msgpack :: "blob \<Rightarrow> string + ceil_message"

definition ParseInputJSON ::
  "ceil_decoders \<Rightarrow> blob \<Rightarrow> ceil_handler \<Rightarrow> ceil_handler \<times> (string + ceil_message option)" where
  "ParseInputJSON dec b c =
     (let (oslo, err) = decode_schema dec b (schema c); c1 = c\<lparr>schema := oslo\<rparr>
      in case err of
           Some e \<Rightarrow> (c1, Inl e)
         | None \<Rightarrow> (c1, decode_message dec (sanitize oslo)))"

definition ParseInputMsgPack :: "ceil_decoders \<Rightarrow> blob \<Rightarrow> string + ceil_message option" where
  "ParseInputMsgPack dec b =
     (case decode_metric_msgpack dec b of
        Inl e \<Rightarrow> Inl e
      | Inr m \<Rightarrow>
          (case decode_message_msgpack dec b of
             Inl e \<Rightarrow> Inl e
           | Inr msg \<Rightarrow> Inr (Some (msg\<lparr>cmPayload := cmPayload msg @ [m]\<rparr>))))"

definition validateMessage :: "ceil_message option \<Rightarrow> string option go" where
  "validateMessage msg =
     (case msg of
        None \<Rightarrow> Inl Nil_Dereference
      | Some m \<Rightarrow>
          if cmPublisher m = [] then Inr (Some (''message missing field '' @ [CHR 39] @ ''publisher_id'' @ [CHR 39]))
          else if length (cmPayload m) = 0 then Inr (Some ''message contains no payload'')
          else Inr None)"

definition genName :: "string list \<Rightarrow> string" where
  "genName cNameShards = join ''_'' (''ceilometer'' # cNameShards)"

text \<open>
  The labels under construction: the two slices, both made with \<open>12 + len(UserMetadata)\<close>
  elements, and the index of the next label.
\<close>

type_synonym label_slices = "string list \<times> string list \<times> int"

definition write_label :: "string \<Rightarrow> string \<Rightarrow> label_slices \<Rightarrow> label_slices go" where
  "write_label k v st =
     (case st of (ks, vs, i) \<Rightarrow>
        go_bind (slice_set ks i k) (\<lambda>ks'. go_bind (slice_set vs i v) (\<lambda>vs'. Inr (ks', vs', i))))"

definition next_label :: "label_slices \<Rightarrow> label_slices" where
  "next_label st = (case st of (ks, vs, i) \<Rightarrow> (ks, vs, i + 1))"

definition add_label :: "string \<Rightarrow> string \<Rightarrow> label_slices \<Rightarrow> label_slices go" where
  "add_label k v st = go_bind (write_label k v st) (\<lambda>st'. Inr (next_label st'))"

text \<open>An optional label is left out if its value is empty.\<close>

definition add_optional :: "label_slices \<Rightarrow> string \<times> string \<Rightarrow> label_slices go" where
  "add_optional st kv = (if snd kv \<noteq> [] then add_label (fst kv) (snd kv) st else Inr st)"

text \<open>
  The label \<open>resource_name\<close>, written once for the display name and again for the name, and
  counted if there is a value in the end.
\<close>

definition add_resource_name :: "ceil_metadata \<Rightarrow> label_slices \<Rightarrow> label_slices go" where
  "add_resource_name md st =
     go_bind (if mdDisplayName md \<noteq> [] then write_label ''resource_name'' (mdDisplayName md) st else Inr st)
       (\<lambda>st1. go_bind
          (if mdName md \<noteq> [] then
             (case st1 of (ks, vs, i) \<Rightarrow>
                go_bind (slice_set ks i ''resource_name'') (\<lambda>ks'.
                go_bind (slice_get vs i) (\<lambda>v.
                go_bind (slice_set vs i (if v \<noteq> [] then v @ '':'' @ mdName md else mdName md)) (\<lambda>vs'.
                  Inr (ks', vs', i)))))
           else Inr st1)
          (\<lambda>st2. case st2 of (ks, vs, i) \<Rightarrow>
             go_bind (slice_get vs i) (\<lambda>v. Inr (if v \<noteq> [] then next_label st2 else st2))))"

text \<open>The order of \<open>UserMetadata\<close> is that of one iteration over the map.\<close>

definition genLabels :: "ceil_metric \<Rightarrow> string \<Rightarrow> string list \<Rightarrow> (string list \<times> string list) go" where
  "genLabels m publisher cNameShards =
     (let md = cmResourceMetadata m; n = 12 + length (mdUserMetadata md)
      in go_bind (slice_get cNameShards 0) (\<lambda>plugin.
         let pluginVal = (if length cNameShards > 2 then cNameShards ! 2 else cmResourceID m);
             ctype = (if length cNameShards > 1 then cNameShards ! 1 else plugin)
         in go_bind (go_foldM (\<lambda>st (k, v). add_label k v st) (replicate n [], replicate n [], 0)
                       [(plugin, pluginVal), (''publisher'', publisher), (''type'', ctype)]) (\<lambda>st1.
            go_bind (go_foldM add_optional st1
                       [(''counter'', cmCounterName m), (''project'', cmProjectID m),
                        (''project_name'', cmProjectName m), (''user'', cmUserID m),
                        (''user_name'', cmUserName m), (''unit'', cmCounterUnit m),
                        (''resource'', cmResourceID m), (''vm_instance'', mdHost md)]) (\<lambda>st2.
            go_bind (add_resource_name md st2) (\<lambda>st3.
            go_bind (go_foldM (\<lambda>st (k, v). add_label k v st) st3 (mdUserMetadata md)) (\<lambda>(ks, vs, i).
            go_bind (slice_range ks 0 i) (\<lambda>keys.
            go_bind (slice_range vs 0 i) (\<lambda>vals.
              Inr (keys, vals)))))))))"

definition ceil_Identify :: string where
  "ceil_Identify = ''ceilometer-metrics''"

definition ceil_error_event :: "string \<Rightarrow> event" where
  "ceil_error_event err =
     error_event ceil_Identify
       [(''error'', IString err), (''message'', IString ''failed to parse metric - disregarding'')]
       ''internal smartgateway ceilometer-metrics handler error''"

definition missing_counter_name :: string where
  "missing_counter_name = ''missing '' @ [CHR 39] @ ''counter_name'' @ [CHR 39] @ '' in metric payload''"

text \<open>A time stamp that cannot be parsed gives the zero time, long before 1970.\<close>

definition ceil_time :: "time_parser \<Rightarrow> string \<Rightarrow> float64" where
  "ceil_time time_Parse ts =
     (case time_Parse RFC3339 ts of
        Some t \<Rightarrow> max 0 (f64_of_int (unix_seconds t))
      | None \<Rightarrow> 0)"

definition ceil_metric_of :: "time_parser \<Rightarrow> string \<Rightarrow> ceil_metric \<Rightarrow> metric go" where
  "ceil_metric_of time_Parse publisher m =
     (let shards = str_split ''.'' (cmCounterName m)
      in go_bind (genLabels m publisher shards) (\<lambda>(keys, vals).
           Inr \<lparr>mName = genName shards, mTime = ceil_time time_Parse (cmTimestamp m),
                mType = ceilTypeToMetricType (cmCounterType m), mInterval = time_Second * 100,
                mValue = cmCounterVolume m, mLabelKeys = keys, mLabelVals = vals\<rparr>))"

text \<open>The loop over the samples, which ends at the first one without a name.\<close>

fun ceil_samples ::
  "time_parser \<Rightarrow> bool \<Rightarrow> string \<Rightarrow> ceil_metric list \<Rightarrow> ceil_handler \<Rightarrow> ceil_handler handled go" where
  "ceil_samples time_Parse report publisher [] c = Inr (c, [], None)"
| "ceil_samples time_Parse report publisher (m # ms) c =
     (if cmCounterName m = [] then
        Inr (c\<lparr>chDecodeErrors := chDecodeErrors c + 1\<rparr>,
             (if report then [Publish_Event (ceil_error_event missing_counter_name)] else []),
             Some missing_counter_name)
      else
        (case ceil_metric_of time_Parse publisher m of
           Inl p \<Rightarrow> Inl p
         | Inr mt \<Rightarrow>
             (case ceil_samples time_Parse report publisher ms
                     (c\<lparr>chMetricsDecoded := chMetricsDecoded c + 1\<rparr>) of
                Inl p \<Rightarrow> Inl p
              | Inr (c', outs, err) \<Rightarrow> Inr (c', Publish_Metric mt # outs, err))))"

definition ceil_parse ::
  "ceil_decoders \<Rightarrow> blob \<Rightarrow> ceil_handler \<Rightarrow> ceil_handler \<times> (string + ceil_message option)" where
  "ceil_parse dec b c =
     (if chSource c = ''tcp'' \<or> chSource c = ''udp'' then (c, ParseInputMsgPack dec b)
      else ParseInputJSON dec b c)"

definition ceil_Handle :: "ceil_decoders \<Rightarrow> time_parser \<Rightarrow> ceil_handler handle" where
  "ceil_Handle dec time_Parse c0 b report =
     (let (c, res) = ceil_parse dec b (c0\<lparr>chMessagesReceived := chMessagesReceived c0 + 1\<rparr>)
      in case res of
           Inl err \<Rightarrow> Inr (c, [], Some err)
         | Inr msg \<Rightarrow>
             go_bind (validateMessage msg) (\<lambda>verr.
               case verr of
                 Some e \<Rightarrow>
                   Inr (c\<lparr>chDecodeErrors := chDecodeErrors c + 1\<rparr>,
                        (if report then [Publish_Event (ceil_error_event e)] else []), Some e)
               | None \<Rightarrow>
                   (case msg of
                      None \<Rightarrow> Inl Nil_Dereference
                    | Some m \<Rightarrow> ceil_samples time_Parse report (cmPublisher m) (cmPayload m) c)))"

text \<open>\<open>ParseConfig\<close> gives the source it leaves in the configuration and its error.\<close>

definition ceil_Config :: "(string \<Rightarrow> string \<times> string option) \<Rightarrow> ceil_handler \<Rightarrow> ceil_handler \<times> string option" where
  "ceil_Config ParseConfig c =
     (let (source, err) = ParseConfig ''unix''
      in case err of
           Some e \<Rightarrow> (c\<lparr>chSource := source\<rparr>, Some e)
         | None \<Rightarrow>
             (let s = to_lower source; c1 = c\<lparr>chSource := s\<rparr>
              in if s \<noteq> ''unix'' \<and> s \<noteq> ''tcp'' \<and> s \<noteq> ''udp''
                 then (c1, Some (''incorrect source, should be either '' @ quoted ''unix'' @ '', '' @ quoted ''tcp''
                                 @ '' or '' @ quoted ''udp'' @ '', received: '' @ s))
                 else (c1, None)))"

definition ceil_Run_tick :: "ceil_handler \<Rightarrow> metric list" where
  "ceil_Run_tick c =
     [self_metric ''sg_total_ceilometer_metric_decode_count'' (chMetricsDecoded c),
      self_metric ''sg_total_ceilometer_metric_decode_error_count'' (chDecodeErrors c),
      self_metric ''sg_total_ceilometer_msg_received_count'' (chMessagesReceived c)]"

section \<open>The labels\<close>

text \<open>The slices with the labels \<open>ps\<close> written so far.\<close>

definition slices :: "nat \<Rightarrow> (string \<times> string) list \<Rightarrow> label_slices" where
  "slices n ps =
     (map fst ps @ replicate (n - length ps) [], map snd ps @ replicate (n - length ps) [],
      int (length ps))"

lemma slice_set_next:
  "slice_set (xs @ replicate (Suc k) y) (int (length xs)) v = Inr (xs @ v # replicate k y)"
  by (simp add: slice_set_def list_update_append)

lemma write_label_slices:
  assumes "length ps < n"
  shows "write_label k v (slices n ps) =
    Inr (map fst ps @ k # replicate (n - Suc (length ps)) [],
         map snd ps @ v # replicate (n - Suc (length ps)) [], int (length ps))"
proof -
  obtain r where r: "n - length ps = Suc r" using assms by (metis Suc_diff_Suc)
  then have "n - Suc (length ps) = r" by simp
  with r slice_set_next [of "map fst ps" r "[]" k] slice_set_next [of "map snd ps" r "[]" v]
  show ?thesis by (simp add: write_label_def slices_def)
qed

lemma add_label_slices:
  assumes "length ps < n"
  shows "add_label k v (slices n ps) = Inr (slices n (ps @ [(k, v)]))"
  using write_label_slices [OF assms, of k v] by (simp add: add_label_def next_label_def slices_def)

lemma add_labels:
  "length ps + length kvs \<le> n \<Longrightarrow>
     go_foldM (\<lambda>st (k, v). add_label k v st) (slices n ps) kvs = Inr (slices n (ps @ kvs))"
  by (induction kvs arbitrary: ps) (auto simp: add_label_slices)

lemma add_optionals:
  "length ps + length kvs \<le> n \<Longrightarrow>
     go_foldM add_optional (slices n ps) kvs = Inr (slices n (ps @ filter (\<lambda>kv. snd kv \<noteq> []) kvs))"
proof (induction kvs arbitrary: ps)
  case Nil
  then show ?case by simp
next
  case (Cons kv kvs)
  from Cons.prems Cons.IH [of ps] Cons.IH [of "ps @ [kv]"] show ?case
    by (simp add: add_optional_def add_label_slices)
qed

definition resource_label :: "ceil_metadata \<Rightarrow> (string \<times> string) list" where
  "resource_label md =
     (if mdDisplayName md = [] \<and> mdName md = [] then []
      else [(''resource_name'',
             if mdDisplayName md = [] then mdName md
             else if mdName md = [] then mdDisplayName md
             else mdDisplayName md @ '':'' @ mdName md)])"

lemma slice_at: "slice_get (xs @ y # ys) (int (length xs)) = Inr y"
  by (simp add: slice_get_def)

lemma slice_set_at: "slice_set (xs @ y # ys) (int (length xs)) v = Inr (xs @ v # ys)"
  by (simp add: slice_set_def list_update_append)

lemma add_resource_name_slices:
  assumes "length ps < n"
  shows "add_resource_name md (slices n ps) = Inr (slices n (ps @ resource_label md))"
proof -
  obtain r where r: "n - length ps = Suc r" using assms by (metis Suc_diff_Suc)
  then have r': "n - Suc (length ps) = r" by simp
  have s: "slices n ps = (map fst ps @ [] # replicate r [], map snd ps @ [] # replicate r [], int (length ps))"
    by (simp add: slices_def r)
  note fst_at = slice_at [of "map fst ps", simplified] slice_set_at [of "map fst ps", simplified]
  note snd_at = slice_at [of "map snd ps", simplified] slice_set_at [of "map snd ps", simplified]
  have w: "write_label k v (slices n ps) =
    Inr (map fst ps @ k # replicate r [], map snd ps @ v # replicate r [], int (length ps))" for k v
    using write_label_slices [OF assms, of k v] r' by simp
  have e: "slices n (ps @ [(k, v)]) =
      (map fst ps @ k # replicate r [], map snd ps @ v # replicate r [], int (length ps) + 1)" for k v
    by (simp add: slices_def r')
  show ?thesis
  proof (cases "mdDisplayName md = []")
    case True
    then show ?thesis
      by (cases "mdName md = []")
         (simp_all add: add_resource_name_def resource_label_def e, simp_all add: s fst_at snd_at next_label_def)
  next
    case False
    then show ?thesis
      by (cases "mdName md = []")
         (simp_all add: add_resource_name_def resource_label_def e w fst_at snd_at next_label_def)
  qed
qed

text \<open>The labels of a sample: which ones, in which order.\<close>

definition label_pairs :: "ceil_metric \<Rightarrow> string \<Rightarrow> string list \<Rightarrow> (string \<times> string) list" where
  "label_pairs m publisher shards =
     (let md = cmResourceMetadata m
      in [(hd shards, if length shards > 2 then shards ! 2 else cmResourceID m),
          (''publisher'', publisher),
          (''type'', if length shards > 1 then shards ! 1 else hd shards)]
         @ filter (\<lambda>kv. snd kv \<noteq> [])
             [(''counter'', cmCounterName m), (''project'', cmProjectID m),
              (''project_name'', cmProjectName m), (''user'', cmUserID m),
              (''user_name'', cmUserName m), (''unit'', cmCounterUnit m),
              (''resource'', cmResourceID m), (''vm_instance'', mdHost md)]
         @ resource_label md @ mdUserMetadata md)"

lemma slices_prefix:
  assumes "slices n ps = (ks, vs, i)"
  shows "slice_range ks 0 i = Inr (map fst ps)" "slice_range vs 0 i = Inr (map snd ps)"
  using assms by (auto simp: slices_def slice_range_def)

lemma genLabels_eq:
  assumes "shards \<noteq> []"
  shows "genLabels m publisher shards =
           Inr (map fst (label_pairs m publisher shards), map snd (label_pairs m publisher shards))"
proof -
  let ?md = "cmResourceMetadata m"
  let ?n = "12 + length (mdUserMetadata ?md)"
  let ?opt = "[(''counter'', cmCounterName m), (''project'', cmProjectID m),
              (''project_name'', cmProjectName m), (''user'', cmUserID m),
              (''user_name'', cmUserName m), (''unit'', cmCounterUnit m),
              (''resource'', cmResourceID m), (''vm_instance'', mdHost ?md)]"
  define ps1 where "ps1 = [(hd shards, if length shards > 2 then shards ! 2 else cmResourceID m),
          (''publisher'', publisher), (''type'', if length shards > 1 then shards ! 1 else hd shards)]"
  define ps2 where "ps2 = ps1 @ filter (\<lambda>kv. snd kv \<noteq> []) ?opt"
  define ps3 where "ps3 = ps2 @ resource_label ?md"
  have l1: "length ps1 = 3" by (simp add: ps1_def)
  have "length (filter (\<lambda>kv. snd kv \<noteq> []) ?opt) \<le> length ?opt" by (rule length_filter_le)
  then have l2: "length ps2 \<le> 11" using l1 by (simp add: ps2_def del: filter.simps)
  have l3: "length ps3 \<le> 12" using l2 by (simp add: ps3_def resource_label_def)
  have init: "(replicate ?n [], replicate ?n [], 0) = slices ?n []" by (simp add: slices_def)
  have 1: "go_foldM (\<lambda>st (k, v). add_label k v st) (slices ?n []) ps1 = Inr (slices ?n ps1)"
    using add_labels [of "[]" ps1 ?n] l1 by simp
  have 2: "go_foldM add_optional (slices ?n ps1) ?opt = Inr (slices ?n ps2)"
    unfolding ps2_def by (rule add_optionals) (simp add: l1)
  have 3: "add_resource_name ?md (slices ?n ps2) = Inr (slices ?n ps3)"
    unfolding ps3_def by (rule add_resource_name_slices) (use l2 in simp)
  have 4: "go_foldM (\<lambda>st (k, v). add_label k v st) (slices ?n ps3) (mdUserMetadata ?md)
      = Inr (slices ?n (ps3 @ mdUserMetadata ?md))"
    by (rule add_labels) (use l3 in simp)
  have get: "slice_get shards 0 = Inr (hd shards)" using assms by (cases shards) (simp_all add: slice_get_def)
  obtain ks vs i where e: "slices ?n (ps3 @ mdUserMetadata ?md) = (ks, vs, i)" by (metis prod_cases3)
  have spec: "label_pairs m publisher shards = ps3 @ mdUserMetadata ?md"
    unfolding label_pairs_def Let_def ps3_def ps2_def ps1_def by simp
  have "genLabels m publisher shards =
      go_bind (slice_range ks 0 i) (\<lambda>keys. go_bind (slice_range vs 0 i) (\<lambda>vals. Inr (keys, vals)))"
    unfolding genLabels_def Let_def get go_bind_simps init ps1_def [symmetric] 1 2 3 4 e prod.case ..
  with slices_prefix [OF e] show ?thesis by (simp add: spec)
qed

section \<open>The handler keeps the contract\<close>

definition ceil_spec_metric :: "time_parser \<Rightarrow> string \<Rightarrow> ceil_metric \<Rightarrow> metric" where
  "ceil_spec_metric tp publisher m =
     (let shards = str_split ''.'' (cmCounterName m); ps = label_pairs m publisher shards
      in \<lparr>mName = genName shards, mTime = ceil_time tp (cmTimestamp m),
          mType = ceilTypeToMetricType (cmCounterType m), mInterval = time_Second * 100,
          mValue = cmCounterVolume m, mLabelKeys = map fst ps, mLabelVals = map snd ps\<rparr>)"

lemma ceil_metric_of_eq: "ceil_metric_of tp publisher m = Inr (ceil_spec_metric tp publisher m)"
  by (simp add: ceil_metric_of_def ceil_spec_metric_def genLabels_eq Let_def)

lemma ceil_samples_eq:
  "ceil_samples tp r publisher ms c =
     (let good = takeWhile (\<lambda>m. cmCounterName m \<noteq> []) ms; all_good = (length good = length ms)
      in Inr (c\<lparr>chMetricsDecoded := chMetricsDecoded c + of_nat (length good),
               chDecodeErrors := chDecodeErrors c + (if all_good then 0 else 1)\<rparr>,
              map (\<lambda>m. Publish_Metric (ceil_spec_metric tp publisher m)) good
                @ (if r \<and> \<not> all_good then [Publish_Event (ceil_error_event missing_counter_name)] else []),
              if all_good then None else Some missing_counter_name))"
proof (induction ms arbitrary: c)
  case Nil
  then show ?case by simp
next
  case (Cons m ms)
  then show ?case by (simp add: ceil_metric_of_eq Let_def add.assoc)
qed

lemma ceil_parse_frame:
  assumes "ceil_parse dec b c = (c', res)"
  shows "chMessagesReceived c' = chMessagesReceived c" "chSource c' = chSource c"
    "chMetricsDecoded c' = chMetricsDecoded c" "chDecodeErrors c' = chDecodeErrors c"
  using assms
  by (auto simp: ceil_parse_def ParseInputJSON_def Let_def split: if_splits prod.splits option.splits)

lemma ceil_aligned: "metric_aligned (ceil_spec_metric tp publisher m)"
  by (simp add: metric_aligned_def ceil_spec_metric_def Let_def)

lemma ceil_samples_outputs:
  assumes "ceil_samples tp r publisher ms c = Inr (c', outs, err)"
  shows "list_all (output_ok ceil_Identify r) outs" "chMessagesReceived c' = chMessagesReceived c"
  using assms by (auto simp: ceil_samples_eq Let_def list_all_iff ceil_aligned ceil_error_event_def)

interpretation ceilh: handler "ceil_Handle dec tp" ceil_Identify "\<lambda>_. True" chMessagesReceived
  for dec tp
proof unfold_locales
  fix s b r s' outs err
  assume h: "ceil_Handle dec tp s b r = Inr (s', outs, err)"
  let ?s1 = "s\<lparr>chMessagesReceived := chMessagesReceived s + 1\<rparr>"
  obtain c res where p: "ceil_parse dec b ?s1 = (c, res)" by force
  have "chMessagesReceived s' = chMessagesReceived c \<and> list_all (output_ok ceil_Identify r) outs"
  proof (cases res)
    case (Inl e)
    with h p show ?thesis by (auto simp: ceil_Handle_def)
  next
    case (Inr msg)
    with h p obtain m where "msg = Some m" by (auto simp: ceil_Handle_def validateMessage_def split: option.splits)
    with h p Inr ceil_samples_outputs [of tp r "cmPublisher m" "cmPayload m" c s' outs err] show ?thesis
      by (auto simp: ceil_Handle_def validateMessage_def ceil_error_event_def split: if_splits)
  qed
  then show "chMessagesReceived s' = chMessagesReceived s + 1" "list_all (output_ok ceil_Identify r) outs"
    using ceil_parse_frame(1) [OF p] by simp_all
qed simp

section \<open>Templates without references\<close>

lemma expand_plain: "dollar \<notin> set t \<Longrightarrow> expand whole g t = t"
  by (induction t) auto

lemma replace_payloads_once:
  "find_payload s = Some (p, g, r) \<Longrightarrow> find_payload r = None \<Longrightarrow> dollar \<notin> set t \<Longrightarrow>
     replace_payloads t s = p @ t @ r"
  by (simp add: replace_payloads.simps [of t s] replace_payloads.simps [of t r] expand_plain)

lemma payload_template_plain: "dollar \<notin> set g \<Longrightarrow> dollar \<notin> set (payload_template g)"
  by (simp add: payload_template_def payload_word_def dollar_def quote_def)

section \<open>Properties\<close>

text \<open>
  Building the labels never leaves the two slices, whatever fields a sample has, and gives
  the keys and the values of the same list of labels: always plugin, publisher and type, then
  those of the other fields that are not empty, the resource name, and the user metadata.
\<close>

theorem ceilometer_labels:
  "genLabels m publisher (str_split ''.'' name) =
     Inr (map fst (label_pairs m publisher (str_split ''.'' name)),
          map snd (label_pairs m publisher (str_split ''.'' name)))"
  by (rule genLabels_eq) simp

text \<open>
  C28: Of the samples of a message, those before the first without a name are published, each
  as one metric, in order, and counted; the first without a name gives one decode error, an
  error event if errors are reported, and the returned error; what follows it is dropped.
\<close>

theorem ceilometer_samples_published:
  "ceil_samples tp r publisher ms c =
     (let good = takeWhile (\<lambda>m. cmCounterName m \<noteq> []) ms; all_good = (length good = length ms)
      in Inr (c\<lparr>chMetricsDecoded := chMetricsDecoded c + of_nat (length good),
               chDecodeErrors := chDecodeErrors c + (if all_good then 0 else 1)\<rparr>,
              map (\<lambda>m. Publish_Metric (ceil_spec_metric tp publisher m)) good
                @ (if r \<and> \<not> all_good then [Publish_Event (ceil_error_event missing_counter_name)] else []),
              if all_good then None else Some missing_counter_name))"
  by (rule ceil_samples_eq)

text \<open>
  \<open>Handle\<close> panics exactly if the message is JSON and the text inside the oslo message
  decodes to a nil message, as the JSON text \<open>null\<close> does.
\<close>

theorem ceilometer_handle_panics_iff:
  "(\<exists>p. ceil_Handle dec tp c b r = Inl p) \<longleftrightarrow>
     chSource c \<noteq> ''tcp'' \<and> chSource c \<noteq> ''udp''
     \<and> (\<exists>oslo. decode_schema dec b (schema c) = (oslo, None) \<and> decode_message dec (sanitize oslo) = Inr None)"
proof -
  let ?c1 = "c\<lparr>chMessagesReceived := chMessagesReceived c + 1\<rparr>"
  obtain c' res where p: "ceil_parse dec b ?c1 = (c', res)" by force
  have total: "\<exists>x. ceil_samples tp r publisher ms c' = Inr x" for publisher ms
    by (simp add: ceil_samples_eq Let_def)
  have "(\<exists>p. ceil_Handle dec tp c b r = Inl p) \<longleftrightarrow> res = Inr None"
  proof (cases res)
    case (Inl e)
    with p show ?thesis by (simp add: ceil_Handle_def)
  next
    case (Inr msg)
    with p total show ?thesis
      by (cases msg) (auto simp: ceil_Handle_def validateMessage_def ceil_samples_eq Let_def)
  qed
  also have "\<dots> \<longleftrightarrow> snd (ceil_parse dec b ?c1) = Inr None" by (simp add: p)
  also have "\<dots> \<longleftrightarrow> chSource c \<noteq> ''tcp'' \<and> chSource c \<noteq> ''udp''
     \<and> (\<exists>oslo. decode_schema dec b (schema c) = (oslo, None) \<and> decode_message dec (sanitize oslo) = Inr None)"
    by (auto simp: ceil_parse_def ParseInputJSON_def ParseInputMsgPack_def Let_def
        split: prod.splits option.splits sum.splits)
  finally show ?thesis .
qed


definition ex_ceil_metric :: ceil_metric where
  "ex_ceil_metric =
     \<lparr>cmSource = [], cmCounterName = ''cpu.util'', cmCounterType = ''gauge'', cmCounterUnit = [],
      cmCounterVolume = 7, cmUserID = [], cmUserName = [], cmProjectID = [], cmProjectName = [],
      cmResourceID = ''r1'', cmTimestamp = [],
      cmResourceMetadata = \<lparr>mdHost = [], mdName = ''vm'', mdDisplayName = [], mdInstanceHost = [],
                            mdUserMetadata = []\<rparr>\<rparr>"

definition ex_ceil_decoders :: ceil_decoders where
  "ex_ceil_decoders =
     \<lparr>decode_schema = (\<lambda>b old. if b = [] then (old, None) else (b, None)),
      decode_message = (\<lambda>s. if s = [] then Inl ''EOF'' else if s = ''null'' then Inr None
         else Inr (Some \<lparr>cmPublisher = ''p'', cmPayload = [ex_ceil_metric]\<rparr>)),
      decode_metric_msgpack = (\<lambda>b. Inl []), decode_message_msgpack = (\<lambda>b. Inl [])\<rparr>"

lemma sanitize_m: "sanitize ''m'' = ''m''"
  by code_simp


text \<open>
  An unescaped message with one payload and no dollar sign is changed only in the white
  space around the colon after the word.
\<close>

theorem sanitize_keeps_payload:
  assumes "find_payload (unescape_quotes oslo) = Some (p, g, r)" and "find_payload r = None"
    and "dollar \<notin> set g"
  shows "sanitize oslo = p @ payload_word @ '': ['' @ g @ '']'' @ r"
  using replace_payloads_once [OF assms(1,2) payload_template_plain [OF assms(3)]] assms(1)
  by (simp add: sanitize_def payload_template_def)

definition ex_oslo :: "string \<Rightarrow> string" where
  "ex_oslo g = ''{'' @ payload_word @ '' : ['' @ g @ '']}''"

lemma ex_oslo_find:
  "find_payload (unescape_quotes (ex_oslo ''1'')) = Some (''{'', ''1'', ''}'')" "find_payload ''}'' = None"
  by code_simp+

theorem sanitize_keeps_payload_witness:
  "sanitize (ex_oslo ''1'') = ''{'' @ payload_word @ '': [1]}''"
  using sanitize_keeps_payload [OF ex_oslo_find] by (simp add: dollar_def)

text \<open>
  A dollar sign in the payload is taken as a reference to the group: it does not survive,
  the text \<open>$1\<close> is replaced by the payload itself and \<open>$x\<close> by nothing.
\<close>

theorem sanitize_expands_dollar:
  "sanitize (ex_oslo ''a$1'') = ''{'' @ payload_word @ '': [aa$1]}''
   \<and> sanitize (ex_oslo ''a$x'') = ''{'' @ payload_word @ '': [a]}''"
  by code_simp

end
