(* ===== verification/Sensubility.thy ===== *)
theory Sensubility
  imports Handler GoStrings GoTime
begin

text \<open>
  The sensubility-metrics handler (\<open>plugins/handler/sensubility-metrics/main.go\<close> and
  \<open>pkg/sensu/sensu.go\<close>): the health checks of a node's containers become one metric each.
  The JSON decoder is a parameter: \<open>parse_msg\<close> decodes the message, \<open>parse_outputs\<close> the list
  of check results it carries as a string, both to the decoded value or an error text.
\<close>

section \<open>Messages\<close>

record sensu_labels =
  slClient :: string
  slCheck :: string
  slSeverity :: string

record sensu_annotations =
  saCommand :: string
  saIssued :: int64
  saExecuted :: int64
  saDuration :: float64
  saOutput :: string
  saStatus :: int64
  saStartsAt :: string

record sensu_message =
  sLabels :: sensu_labels
  sAnnotations :: sensu_annotations
  sStartsAt :: string

record health_check =
  hcService :: string
  hcContainer :: string
  hcStatus :: string
  hcHealthy :: float64

text \<open>The error of missing fields, as the list of their names, and its text.\<close>

definition missing_fields_Error :: "string list \<Rightarrow> string" where
  "missing_fields_Error missing =
     ''missing fields in received data ('' @ join '', '' missing @ '')''"

definition IsMsgValid :: "sensu_message \<Rightarrow> bool" where
  "IsMsgValid msg =
     (if sStartsAt msg = [] then False
      else if slClient (sLabels msg) = [] then False
      else True)"

fun IsOutputValid :: "health_check list \<Rightarrow> bool" where
  "IsOutputValid [] = True"
| "IsOutputValid (out # outs) = (if hcService out = [] then False else IsOutputValid outs)"

definition BuildMsgErr :: "sensu_message \<Rightarrow> string list" where
  "BuildMsgErr msg =
     (if sStartsAt msg = [] then [''startsAt''] else [])
     @ (if slClient (sLabels msg) = [] then [''labels.client''] else [])"

fun outputs_err :: "nat \<Rightarrow> health_check list \<Rightarrow> string list" where
  "outputs_err i [] = []"
| "outputs_err i (out # outs) =
     (if hcService out = [] then [''annotations.output['' @ itoa_nat i @ ''].service''] else [])
     @ outputs_err (Suc i) outs"

definition BuildOutputsErr :: "health_check list \<Rightarrow> string list" where
  "BuildOutputsErr outs = outputs_err 0 outs"

section \<open>The handler\<close>

text \<open>\<open>configuration\<close> is nil until \<open>Config\<close> has run; its only field is the metric interval.\<close>

record sensu_handler =
  totalMetricsDecoded :: int64
  totalDecodeErrors :: int64
  totalMessagesReceived :: int64
  configuration :: "int64 option"

definition sensu_New :: sensu_handler where
  "sensu_New =
     \<lparr>totalMetricsDecoded = 0, totalDecodeErrors = 0, totalMessagesReceived = 0,
      configuration = None\<rparr>"

definition sensu_Identify :: string where
  "sensu_Identify = ''sensubility-metrics''"

definition publishErrEvent :: "string list \<Rightarrow> published" where
  "publishErrEvent missing =
     Publish_Event (error_event sensu_Identify
       [(''error'', IString (missing_fields_Error missing)),
        (''message'', IString ''failed to parse event - disregarding'')]
       ''internal smartgateway sensubility handler error'')"

definition health_metric :: "int64 \<Rightarrow> int64 \<Rightarrow> string \<Rightarrow> health_check \<Rightarrow> metric" where
  "health_metric epoc interval client out =
     \<lparr>mName = ''sensubility_container_health_status'', mTime = f64_of_int epoc, mType = GAUGE,
      mInterval = wrap64 (time_Second * interval), mValue = hcHealthy out,
      mLabelKeys = [''process'', ''host''], mLabelVals = [hcService out, client]\<rparr>"

text \<open>The loop over the check results, which reads the configuration each time.\<close>

fun send_outputs ::
  "int64 \<Rightarrow> string \<Rightarrow> health_check list \<Rightarrow> sensu_handler \<Rightarrow> (sensu_handler \<times> published list) go" where
  "send_outputs epoc client [] sm = Inr (sm, [])"
| "send_outputs epoc client (out # outs) sm =
     (let sm1 = sm\<lparr>totalMetricsDecoded := wrap64 (totalMetricsDecoded sm + 1)\<rparr>
      in case configuration sm1 of
           None \<Rightarrow> Inl Nil_Dereference
         | Some interval \<Rightarrow>
             (case send_outputs epoc client outs sm1 of
                Inl p \<Rightarrow> Inl p
              | Inr (sm2, pubs) \<Rightarrow>
                  Inr (sm2, Publish_Metric (health_metric epoc interval client out) # pubs)))"

definition count_decode_errors :: "int \<Rightarrow> sensu_handler \<Rightarrow> sensu_handler" where
  "count_decode_errors n sm = sm\<lparr>totalDecodeErrors := wrap64 (totalDecodeErrors sm + n)\<rparr>"

definition sensu_Handle ::
  "(blob \<Rightarrow> string + sensu_message) \<Rightarrow> (string \<Rightarrow> string + health_check list) \<Rightarrow> time_parser
     \<Rightarrow> sensu_handler handle" where
  "sensu_Handle parse_msg parse_outputs time_Parse sm0 b reportErrors =
     (let sm = sm0\<lparr>totalMessagesReceived := wrap64 (totalMessagesReceived sm0 + 1)\<rparr>
      in case parse_msg b of
           Inl err \<Rightarrow> Inr (sm, [], Some err)
         | Inr msg \<Rightarrow>
             if \<not> IsMsgValid msg then
               (let missing = BuildMsgErr msg
                in Inr (count_decode_errors 1 sm, if reportErrors then [publishErrEvent missing] else [],
                        Some (missing_fields_Error missing)))
             else
               (case parse_outputs (saOutput (sAnnotations msg)) of
                  Inl err \<Rightarrow> Inr (sm, [], Some err)
                | Inr outs \<Rightarrow>
                    if \<not> IsOutputValid outs then
                      (let missing = BuildOutputsErr outs;
                           sm1 = count_decode_errors 1 sm
                       in Inr (count_decode_errors (int (length missing)) sm1,
                               if reportErrors then [publishErrEvent missing] else [],
                               Some (missing_fields_Error missing)))
                    else
                      (let epoc = EpochFromFormat time_Parse (sStartsAt msg)
                       in if epoc = 0 then
                            Inr (sm, [], Some (''failed determining epoch time from timestamp '' @ [CHR 39]
                                               @ sStartsAt msg @ [CHR 39]))
                          else
                            go_bind (send_outputs epoc (slClient (sLabels msg)) outs sm)
                              (\<lambda>(sm', pubs). Inr (sm', pubs, None)))))"

text \<open>
  \<open>Config\<close>: \<open>ParseConfig\<close> is applied to a configuration with the default interval; it gives
  the interval it leaves there and its error.
\<close>

definition sensu_Config ::
  "(int64 \<Rightarrow> int64 \<times> string option) \<Rightarrow> sensu_handler \<Rightarrow> sensu_handler \<times> string option" where
  "sensu_Config ParseConfig sm =
     (let (interval, err) = ParseConfig 10 in (sm\<lparr>configuration := Some interval\<rparr>, err))"

text \<open>What one tick of \<open>Run\<close> publishes; the counters are signed here.\<close>

definition sensu_self_metric :: "string \<Rightarrow> int64 \<Rightarrow> metric" where
  "sensu_self_metric name n = (self_metric name 0)\<lparr>mValue := f64_of_int n\<rparr>"

definition sensu_Run_tick :: "sensu_handler \<Rightarrow> metric list" where
  "sensu_Run_tick sm =
     [sensu_self_metric ''sg_total_sensubility_metric_decode_count'' (totalMetricsDecoded sm),
      sensu_self_metric ''sg_total_sensubility_metric_decode_error_count'' (totalDecodeErrors sm),
      sensu_self_metric ''sg_total_sensubility_msg_received_count'' (totalMessagesReceived sm)]"

section \<open>The handler keeps the contract\<close>

lemma send_outputs_configured:
  "configuration sm = Some iv \<Longrightarrow>
     send_outputs epoc client outs sm =
       Inr (sm\<lparr>totalMetricsDecoded :=
                 (if outs = [] then totalMetricsDecoded sm
                  else wrap64 (totalMetricsDecoded sm + int (length outs)))\<rparr>,
            map (\<lambda>out. Publish_Metric (health_metric epoc iv client out)) outs)"
proof (induction outs arbitrary: sm)
  case Nil
  then show ?case by simp
next
  case (Cons out outs)
  then show ?case by (simp add: Let_def wrap64_add_wrap64 add.assoc add.commute [of 1])
qed

text \<open>
  What becomes of a message: the error returned, how many decode errors are counted and what is
  published.  A message needs a start and a client, a check result needs a service.
\<close>

definition missing_parts :: "sensu_message \<Rightarrow> string list" where
  "missing_parts msg =
     map fst (filter (\<lambda>(name, val). val = [])
       [(''startsAt'', sStartsAt msg), (''labels.client'', slClient (sLabels msg))])"

definition unnamed_results :: "health_check list \<Rightarrow> string list" where
  "unnamed_results hcs =
     map (\<lambda>i. ''annotations.output['' @ itoa_nat i @ ''].service'')
       (filter (\<lambda>i. hcService (hcs ! i) = []) [0..<length hcs])"

definition missing_text :: "string list \<Rightarrow> string" where
  "missing_text names = ''missing fields in received data ('' @ join '', '' names @ '')''"

definition missing_event :: "string list \<Rightarrow> published" where
  "missing_event names = Publish_Event
     \<lparr>eIndex = ''sensubility-metrics'', eTime = 0, eType = ERROR, ePublisher = [], eSeverity = CRITICAL,
      eLabels = [(''error'', IString (missing_text names)),
                 (''message'', IString ''failed to parse event - disregarding'')],
      eAnnotations = [(''description'', IString ''internal smartgateway sensubility handler error'')],
      eMessage = []\<rparr>"

inductive sensu_outcome ::
  "(blob \<Rightarrow> string + sensu_message) \<Rightarrow> (string \<Rightarrow> string + health_check list) \<Rightarrow> time_parser
     \<Rightarrow> int64 \<Rightarrow> bool \<Rightarrow> blob \<Rightarrow> string option \<Rightarrow> nat \<Rightarrow> published list \<Rightarrow> bool"
  for parse_msg parse_outputs tp iv report b where
  no_message: "parse_msg b = Inl err \<Longrightarrow>
    sensu_outcome parse_msg parse_outputs tp iv report b (Some err) 0 []"
| incomplete_message: "parse_msg b = Inr msg \<Longrightarrow> sStartsAt msg = [] \<or> slClient (sLabels msg) = [] \<Longrightarrow>
    sensu_outcome parse_msg parse_outputs tp iv report b (Some (missing_text (missing_parts msg))) 1
      (if report then [missing_event (missing_parts msg)] else [])"
| no_results: "parse_msg b = Inr msg \<Longrightarrow> sStartsAt msg \<noteq> [] \<Longrightarrow> slClient (sLabels msg) \<noteq> [] \<Longrightarrow>
    parse_outputs (saOutput (sAnnotations msg)) = Inl err \<Longrightarrow>
    sensu_outcome parse_msg parse_outputs tp iv report b (Some err) 0 []"
| unnamed_result: "parse_msg b = Inr msg \<Longrightarrow> sStartsAt msg \<noteq> [] \<Longrightarrow> slClient (sLabels msg) \<noteq> [] \<Longrightarrow>
    parse_outputs (saOutput (sAnnotations msg)) = Inr hcs \<Longrightarrow> hc \<in> set hcs \<Longrightarrow> hcService hc = [] \<Longrightarrow>
    sensu_outcome parse_msg parse_outputs tp iv report b (Some (missing_text (unnamed_results hcs)))
      (1 + length (filter (\<lambda>hc. hcService hc = []) hcs))
      (if report then [missing_event (unnamed_results hcs)] else [])"
| no_time: "parse_msg b = Inr msg \<Longrightarrow> sStartsAt msg \<noteq> [] \<Longrightarrow> slClient (sLabels msg) \<noteq> [] \<Longrightarrow>
    parse_outputs (saOutput (sAnnotations msg)) = Inr hcs \<Longrightarrow> list_all (\<lambda>hc. hcService hc \<noteq> []) hcs \<Longrightarrow>
    EpochFromFormat tp (sStartsAt msg) = 0 \<Longrightarrow>
    sensu_outcome parse_msg parse_outputs tp iv report b
      (Some (''failed determining epoch time from timestamp '' @ [CHR 39] @ sStartsAt msg @ [CHR 39])) 0 []"
| published_results: "parse_msg b = Inr msg \<Longrightarrow> sStartsAt msg \<noteq> [] \<Longrightarrow> slClient (sLabels msg) \<noteq> [] \<Longrightarrow>
    parse_outputs (saOutput (sAnnotations msg)) = Inr hcs \<Longrightarrow> list_all (\<lambda>hc. hcService hc \<noteq> []) hcs \<Longrightarrow>
    EpochFromFormat tp (sStartsAt msg) \<noteq> 0 \<Longrightarrow>
    sensu_outcome parse_msg parse_outputs tp iv report b None 0
      (map (\<lambda>hc. Publish_Metric
         \<lparr>mName = ''sensubility_container_health_status'',
          mTime = f64_of_int (EpochFromFormat tp (sStartsAt msg)), mType = GAUGE,
          mInterval = wrap64 (1000000000 * iv), mValue = hcHealthy hc,
          mLabelKeys = [''process'', ''host''], mLabelVals = [hcService hc, slClient (sLabels msg)]\<rparr>) hcs)"

lemma IsMsgValid_iff: "IsMsgValid msg \<longleftrightarrow> sStartsAt msg \<noteq> [] \<and> slClient (sLabels msg) \<noteq> []"
  by (simp add: IsMsgValid_def)

lemma BuildMsgErr_missing: "BuildMsgErr msg = missing_parts msg"
  by (simp add: BuildMsgErr_def missing_parts_def)

lemma IsOutputValid_iff: "IsOutputValid outs \<longleftrightarrow> list_all (\<lambda>hc. hcService hc \<noteq> []) outs"
  by (induction outs) simp_all

lemma outputs_err_unnamed:
  "outputs_err k outs =
     map (\<lambda>i. ''annotations.output['' @ itoa_nat (k + i) @ ''].service'')
       (filter (\<lambda>i. hcService (outs ! i) = []) [0..<length outs])"
proof (induction outs arbitrary: k)
  case (Cons out outs)
  have "[0..<length (out # outs)] = 0 # map Suc [0..<length outs]" by (simp add: map_Suc_upt upt_conv_Cons del: upt_Suc)
  with Cons.IH [of "Suc k"] show ?case by (simp add: filter_map comp_def del: upt_Suc)
qed simp

lemma BuildOutputsErr_unnamed: "BuildOutputsErr outs = unnamed_results outs"
  by (simp add: BuildOutputsErr_def unnamed_results_def outputs_err_unnamed)

lemma length_unnamed_results: "length (unnamed_results outs) = length (filter (\<lambda>hc. hcService hc = []) outs)"
proof -
  have "length (outputs_err k outs) = length (filter (\<lambda>hc. hcService hc = []) outs)" for k
    by (induction outs arbitrary: k) simp_all
  from this [of 0] show ?thesis by (simp flip: BuildOutputsErr_unnamed add: BuildOutputsErr_def)
qed

lemma publishErrEvent_missing: "publishErrEvent names = missing_event names"
  by (simp add: publishErrEvent_def missing_event_def error_event_def missing_fields_Error_def missing_text_def
      sensu_Identify_def)

lemma missing_fields_Error_text: "missing_fields_Error names = missing_text names"
  by (simp add: missing_fields_Error_def missing_text_def)

lemma metrics_of_missing [simp]: "metrics_of [missing_event names] = []"
  by (simp add: missing_event_def)

lemma metrics_of_metrics: "metrics_of (map (\<lambda>x. Publish_Metric (f x)) xs) = map f xs"
  by (induction xs) simp_all

lemma sensu_Handle_results:
  assumes conf: "configuration sm = Some iv"
    and ok: "parse_msg b = Inr msg" "sStartsAt msg \<noteq> []" "slClient (sLabels msg) \<noteq> []"
      "parse_outputs (saOutput (sAnnotations msg)) = Inr hcs" "list_all (\<lambda>hc. hcService hc \<noteq> []) hcs"
  shows "\<exists>sm' err outs. sensu_Handle parse_msg parse_outputs tp sm b r = Inr (sm', outs, err)
           \<and> sensu_outcome parse_msg parse_outputs tp iv r b err 0 outs
           \<and> configuration sm' = Some iv
           \<and> totalMessagesReceived sm' = wrap64 (totalMessagesReceived sm + 1)
           \<and> totalDecodeErrors sm' = totalDecodeErrors sm
           \<and> wrap64 (totalMetricsDecoded sm')
               = wrap64 (totalMetricsDecoded sm + int (length (metrics_of outs)))"
proof (cases "EpochFromFormat tp (sStartsAt msg) = 0")
  case True
  with conf ok no_time [where parse_msg = parse_msg and parse_outputs = parse_outputs, OF ok True]
  show ?thesis by (auto simp: sensu_Handle_def Let_def IsMsgValid_iff IsOutputValid_iff)
next
  case False
  let ?sm = "sm\<lparr>totalMessagesReceived := wrap64 (totalMessagesReceived sm + 1)\<rparr>"
  have h: "sensu_Handle parse_msg parse_outputs tp sm b r =
      Inr (?sm\<lparr>totalMetricsDecoded := (if hcs = [] then totalMetricsDecoded ?sm
                                        else wrap64 (totalMetricsDecoded ?sm + int (length hcs)))\<rparr>,
           map (\<lambda>hc. Publish_Metric (health_metric (EpochFromFormat tp (sStartsAt msg)) iv
                                        (slClient (sLabels msg)) hc)) hcs, None)"
    using False ok conf
    by (simp add: sensu_Handle_def Let_def IsMsgValid_iff IsOutputValid_iff send_outputs_configured)
  show ?thesis
    by (intro exI conjI, rule h, unfold health_metric_def time_Second_def,
        rule published_results [where parse_msg = parse_msg and parse_outputs = parse_outputs, OF ok False])
       (auto simp: conf metrics_of_metrics)
qed

lemma sensu_Handle_outcome:
  assumes conf: "configuration sm = Some iv"
  shows "\<exists>sm' err n outs. sensu_Handle parse_msg parse_outputs tp sm b r = Inr (sm', outs, err)
           \<and> sensu_outcome parse_msg parse_outputs tp iv r b err n outs \<and> configuration sm' = Some iv
           \<and> totalMessagesReceived sm' = wrap64 (totalMessagesReceived sm + 1)
           \<and> wrap64 (totalDecodeErrors sm') = wrap64 (totalDecodeErrors sm + int n)
           \<and> wrap64 (totalMetricsDecoded sm')
               = wrap64 (totalMetricsDecoded sm + int (length (metrics_of outs)))"
proof -
  let ?sm = "sm\<lparr>totalMessagesReceived := wrap64 (totalMessagesReceived sm + 1)\<rparr>"
  note simps = sensu_Handle_def Let_def IsMsgValid_iff IsOutputValid_iff count_decode_errors_def
    BuildMsgErr_missing BuildOutputsErr_unnamed publishErrEvent_missing missing_fields_Error_text
  consider (undecodable) err where "parse_msg b = Inl err"
    | (incomplete) msg where "parse_msg b = Inr msg" "sStartsAt msg = [] \<or> slClient (sLabels msg) = []"
    | (results_undecodable) msg err where "parse_msg b = Inr msg" "sStartsAt msg \<noteq> []"
        "slClient (sLabels msg) \<noteq> []" "parse_outputs (saOutput (sAnnotations msg)) = Inl err"
    | (results) msg hcs where "parse_msg b = Inr msg" "sStartsAt msg \<noteq> []"
        "slClient (sLabels msg) \<noteq> []" "parse_outputs (saOutput (sAnnotations msg)) = Inr hcs"
    by (metis sum.exhaust)
  then show ?thesis
  proof cases
    case incomplete
    then have h: "sensu_Handle parse_msg parse_outputs tp sm b r =
        Inr (count_decode_errors 1 ?sm, if r then [missing_event (missing_parts msg)] else [],
             Some (missing_text (missing_parts msg)))"
      by (auto simp: simps)
    show ?thesis
      by (intro exI conjI, rule h, rule incomplete_message [where parse_msg = parse_msg, OF incomplete])
         (auto simp: conf count_decode_errors_def)
  next
    case results
    note ok = results(1-4)
    show ?thesis
    proof (cases "list_all (\<lambda>hc. hcService hc \<noteq> []) hcs")
      case False
      then obtain hc where hc: "hc \<in> set hcs" "hcService hc = []" by (auto simp: list_all_iff)
      have h: "sensu_Handle parse_msg parse_outputs tp sm b r =
          Inr (count_decode_errors (int (length (unnamed_results hcs))) (count_decode_errors 1 ?sm),
               if r then [missing_event (unnamed_results hcs)] else [],
               Some (missing_text (unnamed_results hcs)))"
        using False ok by (simp add: simps)
      show ?thesis
        by (intro exI conjI, rule h,
            rule unnamed_result [where parse_msg = parse_msg and parse_outputs = parse_outputs, OF ok hc])
           (auto simp: conf count_decode_errors_def length_unnamed_results wrap64_add_wrap64 add.assoc)
    next
      case named: True
      from sensu_Handle_results [where parse_msg = parse_msg and parse_outputs = parse_outputs, OF conf ok named, of tp r] obtain sm' err outs where
        "sensu_Handle parse_msg parse_outputs tp sm b r = Inr (sm', outs, err)"
        "sensu_outcome parse_msg parse_outputs tp iv r b err 0 outs" "configuration sm' = Some iv"
        "totalMessagesReceived sm' = wrap64 (totalMessagesReceived sm + 1)"
        "totalDecodeErrors sm' = totalDecodeErrors sm"
        "wrap64 (totalMetricsDecoded sm') = wrap64 (totalMetricsDecoded sm + int (length (metrics_of outs)))"
        by blast
      then show ?thesis
        by (intro exI [of _ sm'] exI [of _ err] exI [of _ "0 :: nat"] exI [of _ outs]) simp
    qed
  qed (use conf in \<open>auto simp: simps intro: sensu_outcome.intros\<close>)
qed

lemma sensu_outcome_ok: "sensu_outcome pm po tp iv r b err n outs \<Longrightarrow> list_all (output_ok sensu_Identify r) outs"
  by (induction rule: sensu_outcome.induct)
     (simp_all add: publishErrEvent_missing [symmetric] publishErrEvent_def list_all_iff metric_aligned_def)

definition sensu_ready :: "sensu_handler \<Rightarrow> bool" where
  "sensu_ready sm \<longleftrightarrow> configuration sm \<noteq> None"

interpretation sensuh: total_handler "sensu_Handle parse_msg parse_outputs tp" sensu_Identify
    sensu_ready "\<lambda>sm. word_of_int (totalMessagesReceived sm)"
  for parse_msg parse_outputs tp
proof unfold_locales
  fix s b r s' outs err
  assume "sensu_ready s" and h: "sensu_Handle parse_msg parse_outputs tp s b r = Inr (s', outs, err)"
  then obtain iv where "configuration s = Some iv" by (auto simp: sensu_ready_def)
  from sensu_Handle_outcome [OF this, of parse_msg parse_outputs tp b r] h obtain n
  where "totalMessagesReceived s' = wrap64 (totalMessagesReceived s + 1)" "configuration s' = Some iv"
    "sensu_outcome parse_msg parse_outputs tp iv r b err n outs"
    by auto
  then show "word_of_int (totalMessagesReceived s') = (word_of_int (totalMessagesReceived s) :: uint64) + 1"
    and "sensu_ready s'" and "list_all (output_ok sensu_Identify r) outs"
    by (simp_all add: word_of_wrap64 sensu_ready_def sensu_outcome_ok)
next
  fix s b r
  assume "sensu_ready s"
  then obtain iv where "configuration s = Some iv" by (auto simp: sensu_ready_def)
  from sensu_Handle_outcome [OF this, of parse_msg parse_outputs tp b r]
  show "\<exists>res. sensu_Handle parse_msg parse_outputs tp s b r = Inr res" by auto
qed

section \<open>Properties\<close>

definition ex_sensu_message :: sensu_message where
  "ex_sensu_message =
     \<lparr>sLabels = \<lparr>slClient = ''node'', slCheck = [], slSeverity = []\<rparr>,
      sAnnotations = \<lparr>saCommand = [], saIssued = 0, saExecuted = 0, saDuration = 0, saOutput = ''out'',
                      saStatus = 0, saStartsAt = []\<rparr>,
      sStartsAt = ''t''\<rparr>"

definition ex_check :: "string \<Rightarrow> health_check" where
  "ex_check service = \<lparr>hcService = service, hcContainer = [], hcStatus = [], hcHealthy = 1\<rparr>"

definition ex_time_parser :: time_parser where
  "ex_time_parser l s = Some \<lparr>unix_seconds = 7, nanoseconds = 0, zone_offset = 0\<rparr>"

text \<open>
  C23: Once configured, \<open>Handle\<close> never panics.  It publishes one metric per check result, in the order of
  the results, and returns no error exactly if the message has a start with a non-zero epoch and a
  client and every result has a service; the metric has the name, time, interval, value and labels
  listed above.  Otherwise it publishes no metric, and an event that names what is missing only if
  something is missing and errors are reported.  A message with something missing counts as one decode
  error, each result without a service as one more; a message that is no valid JSON counts as none.
\<close>

theorem sensu_publishes_by_outcome:
  assumes "configuration sm = Some iv"
  shows "\<exists>sm' err n outs. sensu_Handle parse_msg parse_outputs tp sm b r = Inr (sm', outs, err)
           \<and> sensu_outcome parse_msg parse_outputs tp iv r b err n outs \<and> configuration sm' = Some iv
           \<and> totalMessagesReceived sm' = wrap64 (totalMessagesReceived sm + 1)
           \<and> wrap64 (totalDecodeErrors sm') = wrap64 (totalDecodeErrors sm + int n)
           \<and> wrap64 (totalMetricsDecoded sm')
               = wrap64 (totalMetricsDecoded sm + int (length (metrics_of outs)))"
  by (rule sensu_Handle_outcome [OF assms])

text \<open>A message with two results; the same message without its client, when errors are reported.\<close>

theorem sensu_publishes_by_outcome_witness:
  "(\<exists>sm'. sensu_Handle (\<lambda>_. Inr ex_sensu_message) (\<lambda>_. Inr [ex_check ''a'', ex_check ''b'']) ex_time_parser
           (sensu_New\<lparr>configuration := Some 10\<rparr>) ''x'' True
         = Inr (sm', map (\<lambda>service. Publish_Metric
                 \<lparr>mName = ''sensubility_container_health_status'', mTime = f64_of_int 7, mType = GAUGE,
                  mInterval = 10000000000, mValue = 1, mLabelKeys = [''process'', ''host''],
                  mLabelVals = [service, ''node'']\<rparr>) [''a'', ''b''], None))
   \<and> (\<exists>sm' err. sensu_Handle (\<lambda>_. Inr (ex_sensu_message\<lparr>sLabels := (sLabels ex_sensu_message)\<lparr>slClient := []\<rparr>\<rparr>))
           (\<lambda>_. Inr []) ex_time_parser (sensu_New\<lparr>configuration := Some 10\<rparr>) ''x'' True
         = Inr (sm', [missing_event [''labels.client'']], Some err) \<and> wrap64 (totalDecodeErrors sm') = 1)"
  (is "?valid \<and> ?incomplete")
proof
  note out = sensu_publishes_by_outcome [of "sensu_New\<lparr>configuration := Some 10\<rparr>" 10 _ _ ex_time_parser "''x''" True]
  show ?valid
    using out [of "\<lambda>_. Inr ex_sensu_message" "\<lambda>_. Inr [ex_check ''a'', ex_check ''b'']"]
    by (auto simp: sensu_outcome.simps ex_sensu_message_def ex_check_def
        EpochFromFormat_def event_layouts_def ex_time_parser_def wrap64_def)
  show ?incomplete
    using out [of "\<lambda>_. Inr (ex_sensu_message\<lparr>sLabels := (sLabels ex_sensu_message)\<lparr>slClient := []\<rparr>\<rparr>)" "\<lambda>_. Inr []"]
    by (auto simp: sensu_outcome.simps ex_sensu_message_def missing_parts_def sensu_New_def wrap64_def)
qed

end
