(* ===== verification/Bus.thy ===== *)
theory Bus
  imports Data
begin

text \<open>
  The event bus and the metric bus (\<open>pkg/bus/bus.go\<close>).  A publisher starts one goroutine per
  subscriber; \<open>PublishBlocking\<close> then waits until the wait group, which all publishers share, is
  at zero.  The state holds the goroutines that are still to run, the state of every
  publisher, and the history of the calls of subscribers.  Here every subscriber may return at any
  time; what changes if it has to wait for its application is the subject of \<open>BoundedApps\<close>.
\<close>

section \<open>State and operations\<close>

text \<open>
  A started goroutine: the position of the subscriber it calls, the publisher that started
  it, and the item.  A publisher: the items it will publish next, and whether it is in \<open>Wait\<close>.
  \<open>woken\<close> are the publishers in \<open>Wait\<close> that the wait group has woken, because it had come to zero, and
  that have not returned yet.  The metric bus has the same structure without a wait group.
\<close>

type_synonym 'e goroutine = "nat \<times> nat \<times> 'e"

record ('r, 'e) bus =
  subscribers :: "'r list"
  wg :: nat
  woken :: "nat set"
  running :: "'e goroutine multiset"
  publishers :: "('e list \<times> bool) list"
  received :: "'e goroutine list"

definition Subscribe :: "'r \<Rightarrow> ('r, 'e) bus \<Rightarrow> ('r, 'e) bus" where
  "Subscribe rf b = b\<lparr>subscribers := subscribers b @ [rf]\<rparr>"

text \<open>
  The loop over the subscribers that starts the goroutines.  It is one step of its publisher: what the
  goroutines do before the loop is over is ordered after it.
\<close>

definition spawn :: "nat \<Rightarrow> 'e \<Rightarrow> ('r, 'e) bus \<Rightarrow> ('r, 'e) bus" where
  "spawn i e b =
     b\<lparr>running := running b + mset (map (\<lambda>j. (j, i, e)) [0..<length (subscribers b)])\<rparr>"

definition set_publisher :: "nat \<Rightarrow> 'e list \<times> bool \<Rightarrow> ('r, 'e) bus \<Rightarrow> ('r, 'e) bus" where
  "set_publisher i pub b = b\<lparr>publishers := (publishers b)[i := pub]\<rparr>"

text \<open>\<open>es\<close> is what publisher \<open>i\<close> publishes after \<open>e\<close>.\<close>

definition Publish :: "nat \<Rightarrow> 'e \<Rightarrow> 'e list \<Rightarrow> ('r, 'e) bus \<Rightarrow> ('r, 'e) bus" where
  "Publish i e es b = set_publisher i (es, False) (spawn i e b)"

definition PublishBlocking :: "nat \<Rightarrow> 'e \<Rightarrow> 'e list \<Rightarrow> ('r, 'e) bus \<Rightarrow> ('r, 'e) bus" where
  "PublishBlocking i e es b =
     set_publisher i (es, True) ((spawn i e b)\<lparr>wg := wg b + length (subscribers b)\<rparr>)"

text \<open>The publishers in \<open>Wait\<close>, and \<open>Done\<close>, which wakes them if it brings the wait group to zero.\<close>

definition in_Wait :: "('r, 'e) bus \<Rightarrow> nat set" where
  "in_Wait b = set (filter (\<lambda>i. snd (publishers b ! i)) [0..<length (publishers b)])"

definition Done :: "('r, 'e) bus \<Rightarrow> ('r, 'e) bus" where
  "Done b = b\<lparr>wg := wg b - 1, woken := (if wg b = 1 then in_Wait b else woken b)\<rparr>"

text \<open>
  \<open>bl i\<close> tells whether publisher \<open>i\<close> uses \<open>PublishBlocking\<close>; the goroutines it starts call
  \<open>Done\<close> when the subscriber returns.  A publisher returns from \<open>Wait\<close> if it finds the wait group at
  zero.
\<close>

inductive bus_step :: "(nat \<Rightarrow> bool) \<Rightarrow> ('r, 'e) bus \<Rightarrow> ('r, 'e) bus \<Rightarrow> bool" for bl where
  publish: "i < length (publishers b) \<Longrightarrow> publishers b ! i = (e # es, False) \<Longrightarrow>
     bus_step bl b (if bl i then PublishBlocking i e es b else Publish i e es b)"
| receive: "(j, i, e) \<in># running b \<Longrightarrow>
     bus_step bl b ((if bl i then Done else id)
       (b\<lparr>running := running b - {#(j, i, e)#}, received := received b @ [(j, i, e)]\<rparr>))"
| wait_returns: "i < length (publishers b) \<Longrightarrow> publishers b ! i = (es, True) \<Longrightarrow> wg b = 0 \<Longrightarrow>
     bus_step bl b (set_publisher i (es, False) (b\<lparr>woken := woken b - {i}\<rparr>))"

text \<open>
  A publisher that was woken and does not find the wait group at zero panics in \<open>Wait\<close>
  (\<open>WaitGroup is reused before previous Wait has returned\<close>), which ends the program.  Whether it looks
  in such a moment is up to the scheduler, so the step relation also goes on from there.
\<close>

definition bus_panics :: "('r, 'e) bus \<Rightarrow> bool" where
  "bus_panics b \<longleftrightarrow> woken b \<noteq> {} \<and> wg b \<noteq> 0"

text \<open>The bus when the publishers start, each with the items it is going to publish.\<close>

definition bus_start :: "'r list \<Rightarrow> 'e list list \<Rightarrow> ('r, 'e) bus" where
  "bus_start rfs progs =
     fold Subscribe rfs
       \<lparr>subscribers = [], wg = 0, woken = {}, running = {#}, publishers = map (\<lambda>es. (es, False)) progs,
        received = []\<rparr>"

definition bus_reachable :: "(nat \<Rightarrow> bool) \<Rightarrow> 'r list \<Rightarrow> 'e list list \<Rightarrow> ('r, 'e) bus \<Rightarrow> bool" where
  "bus_reachable bl rfs progs b \<longleftrightarrow> (bus_step bl)\<^sup>*\<^sup>* (bus_start rfs progs) b"

text \<open>Nothing left to publish, to run or to wait for.\<close>

definition bus_finished :: "('r, 'e) bus \<Rightarrow> bool" where
  "bus_finished b \<longleftrightarrow> running b = {#} \<and> (\<forall>pub \<in> set (publishers b). pub = ([], False))"

text \<open>What subscriber \<open>j\<close> received from publisher \<open>i\<close>, and what is on its way.\<close>

definition between :: "nat \<Rightarrow> nat \<Rightarrow> 'e goroutine \<Rightarrow> bool" where
  "between j i g \<longleftrightarrow> fst g = j \<and> fst (snd g) = i"

definition received_by :: "('r, 'e) bus \<Rightarrow> nat \<Rightarrow> nat \<Rightarrow> 'e list" where
  "received_by b j i = map (snd \<circ> snd) (filter (between j i) (received b))"

definition running_for :: "('r, 'e) bus \<Rightarrow> nat \<Rightarrow> nat \<Rightarrow> 'e multiset" where
  "running_for b j i = image_mset (snd \<circ> snd) (filter_mset (between j i) (running b))"

section \<open>Lemmas about the operations\<close>

lemma bus_start_eq:
  "bus_start rfs progs =
     \<lparr>subscribers = rfs, wg = 0, woken = {}, running = {#}, publishers = map (\<lambda>es. (es, False)) progs, received = []\<rparr>"
proof -
  have "fold Subscribe rfs b = b\<lparr>subscribers := subscribers b @ rfs\<rparr>" for b :: "('a, 'b) bus"
    by (induction rfs arbitrary: b) (simp_all add: Subscribe_def)
  then show ?thesis by (simp add: bus_start_def)
qed

lemma set_publisher_simps [simp]:
  "subscribers (set_publisher i pub b) = subscribers b" "wg (set_publisher i pub b) = wg b"
  "woken (set_publisher i pub b) = woken b"
  "running (set_publisher i pub b) = running b" "received (set_publisher i pub b) = received b"
  "publishers (set_publisher i pub b) = (publishers b)[i := pub]"
  "received_by (set_publisher i pub b) = received_by b"
  "running_for (set_publisher i pub b) = running_for b"
  by (simp_all add: set_publisher_def received_by_def running_for_def fun_eq_iff)

lemma spawn_simps [simp]:
  "subscribers (spawn i e b) = subscribers b" "wg (spawn i e b) = wg b" "woken (spawn i e b) = woken b"
  "publishers (spawn i e b) = publishers b" "received (spawn i e b) = received b"
  "received_by (spawn i e b) = received_by b"
  by (simp_all add: spawn_def received_by_def fun_eq_iff)

lemma wg_irrelevant [simp]:
  "received_by (b\<lparr>wg := n\<rparr>) = received_by b" "running_for (b\<lparr>wg := n\<rparr>) = running_for b"
  "received_by (b\<lparr>woken := ws\<rparr>) = received_by b" "running_for (b\<lparr>woken := ws\<rparr>) = running_for b"
  by (simp_all add: received_by_def running_for_def fun_eq_iff)

lemma Done_simps [simp]:
  "subscribers (Done b) = subscribers b" "running (Done b) = running b" "publishers (Done b) = publishers b"
  "received (Done b) = received b" "wg (Done b) = wg b - 1"
  "received_by (Done b) = received_by b" "running_for (Done b) = running_for b"
  by (simp_all add: Done_def)

lemma filter_mset_none_iff: "filter_mset P M = {#} \<longleftrightarrow> (\<forall>x \<in># M. \<not> P x)"
  by (induction M) auto

lemma spawned_for:
  "image_mset (snd \<circ> snd) (filter_mset (between j k) (mset (map (\<lambda>j. (j, i, e)) [0..<n]))) =
     (if j < n \<and> i = k then {#e#} else {#})"
proof (induction n)
  case 0
  then show ?case by simp
next
  case (Suc n)
  then show ?case by (auto simp: between_def less_Suc_eq simp del: mset_map)
qed

lemma running_for_spawn [simp]:
  "running_for (spawn i e b) j k =
     running_for b j k + (if j < length (subscribers b) \<and> i = k then {#e#} else {#})"
  unfolding running_for_def spawn_def by (simp add: spawned_for del: mset_map)

lemma publish_simps [simp]:
  "subscribers (Publish i e es b) = subscribers b"
  "subscribers (PublishBlocking i e es b) = subscribers b"
  by (simp_all add: Publish_def PublishBlocking_def)

lemma receive_effect:
  assumes "(j, i, e) \<in># running b"
    and b'_def: "running b' = running b - {#(j, i, e)#}" "received b' = received b @ [(j, i, e)]"
  shows "received_by b' j' k = received_by b j' k @ (if j' = j \<and> k = i then [e] else [])"
    and "running_for b j' k = running_for b' j' k + (if j' = j \<and> k = i then {#e#} else {#})"
proof -
  from assms(1) obtain rest where "running b = add_mset (j, i, e) rest" by (rule mset_add)
  then show "running_for b j' k = running_for b' j' k + (if j' = j \<and> k = i then {#e#} else {#})"
    by (auto simp: running_for_def b'_def between_def)
  show "received_by b' j' k = received_by b j' k @ (if j' = j \<and> k = i then [e] else [])"
    by (auto simp: received_by_def b'_def between_def)
qed

section \<open>The invariant\<close>

text \<open>
  What publisher \<open>i\<close> has sent so far is a prefix of its program.  Every subscriber received
  it, or is about to; from a blocking publisher in the order of publication, and at most the
  last item is still on its way, while the publisher waits.
\<close>

definition in_order :: "'e list \<Rightarrow> bool \<Rightarrow> 'e list \<Rightarrow> 'e multiset \<Rightarrow> bool" where
  "in_order sent waiting rcv run \<longleftrightarrow>
     (run = {#} \<and> rcv = sent) \<or> (waiting \<and> (\<exists>e. run = {#e#} \<and> rcv @ [e] = sent))"

definition pub_inv :: "(nat \<Rightarrow> bool) \<Rightarrow> ('r, 'e) bus \<Rightarrow> nat \<Rightarrow> 'e list \<Rightarrow> bool" where
  "pub_inv bl b i prog \<longleftrightarrow>
     (\<exists>sent. prog = sent @ fst (publishers b ! i)
        \<and> (\<forall>j < length (subscribers b).
             mset (received_by b j i) + running_for b j i = mset sent
             \<and> (bl i \<longrightarrow> in_order sent (snd (publishers b ! i)) (received_by b j i) (running_for b j i))))"

definition waits_for :: "(nat \<Rightarrow> bool) \<Rightarrow> 'e goroutine multiset \<Rightarrow> nat" where
  "waits_for bl gs = size (filter_mset (\<lambda>g. bl (fst (snd g))) gs)"

definition bus_inv :: "(nat \<Rightarrow> bool) \<Rightarrow> 'r list \<Rightarrow> 'e list list \<Rightarrow> ('r, 'e) bus \<Rightarrow> bool" where
  "bus_inv bl rfs progs b \<longleftrightarrow>
     subscribers b = rfs \<and> length (publishers b) = length progs
     \<and> (\<forall>g \<in># running b. fst g < length rfs \<and> fst (snd g) < length progs)
     \<and> wg b = waits_for bl (running b)
     \<and> (\<forall>i < length progs. pub_inv bl b i (progs ! i))"

lemma bus_start_inv: "bus_inv bl rfs progs (bus_start rfs progs)"
  by (auto simp: bus_inv_def bus_start_eq pub_inv_def received_by_def running_for_def in_order_def
      waits_for_def)

lemma waits_for_spawned: "waits_for bl (mset (map (\<lambda>j. (j, i, e)) [0..<n])) = (if bl i then n else 0)"
  by (induction n) (simp_all add: waits_for_def del: mset_map)

lemma publish_inv:
  assumes inv: "bus_inv bl rfs progs b" and i: "i < length (publishers b)"
    and pub: "publishers b ! i = (e # es, False)"
  defines "b' \<equiv> if bl i then PublishBlocking i e es b else Publish i e es b"
  shows "bus_inv bl rfs progs b'"
proof -
  have spawned: "running b' = running b + mset (map (\<lambda>j. (j, i, e)) [0..<length rfs])"
    and subs: "subscribers b' = rfs" and pubs: "publishers b' = (publishers b)[i := (es, bl i)]"
    and rcv: "received_by b' = received_by b"
    and run: "\<And>j k. running_for b' j k =
      running_for b j k + (if j < length rfs \<and> i = k then {#e#} else {#})"
    using inv by (simp_all add: b'_def bus_inv_def Publish_def PublishBlocking_def)
      (simp_all add: spawn_def)
  have "wg b' = waits_for bl (running b')"
  proof -
    have "waits_for bl (running b') = waits_for bl (running b) + (if bl i then length rfs else 0)"
      unfolding spawned waits_for_spawned [of bl i e, symmetric] by (simp add: waits_for_def)
    with inv show ?thesis
      by (simp add: b'_def bus_inv_def Publish_def PublishBlocking_def)
  qed
  moreover have "pub_inv bl b' k (progs ! k)" if k: "k < length progs" for k
  proof (cases "k = i")
    case False
    with inv k show ?thesis by (auto simp: bus_inv_def pub_inv_def subs pubs rcv run)
  next
    case True
    from inv k True pub obtain sent where "progs ! i = sent @ e # es"
      and "\<And>j. j < length rfs \<Longrightarrow> mset (received_by b j i) + running_for b j i = mset sent
             \<and> (bl i \<longrightarrow> in_order sent False (received_by b j i) (running_for b j i))"
      by (auto simp: bus_inv_def pub_inv_def)
    with True i show ?thesis
      unfolding pub_inv_def subs pubs rcv run
      by (intro exI [of _ "sent @ [e]"]) (auto simp: in_order_def)
  qed
  ultimately show ?thesis
    using inv i by (auto simp: bus_inv_def subs pubs spawned)
qed

lemma receive_inv:
  assumes inv: "bus_inv bl rfs progs b" and g: "(j, i, e) \<in># running b"
  defines "b' \<equiv> (if bl i then Done else id)
                   (b\<lparr>running := running b - {#(j, i, e)#}, received := received b @ [(j, i, e)]\<rparr>)"
  shows "bus_inv bl rfs progs b'"
proof -
  have [simp]: "subscribers b' = subscribers b" "publishers b' = publishers b"
    and b': "running b' = running b - {#(j, i, e)#}" "received b' = received b @ [(j, i, e)]"
    by (simp_all add: b'_def)
  note eff = receive_effect [OF g b']
  from g obtain rest where "running b = add_mset (j, i, e) rest" by (rule mset_add)
  then have "wg b' = waits_for bl (running b')" using inv by (simp add: b'_def bus_inv_def waits_for_def)
  moreover have "pub_inv bl b' k (progs ! k)" if k: "k < length progs" for k
  proof -
    from inv k obtain sent where s: "progs ! k = sent @ fst (publishers b ! k)"
      and o: "\<And>d. d < length rfs \<Longrightarrow> mset (received_by b d k) + running_for b d k = mset sent
             \<and> (bl k \<longrightarrow> in_order sent (snd (publishers b ! k)) (received_by b d k) (running_for b d k))"
      by (auto simp: bus_inv_def pub_inv_def)
    have "mset (received_by b' d k) + running_for b' d k = mset sent
          \<and> (bl k \<longrightarrow> in_order sent (snd (publishers b ! k)) (received_by b' d k) (running_for b' d k))"
      if d: "d < length rfs" for d
    proof (cases "d = j \<and> k = i")
      case True
      with o [OF d] eff [of d k] show ?thesis by (auto simp: in_order_def)
    next
      case False
      with o [OF d] eff [of d k] show ?thesis by auto
    qed
    with s inv show ?thesis by (auto simp: pub_inv_def bus_inv_def)
  qed
  ultimately show ?thesis using inv by (auto simp: bus_inv_def b'_def dest: in_diffD)
qed

lemma wait_returns_inv:
  assumes inv: "bus_inv bl rfs progs b" and i: "i < length (publishers b)"
    and pub: "publishers b ! i = (es, True)" and wg: "wg b = 0"
  shows "bus_inv bl rfs progs (set_publisher i (es, False) (b\<lparr>woken := ws\<rparr>))"
proof -
  have none: "running_for b j i = {#}" if "bl i" for j
  proof -
    have "filter_mset (\<lambda>g. bl (fst (snd g))) (running b) = {#}"
      using inv wg by (simp add: bus_inv_def waits_for_def)
    then have "\<forall>g \<in># running b. \<not> bl (fst (snd g))" by (simp only: filter_mset_none_iff)
    then have "between j i g \<Longrightarrow> g \<notin># running b" for g
      using that unfolding between_def by blast
    then show ?thesis by (auto simp: running_for_def filter_mset_none_iff)
  qed
  have "pub_inv bl (set_publisher i (es, False) (b\<lparr>woken := ws\<rparr>)) k (progs ! k)" if k: "k < length progs" for k
  proof (cases "k = i")
    case False
    with inv k show ?thesis by (auto simp: bus_inv_def pub_inv_def)
  next
    case True
    from inv k have "pub_inv bl b k (progs ! k)" by (simp add: bus_inv_def)
    with True none i pub show ?thesis by (auto simp: pub_inv_def in_order_def)
  qed
  with inv show ?thesis by (simp add: bus_inv_def)
qed

lemma bus_step_inv: "bus_step bl b b' \<Longrightarrow> bus_inv bl rfs progs b \<Longrightarrow> bus_inv bl rfs progs b'"
  by (induction rule: bus_step.induct)
     (simp_all only: publish_inv receive_inv wait_returns_inv)

lemma bus_reachable_inv: "bus_reachable bl rfs progs b \<Longrightarrow> bus_inv bl rfs progs b"
  unfolding bus_reachable_def
  by (induction rule: rtranclp_induct) (auto intro: bus_start_inv bus_step_inv)

section \<open>Progress\<close>

text \<open>What is left to do: every step makes it less.\<close>

definition pub_work :: "nat \<Rightarrow> 'e list \<times> bool \<Rightarrow> nat" where
  "pub_work n pub = (n + 2) * length (fst pub) + (if snd pub then 1 else 0)"

definition bus_work :: "('r, 'e) bus \<Rightarrow> nat" where
  "bus_work b =
     size (running b) + sum_list (map (pub_work (length (subscribers b))) (publishers b))"

lemma sum_list_update_less:
  "i < length xs \<Longrightarrow> f x + d = f (xs ! i) \<Longrightarrow>
     sum_list (map f (xs[i := x])) + d = (sum_list (map f xs) :: nat)"
  by (induction xs arbitrary: i) (auto split: nat.split simp: less_Suc_eq_0_disj)

lemma bus_step_work: "bus_step bl b b' \<Longrightarrow> bus_work b' < bus_work b"
proof (induction rule: bus_step.induct)
  case (publish i b e es)
  let ?n = "length (subscribers b)"
  from publish(2) have "pub_work ?n (es, bl i) + (?n + 2 - (if bl i then 1 else 0)) = pub_work ?n (publishers b ! i)"
    by (simp add: pub_work_def)
  from sum_list_update_less [OF publish(1) this] show ?case
    by (auto simp: bus_work_def Publish_def PublishBlocking_def spawn_def split: if_splits)
next
  case (receive j i e b)
  then obtain rest where "running b = add_mset (j, i, e) rest" by (rule mset_add)
  then show ?case by (simp add: bus_work_def)
next
  case (wait_returns i b es)
  let ?n = "length (subscribers b)"
  from wait_returns(2) have "pub_work ?n (es, False) + 1 = pub_work ?n (publishers b ! i)"
    by (simp add: pub_work_def)
  from sum_list_update_less [OF wait_returns(1) this] show ?case by (simp add: bus_work_def)
qed

text \<open>Nothing blocks for ever: as long as the run is not finished, something can happen.\<close>

lemma bus_progress:
  assumes inv: "bus_inv bl rfs progs b" and "\<not> bus_finished b"
  shows "\<exists>b'. bus_step bl b b'"
proof (cases "running b = {#}")
  case False
  then obtain g where "g \<in># running b" by auto
  moreover obtain j i e where "g = (j, i, e)" by (cases g)
  ultimately have "(j, i, e) \<in># running b" by simp
  from bus_step.receive [OF this, of bl] show ?thesis by blast
next
  case True
  then have wg: "wg b = 0" using inv by (simp add: bus_inv_def waits_for_def)
  from True assms(2) obtain pub where "pub \<in> set (publishers b)" and ne: "pub \<noteq> ([], False)"
    by (auto simp: bus_finished_def)
  then obtain i where i: "i < length (publishers b)" "publishers b ! i = pub"
    by (auto simp: in_set_conv_nth)
  obtain es w where pub: "pub = (es, w)" by force
  show ?thesis
  proof (cases w)
    case True
    with i pub have "publishers b ! i = (es, True)" by simp
    from bus_step.wait_returns [OF i(1) this wg, of bl] show ?thesis by blast
  next
    case False
    with ne pub obtain e es' where "pub = (e # es', False)" by (cases es) auto
    with i have "publishers b ! i = (e # es', False)" by simp
    from bus_step.publish [OF i(1) this, of bl] show ?thesis by blast
  qed
qed

section \<open>Properties\<close>

text \<open>
  C10: Whatever the interleaving of publishers and goroutines, when a run has finished every
  subscriber has received every item of every publisher exactly once.
\<close>

theorem bus_delivers_exactly_once:
  assumes "bus_reachable bl rfs progs b" and "bus_finished b"
    and "j < length rfs" and "i < length progs"
  shows "mset (received_by b j i) = mset (progs ! i)"
proof -
  have inv: "bus_inv bl rfs progs b" using assms(1) by (rule bus_reachable_inv)
  then have "publishers b ! i \<in> set (publishers b)" using assms(4) by (simp add: bus_inv_def)
  with assms(2) have "fst (publishers b ! i) = []" by (auto simp: bus_finished_def)
  moreover have "running_for b j i = {#}" using assms(2) by (simp add: running_for_def bus_finished_def)
  moreover from inv assms(3,4) obtain sent where "progs ! i = sent @ fst (publishers b ! i)"
    and "mset (received_by b j i) + running_for b j i = mset sent"
    by (auto simp: bus_inv_def pub_inv_def)
  ultimately show ?thesis by simp
qed

text \<open>A finished run of one publisher with two items and one subscriber, in either order.\<close>

definition ex_bus :: "nat list \<Rightarrow> (unit, nat) bus" where
  "ex_bus order =
     \<lparr>subscribers = [()], wg = 0, woken = {}, running = {#}, publishers = [([], False)],
      received = map (\<lambda>e. (0, 0, e)) order\<rparr>"

lemma ex_bus_reachable: "bus_reachable (\<lambda>_. False) [()] [[1, 2]] (ex_bus [2, 1])"
proof -
  let ?bl = "\<lambda>_ :: nat. False"
  let ?s0 = "bus_start [()] [[1, 2 :: nat]]"
  let ?s1 = "Publish 0 1 [2] ?s0" and ?s3 = "Publish 0 2 [] (Publish 0 1 [2] ?s0)"
  have 1: "bus_step ?bl ?s0 ?s1"
    using publish [of 0 ?s0 1 "[2]" ?bl] by (simp add: bus_start_eq)
  have 2: "bus_step ?bl ?s1 ?s3"
    using publish [of 0 ?s1 2 "[]" ?bl] by (simp add: bus_start_eq Publish_def)
  let ?s4 = "?s3\<lparr>running := running ?s3 - {#(0, 0, 2)#}, received := received ?s3 @ [(0, 0, 2)]\<rparr>"
  have 3: "bus_step ?bl ?s3 ?s4"
    using receive [of 0 0 2 ?s3 ?bl] by (simp add: bus_start_eq Publish_def spawn_def set_publisher_def)
  have 4: "bus_step ?bl ?s4 (ex_bus [2, 1])"
    using receive [of 0 0 1 ?s4 ?bl]
    by (simp add: bus_start_eq Publish_def spawn_def set_publisher_def ex_bus_def)
  from 1 2 3 4 show ?thesis
    unfolding bus_reachable_def by (meson converse_rtranclp_into_rtranclp rtranclp.rtrancl_refl)
qed

theorem bus_delivers_exactly_once_witness: "mset (received_by (ex_bus [2, 1]) 0 0) = {#1, 2#}"
  using bus_delivers_exactly_once [OF ex_bus_reachable, of 0 0] by (simp add: bus_finished_def ex_bus_def)

text \<open>
  C11: At any moment of any run, what a subscriber has received from a publisher that uses
  \<open>PublishBlocking\<close> is a prefix of what that publisher publishes: nothing is lost, repeated or
  out of order, and no other publisher can change that.
\<close>

theorem blocking_publish_keeps_order:
  assumes "bus_reachable bl rfs progs b" and "bl i" and "j < length rfs" and "i < length progs"
  shows "\<exists>rest. progs ! i = received_by b j i @ rest"
proof -
  from bus_reachable_inv [OF assms(1)] assms(2-4)
  obtain sent where s: "progs ! i = sent @ fst (publishers b ! i)"
    and o: "in_order sent (snd (publishers b ! i)) (received_by b j i) (running_for b j i)"
    by (auto simp: bus_inv_def pub_inv_def)
  from o show ?thesis unfolding in_order_def
  proof
    assume "running_for b j i = {#} \<and> received_by b j i = sent"
    with s show ?thesis by blast
  next
    assume "snd (publishers b ! i) \<and> (\<exists>e. running_for b j i = {#e#} \<and> received_by b j i @ [e] = sent)"
    then obtain e where "received_by b j i @ [e] = sent" by blast
    with s show ?thesis by (metis append.assoc)
  qed
qed

text \<open>A publisher that has waited for its first item, and not yet returned from the call.\<close>

theorem blocking_publish_keeps_order_witness:
  "\<exists>b rest. bus_reachable (\<lambda>_. True) [()] [[1, 2 :: nat]] b \<and> received b = [(0, 0, 1)]
     \<and> publishers b = [([2], True)] \<and> [1, 2] = received_by b 0 0 @ rest"
proof -
  let ?bl = "\<lambda>_ :: nat. True"
  let ?s0 = "bus_start [()] [[1, 2 :: nat]]"
  let ?s1 = "PublishBlocking 0 1 [2] ?s0"
  let ?b = "Done (?s1\<lparr>running := running ?s1 - {#(0, 0, 1)#}, received := received ?s1 @ [(0, 0, 1)]\<rparr>)"
  have "bus_step ?bl ?s0 ?s1" using publish [of 0 ?s0 1 "[2]" ?bl] by (simp add: bus_start_eq)
  moreover have "bus_step ?bl ?s1 ?b"
    using receive [of 0 0 1 ?s1 ?bl] by (simp add: bus_start_eq PublishBlocking_def spawn_def set_publisher_def)
  ultimately have r: "bus_reachable ?bl [()] [[1, 2]] ?b"
    unfolding bus_reachable_def by (meson converse_rtranclp_into_rtranclp rtranclp.rtrancl_refl)
  have b: "received ?b = [(0, 0, 1)]" "publishers ?b = [([2], True)]"
    by (simp_all add: bus_start_eq PublishBlocking_def)
  from blocking_publish_keeps_order [OF r, of 0 0] obtain rest where "[1, 2] = received_by ?b 0 0 @ rest" by auto
  with r b show ?thesis by (intro exI [of _ ?b] exI [of _ rest]) simp
qed

text \<open>
  Without blocking there is no such order: a subscriber can receive the second item of a
  publisher before the first.
\<close>

theorem nonblocking_publish_reorders:
  "\<exists>b. bus_reachable (\<lambda>_. False) [()] [[1, 2 :: nat]] b \<and> received_by b 0 0 = [2, 1]"
  using ex_bus_reachable by (intro exI [of _ "ex_bus [2, 1]"]) (simp add: ex_bus_def received_by_def between_def)

section \<open>Sharing the wait group\<close>

text \<open>
  A publisher that was woken is still in \<open>Wait\<close>, none of its goroutines runs any more, and it has
  published something.
\<close>

definition wait_inv :: "(nat \<Rightarrow> bool) \<Rightarrow> 'e list list \<Rightarrow> ('r, 'e) bus \<Rightarrow> bool" where
  "wait_inv bl progs b \<longleftrightarrow>
     (\<forall>i < length (publishers b). snd (publishers b ! i) \<longrightarrow> bl i \<and> fst (publishers b ! i) \<noteq> progs ! i)
     \<and> (\<forall>i \<in> woken b. i < length (publishers b) \<and> snd (publishers b ! i)
           \<and> (\<forall>g \<in># running b. fst (snd g) \<noteq> i))"

lemma in_Wait_iff: "i \<in> in_Wait b \<longleftrightarrow> i < length (publishers b) \<and> snd (publishers b ! i)"
  by (auto simp: in_Wait_def)

lemma published_shorter:
  assumes "bus_inv bl rfs progs b" and "i < length progs" and "publishers b ! i = (e # es, w)"
  shows "es \<noteq> progs ! i"
proof -
  from assms obtain sent where "progs ! i = sent @ e # es" by (auto simp: bus_inv_def pub_inv_def)
  then have "length es < length (progs ! i)" by simp
  then show ?thesis by blast
qed

lemma waits_for_none_iff: "waits_for bl gs = 0 \<longleftrightarrow> (\<forall>g \<in># gs. \<not> bl (fst (snd g)))"
  unfolding waits_for_def size_eq_0_iff_empty filter_mset_none_iff ..

lemma wait_inv_step:
  assumes "bus_step bl b b'" and "bus_inv bl rfs progs b" and "wait_inv bl progs b"
  shows "wait_inv bl progs b'"
  using assms
proof (induction rule: bus_step.induct)
  case (publish i b e es)
  have "i \<notin> woken b" using publish(2,4) by (auto simp: wait_inv_def)
  moreover have "es \<noteq> progs ! i"
    using published_shorter [OF publish(3) _ publish(2)] publish(1,3) by (simp add: bus_inv_def)
  ultimately show ?case
    using publish(1,4)
    by (auto simp: wait_inv_def Publish_def PublishBlocking_def nth_list_update)
       (auto simp: spawn_def)
next
  case (receive j i e b)
  let ?b = "b\<lparr>running := running b - {#(j, i, e)#}, received := received b @ [(j, i, e)]\<rparr>"
  have none: "fst (snd g) \<noteq> k" if "bl i" "wg b = 1" "g \<in># running ?b" "bl k" for g k
  proof
    assume k: "fst (snd g) = k"
    from receive(1) obtain rest where r: "running b = add_mset (j, i, e) rest" by (rule mset_add)
    have "waits_for bl (running b) = 1" using receive(2) that(2) by (simp add: bus_inv_def)
    then have "waits_for bl rest = 0" using that(1) by (simp add: waits_for_def r)
    moreover have "g \<in># rest" using that(3) by (simp add: r)
    ultimately show False using that(4) k unfolding waits_for_none_iff by blast
  qed
  have rest: "g \<in># running b" if "g \<in># running ?b" for g using that by (auto dest: in_diffD)
  show ?case
  proof (cases "bl i \<and> wg b = 1")
    case True
    then have "woken (Done ?b) = in_Wait b" by (simp add: Done_def in_Wait_def)
    with True none receive(3) show ?thesis by (simp add: wait_inv_def in_Wait_iff)
  next
    case False
    then have "woken ((if bl i then Done else id) ?b) = woken b" by (simp add: Done_def)
    with rest receive(3) show ?thesis by (simp add: wait_inv_def)
  qed
next
  case (wait_returns i b es)
  then show ?case by (auto simp: wait_inv_def nth_list_update)
qed

lemma reachable_wait_inv:
  assumes "bus_reachable bl rfs progs b"
  shows "wait_inv bl progs b"
  using assms unfolding bus_reachable_def
proof (induction rule: rtranclp_induct)
  case base
  then show ?case by (auto simp: wait_inv_def bus_start_eq)
next
  case (step b b')
  then have "bus_reachable bl rfs progs b" by (simp add: bus_reachable_def)
  from wait_inv_step [OF step(2) bus_reachable_inv [OF this] step(3)] show ?case .
qed

lemma goroutine_of_program:
  assumes "bus_inv bl rfs progs b" and "(j, k, e) \<in># running b"
  shows "j < length rfs \<and> k < length progs \<and> progs ! k \<noteq> []"
proof -
  have jk: "j < length rfs" "k < length progs" using assms by (auto simp: bus_inv_def)
  moreover from assms(1) jk obtain sent where s: "progs ! k = sent @ fst (publishers b ! k)"
    and m: "mset (received_by b j k) + running_for b j k = mset sent"
    by (auto simp: bus_inv_def pub_inv_def)
  have "e \<in># running_for b j k" using assms(2) by (force simp: running_for_def between_def)
  then have "e \<in># mset sent" unfolding m [symmetric] by simp
  then have "sent \<noteq> []" by auto
  ultimately show ?thesis using s by simp
qed

text \<open>One publisher's goroutines return one after the other, and the last one wakes it.\<close>

lemma receive_all_wakes:
  assumes "bl i" and "publishers b ! i = (es, True)" and "i < length (publishers b)"
    and "running b = mset (map (\<lambda>j. (j, i, e)) [0..<Suc n])" and "wg b = Suc n"
  shows "\<exists>b'. (bus_step bl)\<^sup>*\<^sup>* b b' \<and> publishers b' = publishers b \<and> subscribers b' = subscribers b
    \<and> running b' = {#} \<and> i \<in> woken b'"
  using assms(2-)
proof (induction n arbitrary: b)
  case 0
  let ?b = "Done (b\<lparr>running := {#}, received := received b @ [(0, i, e)]\<rparr>)"
  have "(0, i, e) \<in># running b" using 0 by simp
  from bus_step.receive [OF this, of bl] have "bus_step bl b ?b" using assms(1) 0(3) by simp
  moreover have "i \<in> woken ?b" using 0 by (simp add: Done_def in_Wait_iff)
  ultimately show ?case by (intro exI [of _ ?b]) (simp add: r_into_rtranclp)
next
  case (Suc n)
  let ?b = "Done (b\<lparr>running := mset (map (\<lambda>j. (j, i, e)) [0..<Suc n]), received := received b @ [(Suc n, i, e)]\<rparr>)"
  have r: "running b = add_mset (Suc n, i, e) (mset (map (\<lambda>j. (j, i, e)) [0..<Suc n]))" using Suc.prems(3) by simp
  then have "(Suc n, i, e) \<in># running b" by simp
  from bus_step.receive [OF this, of bl] have s: "bus_step bl b ?b" using assms(1) by (simp add: r)
  have "\<exists>b'. (bus_step bl)\<^sup>*\<^sup>* ?b b' \<and> publishers b' = publishers ?b \<and> subscribers b' = subscribers ?b
      \<and> running b' = {#} \<and> i \<in> woken b'"
    by (rule Suc.IH) (use Suc.prems in simp_all)
  with s show ?case by (auto intro: converse_rtranclp_into_rtranclp)
qed

text \<open>
  C12: The wait group is shared by all publishers, although a wait group must not be used again before
  all calls of \<open>Wait\<close> have returned.  A publisher can panic in \<open>Wait\<close> exactly if there is a subscriber and
  two different publishers that wait have something to publish; one that waits alone never does, and
  publishers that do not wait do no harm.
\<close>

theorem wait_group_panics_iff:
  "(\<exists>b :: ('r, 'e) bus. bus_reachable bl rfs progs b \<and> bus_panics b) \<longleftrightarrow>
     rfs \<noteq> [] \<and> (\<exists>i k. i \<noteq> k \<and> i < length progs \<and> k < length progs \<and> bl i \<and> bl k
                  \<and> progs ! i \<noteq> [] \<and> progs ! k \<noteq> [])"
proof
  assume "\<exists>b :: ('r, 'e) bus. bus_reachable bl rfs progs b \<and> bus_panics b"
  then obtain b :: "('r, 'e) bus" and i where b: "bus_reachable bl rfs progs b" "i \<in> woken b" "wg b \<noteq> 0"
    by (auto simp: bus_panics_def)
  note inv = bus_reachable_inv [OF b(1)] and winv = reachable_wait_inv [OF b(1)]
  from b(2) winv inv have i: "i < length progs" "bl i" "fst (publishers b ! i) \<noteq> progs ! i"
    "\<forall>g \<in># running b. fst (snd g) \<noteq> i"
    by (auto simp: wait_inv_def bus_inv_def)
  then have "progs ! i \<noteq> []" using inv by (auto simp: bus_inv_def pub_inv_def)
  from b(3) inv have "waits_for bl (running b) \<noteq> 0" by (simp add: bus_inv_def)
  then obtain j k e where g: "(j, k, e) \<in># running b" "bl k"
    unfolding waits_for_none_iff by (metis fst_conv snd_conv surj_pair)
  with i(4) have "k \<noteq> i" by auto
  with goroutine_of_program [OF inv g(1)] g(2) i(1,2) \<open>progs ! i \<noteq> []\<close>
  show "rfs \<noteq> [] \<and> (\<exists>i k. i \<noteq> k \<and> i < length progs \<and> k < length progs \<and> bl i \<and> bl k
                  \<and> progs ! i \<noteq> [] \<and> progs ! k \<noteq> [])"
    by auto
next
  assume "rfs \<noteq> [] \<and> (\<exists>i k. i \<noteq> k \<and> i < length progs \<and> k < length progs \<and> bl i \<and> bl k
                  \<and> progs ! i \<noteq> [] \<and> progs ! k \<noteq> [])"
  then obtain i k e es e' es' n where ik: "i \<noteq> k" "i < length progs" "k < length progs" "bl i" "bl k"
    and p: "progs ! i = e # es" "progs ! k = e' # es'" and n: "length rfs = Suc n"
    by (metis length_0_conv list.exhaust not0_implies_Suc)
  let ?s = "bus_start rfs progs :: ('r, 'e) bus"
  let ?b = "PublishBlocking i e es ?s"
  have 1: "bus_step bl ?s ?b"
    using bus_step.publish [of i ?s e es bl] ik p by (simp add: bus_start_eq)
  have "publishers ?b ! i = (es, True)" "i < length (publishers ?b)" "wg ?b = Suc n"
    "running ?b = mset (map (\<lambda>j. (j, i, e)) [0..<Suc n])"
    using ik(2) n by (simp_all add: PublishBlocking_def bus_start_eq) (simp add: spawn_def)
  from receive_all_wakes [where bl = bl and b = ?b and e = e, OF ik(4) this(1,2,4,3)] obtain b where b: "(bus_step bl)\<^sup>*\<^sup>* ?b b"
    "publishers b = publishers ?b" "subscribers b = subscribers ?b" "i \<in> woken b" by blast
  have "publishers b ! k = (e' # es', False)" "k < length (publishers b)"
    using ik p b(2) by (simp_all add: PublishBlocking_def bus_start_eq)
  from bus_step.publish [OF this(2,1), of bl] ik(5) have "bus_step bl b (PublishBlocking k e' es' b)" by simp
  with 1 b(1) have "bus_reachable bl rfs progs (PublishBlocking k e' es' b)"
    unfolding bus_reachable_def by (meson converse_rtranclp_into_rtranclp rtranclp.rtrancl_into_rtrancl)
  moreover have "bus_panics (PublishBlocking k e' es' b)"
    using b(3,4) n by (auto simp: bus_panics_def PublishBlocking_def bus_start_eq)
  ultimately show "\<exists>b :: ('r, 'e) bus. bus_reachable bl rfs progs b \<and> bus_panics b" by blast
qed

end
