(* ===== verification/MetricBus.thy ===== *)
theory MetricBus
  imports Bus
begin

text \<open>
  The metric bus (\<open>pkg/bus/bus.go\<close>), and the order in which subscribers of a bus receive what was
  published without waiting: any order at all.
\<close>

section \<open>Operations\<close>

text \<open>
  A subscriber is a function of the seven parts of a metric; \<open>'s\<close> is the state it changes.  The
  metric bus has no wait group, its \<open>Publish\<close> starts a goroutine for each subscriber.
\<close>

type_synonym 's metric_receive_func =
  "string \<Rightarrow> float64 \<Rightarrow> metric_type \<Rightarrow> int64 \<Rightarrow> float64 \<Rightarrow> string list \<Rightarrow> string list \<Rightarrow> 's \<Rightarrow> 's go"

definition MetricBus_Subscribe ::
  "'s metric_receive_func \<Rightarrow> ('s metric_receive_func, metric) bus \<Rightarrow> ('s metric_receive_func, metric) bus" where
  "MetricBus_Subscribe rf mb = Subscribe rf mb"

definition MetricBus_Publish ::
  "nat \<Rightarrow> string \<Rightarrow> float64 \<Rightarrow> metric_type \<Rightarrow> int64 \<Rightarrow> float64 \<Rightarrow> string list \<Rightarrow> string list \<Rightarrow> metric list
     \<Rightarrow> ('r, metric) bus \<Rightarrow> ('r, metric) bus" where
  "MetricBus_Publish i name t mT interval value labelKeys labelVals ms mb =
     Publish i \<lparr>mName = name, mTime = t, mType = mT, mInterval = interval, mValue = value,
                mLabelKeys = labelKeys, mLabelVals = labelVals\<rparr> ms mb"

text \<open>What the goroutine of a subscriber does.\<close>

definition metric_call :: "'s metric_receive_func \<Rightarrow> metric \<Rightarrow> 's \<Rightarrow> 's go" where
  "metric_call rf m =
     rf (mName m) (mTime m) (mType m) (mInterval m) (mValue m) (mLabelKeys m) (mLabelVals m)"

lemma metric_publish_step:
  assumes "i < length (publishers mb)" and "publishers mb ! i = (m # ms, False)"
  shows "bus_step (\<lambda>_. False) mb
           (MetricBus_Publish i (mName m) (mTime m) (mType m) (mInterval m) (mValue m) (mLabelKeys m)
              (mLabelVals m) ms mb)"
  using bus_step.publish [OF assms, of "\<lambda>_. False"] by (cases m) (simp add: MetricBus_Publish_def)

section \<open>Runs without waiting\<close>

abbreviation no_wait :: "nat \<Rightarrow> bool" where
  "no_wait \<equiv> \<lambda>_. False"

text \<open>All calls that the programs of the publishers lead to.\<close>

definition all_calls :: "'r list \<Rightarrow> 'e list list \<Rightarrow> 'e goroutine list" where
  "all_calls rfs progs =
     concat (map (\<lambda>i. concat (map (\<lambda>e. map (\<lambda>j. (j, i, e)) [0..<length rfs]) (progs ! i))) [0..<length progs])"

definition calls_of :: "nat \<Rightarrow> nat \<Rightarrow> 'e list \<Rightarrow> 'e goroutine multiset" where
  "calls_of n i es = mset (concat (map (\<lambda>e. map (\<lambda>j. (j, i, e)) [0..<n]) es))"

lemma calls_of_simps [simp]:
  "calls_of n i [] = {#}"
  "calls_of n i (e # es) = mset (map (\<lambda>j. (j, i, e)) [0..<n]) + calls_of n i es"
  by (simp_all add: calls_of_def del: mset_map)

text \<open>What is still to be published, as calls.\<close>

definition pending :: "('r, 'e) bus \<Rightarrow> 'e goroutine multiset" where
  "pending b =
     (\<Sum>i = 0..<length (publishers b). calls_of (length (subscribers b)) i (fst (publishers b ! i)))"

lemma mset_concat_map_upt: "mset (concat (map f [0..<n])) = (\<Sum>i = 0..<n. mset (f i))"
  by (induction n) (simp_all add: add.commute)

lemma mset_all_calls:
  "mset (all_calls rfs progs) = (\<Sum>i = 0..<length progs. calls_of (length rfs) i (progs ! i))"
  unfolding all_calls_def calls_of_def by (rule mset_concat_map_upt)

lemma pending_publish:
  assumes "i < length (publishers b)" and "publishers b ! i = (e # es, w)"
  shows "pending b = mset (map (\<lambda>j. (j, i, e)) [0..<length (subscribers b)]) + pending (set_publisher i (es, w') b)"
proof -
  let ?n = "length (subscribers b)" and ?m = "length (publishers b)"
  define f where "f k = calls_of ?n k (fst (publishers b ! k))" for k
  define g where "g k = calls_of ?n k (fst ((publishers b)[i := (es, w')] ! k))" for k
  define new where "new = mset (map (\<lambda>j. (j, i, e)) [0..<?n])"
  have fi: "f i = new + g i" using assms by (simp add: f_def g_def new_def del: mset_map)
  have "sum f ({0..<?m} - {i}) = sum g ({0..<?m} - {i})" by (rule sum.cong) (simp_all add: f_def g_def)
  moreover have "sum f {0..<?m} = f i + sum f ({0..<?m} - {i})" using assms(1) by (simp add: sum.remove)
  moreover have "sum g {0..<?m} = g i + sum g ({0..<?m} - {i})" using assms(1) by (simp add: sum.remove)
  ultimately have "sum f {0..<?m} = new + sum g {0..<?m}" using fi by (simp add: add.assoc)
  moreover have "pending b = sum f {0..<?m}" by (simp add: pending_def f_def)
  moreover have "pending (set_publisher i (es, w') b) = sum g {0..<?m}" by (simp add: pending_def g_def)
  ultimately show ?thesis by (simp add: new_def)
qed

text \<open>Nothing is lost and nothing comes from elsewhere.\<close>

definition calls_inv :: "'e goroutine multiset \<Rightarrow> ('r, 'e) bus \<Rightarrow> bool" where
  "calls_inv calls b \<longleftrightarrow> mset (received b) + running b + pending b = calls"

lemma calls_inv_start: "calls_inv (mset (all_calls rfs progs)) (bus_start rfs progs)"
  by (auto simp: calls_inv_def bus_start_eq pending_def mset_all_calls intro!: sum.cong)

lemma pending_frame [simp]:
  "pending (b\<lparr>running := r, received := rc, wg := n\<rparr>) = pending b"
  "pending (b\<lparr>running := r, received := rc\<rparr>) = pending b"
  "pending (b\<lparr>wg := n\<rparr>) = pending b" "pending (b\<lparr>woken := ws\<rparr>) = pending b" "pending (Done b) = pending b"
  by (simp_all add: pending_def Done_def)

lemma pending_spawn [simp]:
  "pending (set_publisher i p (spawn i' e b)) = pending (set_publisher i p b)"
  "pending (set_publisher i p (b\<lparr>wg := n\<rparr>)) = pending (set_publisher i p b)"
  "pending (set_publisher i p (b\<lparr>woken := ws\<rparr>)) = pending (set_publisher i p b)"
  by (simp_all add: pending_def spawn_def)

lemma pending_wait_returns:
  assumes "i < length (publishers b)" and "publishers b ! i = (es, w)"
  shows "pending (set_publisher i (es, w') b) = pending b"
  unfolding pending_def using assms by (auto simp: nth_list_update intro!: sum.cong)

lemma calls_inv_step: "bus_step bl b b' \<Longrightarrow> calls_inv calls b \<Longrightarrow> calls_inv calls b'"
proof (induction rule: bus_step.induct)
  case (publish i b e es)
  let ?n = "length (subscribers b)"
  have "mset (received b) + (running b + mset (map (\<lambda>j. (j, i, e)) [0..<?n])) + pending (set_publisher i (es, w) b) = calls"
    for w
    using pending_publish [OF publish(1,2), of w] publish(3)
    by (simp add: calls_inv_def ac_simps del: mset_map)
  then show ?case
    by (simp add: calls_inv_def Publish_def PublishBlocking_def del: mset_map) (simp add: spawn_def del: mset_map)
next
  case (receive j i e b)
  from receive(1) obtain rest where "running b = add_mset (j, i, e) rest" by (rule mset_add)
  with receive(2) show ?case by (simp add: calls_inv_def)
next
  case (wait_returns i b es)
  then show ?case by (simp add: calls_inv_def pending_wait_returns)
qed

lemma pending_finished:
  assumes "\<forall>pub \<in> set (publishers b). pub = ([], False)"
  shows "pending b = {#}"
  unfolding pending_def
proof (rule sum.neutral, rule ballI)
  fix i
  assume "i \<in> {0..<length (publishers b)}"
  then have "publishers b ! i \<in> set (publishers b)" by simp
  with assms have "publishers b ! i = ([], False)" by blast
  then show "calls_of (length (subscribers b)) i (fst (publishers b ! i)) = {#}" by simp
qed

lemma reachable_calls: "bus_reachable bl rfs progs b \<Longrightarrow> calls_inv (mset (all_calls rfs progs)) b"
  unfolding bus_reachable_def
  by (induction rule: rtranclp_induct) (auto intro: calls_inv_start calls_inv_step)

lemma finished_calls:
  assumes "bus_reachable bl rfs progs b" and "bus_finished b"
  shows "mset (received b) = mset (all_calls rfs progs)"
  using reachable_calls [OF assms(1)] assms(2) pending_finished [of b]
  by (simp add: calls_inv_def bus_finished_def)

section \<open>Every order is possible\<close>

text \<open>The publishers may all be done before the first goroutine runs.\<close>

definition nobody_waits :: "('r, 'e) bus \<Rightarrow> bool" where
  "nobody_waits b \<longleftrightarrow> (\<forall>pub \<in> set (publishers b). \<not> snd pub)"

text \<open>A step in which no subscriber returns.\<close>

definition silent_step :: "('r, 'e) bus \<Rightarrow> ('r, 'e) bus \<Rightarrow> bool" where
  "silent_step b b' \<longleftrightarrow> bus_step no_wait b b' \<and> received b' = received b"

lemma publish_all_silently:
  assumes "nobody_waits b"
  shows "\<exists>b'. silent_step\<^sup>*\<^sup>* b b' \<and> (\<forall>pub \<in> set (publishers b'). pub = ([], False))"
  using assms
proof (induction "sum_list (map (\<lambda>pub. length (fst pub)) (publishers b))" arbitrary: b rule: less_induct)
  case less
  show ?case
  proof (cases "\<forall>pub \<in> set (publishers b). fst pub = []")
    case True
    with less.prems have "\<forall>pub \<in> set (publishers b). pub = ([], False)"
      by (auto simp: nobody_waits_def prod_eq_iff)
    then show ?thesis by blast
  next
    case False
    then obtain i where i: "i < length (publishers b)" "fst (publishers b ! i) \<noteq> []"
      by (auto simp: in_set_conv_nth)
    moreover have "\<not> snd (publishers b ! i)" using less.prems i(1) by (simp add: nobody_waits_def)
    ultimately obtain e es where pub: "publishers b ! i = (e # es, False)"
      by (metis neq_Nil_conv prod.collapse)
    from bus_step.publish [OF i(1) pub, of no_wait] have step: "bus_step no_wait b (Publish i e es b)" by simp
    have "sum_list (map (\<lambda>pub. length (fst pub)) (publishers (Publish i e es b))) + 1
        = sum_list (map (\<lambda>pub. length (fst pub)) (publishers b))"
      using sum_list_update_less [of i "publishers b" "\<lambda>pub. length (fst pub)" "(es, False)" 1] i(1) pub
      by (simp add: Publish_def)
    then have "sum_list (map (\<lambda>pub. length (fst pub)) (publishers (Publish i e es b)))
        < sum_list (map (\<lambda>pub. length (fst pub)) (publishers b))" by simp
    moreover have "nobody_waits (Publish i e es b)"
      using less.prems by (auto simp: nobody_waits_def Publish_def dest: set_update_subset_insert [THEN subsetD])
    ultimately obtain b' where
      "silent_step\<^sup>*\<^sup>* (Publish i e es b) b'" "\<forall>pub \<in> set (publishers b'). pub = ([], False)"
      using less.hyps by blast
    moreover have "silent_step b (Publish i e es b)" using step by (simp add: silent_step_def Publish_def)
    ultimately show ?thesis by (meson converse_rtranclp_into_rtranclp)
  qed
qed

lemma silent_steps_frame:
  "silent_step\<^sup>*\<^sup>* b b' \<Longrightarrow> (bus_step no_wait)\<^sup>*\<^sup>* b b' \<and> received b' = received b"
  by (induction rule: rtranclp_induct) (auto simp: silent_step_def intro: rtranclp.rtrancl_into_rtrancl)

lemma publish_all:
  assumes "nobody_waits b"
  shows "\<exists>b'. (bus_step no_wait)\<^sup>*\<^sup>* b b' \<and> received b' = received b
    \<and> (\<forall>pub \<in> set (publishers b'). pub = ([], False))"
  using publish_all_silently [OF assms] silent_steps_frame by blast

text \<open>Then the goroutines run in whatever order.\<close>

lemma deliver_all:
  assumes "running b = mset gs" and "\<forall>pub \<in> set (publishers b). pub = ([], False)"
  shows "\<exists>b'. (bus_step no_wait)\<^sup>*\<^sup>* b b' \<and> bus_finished b' \<and> received b' = received b @ gs"
  using assms
proof (induction gs arbitrary: b)
  case Nil
  then show ?case by (intro exI [of _ b]) (simp add: bus_finished_def)
next
  case (Cons g gs)
  obtain j i e where g: "g = (j, i, e)" by (cases g)
  let ?b = "b\<lparr>running := running b - {#(j, i, e)#}, received := received b @ [(j, i, e)]\<rparr>"
  have "(j, i, e) \<in># running b" using Cons.prems(1) g by simp
  from bus_step.receive [OF this, of no_wait] have step: "bus_step no_wait b ?b" by simp
  have "running ?b = mset gs" using Cons.prems(1) g by simp
  from Cons.IH [OF this] Cons.prems(2) obtain b' where
    "(bus_step no_wait)\<^sup>*\<^sup>* ?b b'" "bus_finished b'" "received b' = received ?b @ gs" by auto
  with step g show ?case by (intro exI [of _ b']) (simp add: converse_rtranclp_into_rtranclp)
qed

lemma every_order:
  assumes "mset gs = mset (all_calls rfs progs)"
  shows "\<exists>b. bus_reachable no_wait rfs progs b \<and> bus_finished b \<and> received b = gs"
proof -
  have "nobody_waits (bus_start rfs progs)" by (auto simp: nobody_waits_def bus_start_eq)
  from publish_all [OF this] obtain b1 where
    b1: "(bus_step no_wait)\<^sup>*\<^sup>* (bus_start rfs progs) b1" "received b1 = []"
      "\<forall>pub \<in> set (publishers b1). pub = ([], False)"
    by (auto simp: bus_start_eq)
  then have "bus_reachable no_wait rfs progs b1" by (simp add: bus_reachable_def)
  from reachable_calls [OF this] pending_finished [OF b1(3)] b1(2) assms
  have "running b1 = mset gs" by (simp add: calls_inv_def)
  from deliver_all [OF this b1(3)] b1(1,2) show ?thesis
    by (auto simp: bus_reachable_def intro: rtranclp_trans)
qed

section \<open>One subscriber\<close>

text \<open>What one subscriber receives, from all publishers, in order.\<close>

definition deliveries :: "('r, 'e) bus \<Rightarrow> nat \<Rightarrow> 'e list" where
  "deliveries b j = map (snd \<circ> snd) (filter (\<lambda>g. fst g = j) (received b))"

lemma mset_map_reorder:
  "mset (map f xs) = mset ys \<Longrightarrow> \<exists>zs. mset zs = mset xs \<and> map f zs = ys"
proof (induction ys arbitrary: xs)
  case Nil
  then show ?case by simp
next
  case (Cons y ys)
  then have "y \<in># mset (map f xs)" by simp
  then obtain x where "x \<in> set xs" "y = f x" by auto
  then obtain pre post where xs: "xs = pre @ x # post" using split_list by metis
  with Cons.prems \<open>y = f x\<close> have "mset (map f (pre @ post)) = mset ys" by simp
  from Cons.IH [OF this] obtain zs where "mset zs = mset (pre @ post)" "map f zs = ys" by blast
  with xs \<open>y = f x\<close> show ?case by (intro exI [of _ "x # zs"]) simp
qed

lemma calls_for_item:
  "map (snd \<circ> snd) (filter (\<lambda>g. fst g = j) (map (\<lambda>k. (k, i, e)) [0..<n])) = (if j < n then [e] else [])"
  by (induction n) auto

lemma all_calls_for:
  "j < length rfs \<Longrightarrow>
     map (snd \<circ> snd) (filter (\<lambda>g. fst g = j) (all_calls rfs progs)) = concat progs"
  by (simp add: all_calls_def filter_concat map_concat o_def calls_for_item [unfolded o_def] map_nth)

lemma deliveries_all:
  assumes "bus_reachable bl rfs progs b" and "bus_finished b" and "j < length rfs"
  shows "mset (deliveries b j) = mset (concat progs)"
proof -
  have "mset (deliveries b j) = image_mset (snd \<circ> snd) (filter_mset (\<lambda>g. fst g = j) (mset (received b)))"
    by (simp add: deliveries_def)
  also have "\<dots> = mset (map (snd \<circ> snd) (filter (\<lambda>g. fst g = j) (all_calls rfs progs)))"
    using finished_calls [OF assms(1,2)] by simp
  finally show ?thesis unfolding all_calls_for [OF assms(3)] .
qed

lemma deliveries_any:
  assumes "mset ms = mset (concat progs)" and "j < length rfs"
  shows "\<exists>b. bus_reachable no_wait rfs progs b \<and> bus_finished b \<and> deliveries b j = ms"
proof -
  let ?mine = "filter (\<lambda>g. fst g = j) (all_calls rfs progs)"
  have "mset (map (snd \<circ> snd) ?mine) = mset ms" unfolding all_calls_for [OF assms(2)] using assms(1) by simp
  from mset_map_reorder [OF this] obtain zs where zs: "mset zs = mset ?mine" "map (snd \<circ> snd) zs = ms" by blast
  let ?gs = "zs @ filter (\<lambda>g. fst g \<noteq> j) (all_calls rfs progs)"
  have "mset ?gs = mset (all_calls rfs progs)" using zs(1) by simp
  from every_order [OF this] obtain b where
    b: "bus_reachable no_wait rfs progs b" "bus_finished b" "received b = ?gs" by blast
  have "set zs = set ?mine" using zs(1) by (metis set_mset_mset)
  then have "filter (\<lambda>g. fst g = j) zs = zs" by (auto simp: filter_id_conv)
  then have "filter (\<lambda>g. fst g = j) ?gs = zs" by simp
  with b zs(2) show ?thesis by (auto simp: deliveries_def)
qed

section \<open>Properties\<close>

text \<open>
  C9: The calls of the subscribers that a finished run without waiting has made are those that the
  publishers asked for, each once, and every order of them is the order of some run: neither what
  one publisher sent nor what one subscriber receives stays in order.
\<close>

theorem unordered_delivery:
  "(\<exists>b. bus_reachable no_wait rfs progs b \<and> bus_finished b \<and> received b = gs)
     \<longleftrightarrow> mset gs = mset (all_calls rfs progs)"
  using every_order finished_calls by blast
end
