(* ===== verification/Expiry.thy ===== *)
theory Expiry
  imports Prelude
begin

text \<open>
  The expiry process of the Prometheus application
  (\<open>plugins/application/prometheus/expiry.go\<close>): a list of objects with the interface
  \<open>expiry\<close> (\<open>Expired\<close> and \<open>Delete\<close>) that a check walks through, deleting the expired ones.
  The objects live in a state \<open>'s\<close> that \<open>Delete\<close> may change.  The check is generic in the
  interface, as in the code, where collectors and metrics both implement it.
\<close>

section \<open>The check\<close>

text \<open>The elements of the list are interface values, which may be nil.\<close>

fun somes :: "'e option list \<Rightarrow> 'e list" where
  "somes [] = []"
| "somes (None # es) = somes es"
| "somes (Some e # es) = e # somes es"

lemma somes_append [simp]: "somes (xs @ ys) = somes xs @ somes ys"
  by (induction xs rule: somes.induct) simp_all

lemma set_somes: "e \<in> set (somes es) \<longleftrightarrow> Some e \<in> set es"
  by (induction es rule: somes.induct) auto

definition newExpiryProc :: "'e option list" where
  [simp]: "newExpiryProc = []"

definition register :: "'e \<Rightarrow> 'e option list \<Rightarrow> 'e option list" where
  "register e entries = entries @ [Some e]"

fun expiry_check ::
  "('e \<Rightarrow> 's \<Rightarrow> bool) \<Rightarrow> ('e \<Rightarrow> 's \<Rightarrow> bool \<times> 's) \<Rightarrow> 'e option list \<Rightarrow> 's \<Rightarrow> 'e option list \<times> 's" where
  "expiry_check expired delete [] s = ([], s)"
| "expiry_check expired delete (None # es) s = expiry_check expired delete es s"
| "expiry_check expired delete (Some e # es) s =
     (if expired e s then
        (let (ok, s') = delete e s
         in if ok then expiry_check expired delete es s'
            else (let (es', s'') = expiry_check expired delete es s' in (Some e # es', s'')))
      else (let (es', s') = expiry_check expired delete es s in (Some e # es', s')))"

text \<open>
  The loop of \<open>run\<close>: with the interval 0 there is none; otherwise a check is due
  \<open>interval + 1s\<close> after the last one.
\<close>

definition run_period :: "int64 \<Rightarrow> int64 option" where
  "run_period interval =
     (if interval = 0 then None else Some (wrap64 (interval + time_Second)))"

section \<open>The interface\<close>

text \<open>
  The laws an implementation of the interface keeps for the check to be correct: \<open>inv es s\<close>
  says how the listed objects and the state fit together.  A deletion that succeeds keeps
  it for the list without the object; one that fails changes nothing; whether an object has
  expired does not depend on the deletion of others.
\<close>

locale expirable =
  fixes expired :: "'e \<Rightarrow> 's \<Rightarrow> bool"
    and delete :: "'e \<Rightarrow> 's \<Rightarrow> bool \<times> 's"
    and inv :: "'e list \<Rightarrow> 's \<Rightarrow> bool"
  assumes inv_mset: "mset xs = mset ys \<Longrightarrow> inv xs s \<Longrightarrow> inv ys s"
    and delete_ok:
      "inv (e # es) s \<Longrightarrow> expired e s \<Longrightarrow> delete e s = (True, s') \<Longrightarrow> inv es s'"
    and delete_refused: "inv (e # es) s \<Longrightarrow> delete e s = (False, s') \<Longrightarrow> s' = s"
begin

lemma check_inv_general:
  "inv (kept @ somes es) s \<Longrightarrow> expiry_check expired delete es s = (es', s') \<Longrightarrow>
     inv (kept @ somes es') s'"
proof (induction es arbitrary: s kept es' s')
  case Nil
  then show ?case by simp
next
  case (Cons x es)
  show ?case
  proof (cases x)
    case None
    with Cons show ?thesis by simp
  next
    case (Some e)
    have front: "inv (e # (kept @ somes es)) s"
      using Cons.prems(1) Some by - (rule inv_mset [of "kept @ somes (x # es)"], simp_all)
    obtain ok t where d: "delete e s = (ok, t)" by force
    show ?thesis
    proof (cases "expired e s \<and> ok")
      case True
      with d have "inv (kept @ somes es) t" using delete_ok [OF front] by simp
      with True d Some Cons.IH [of kept t] Cons.prems(2) show ?thesis by simp
    next
      case False
      define u where "u = (if expired e s then t else s)"
      have u: "u = s" using delete_refused [OF front, of t] d False by (auto simp: u_def)
      obtain es2 s2 where c: "expiry_check expired delete es s = (es2, s2)" by force
      from u False d c Some Cons.prems(2) have r: "es' = Some e # es2" "s' = s2"
        by (auto simp: u_def split: if_splits)
      have "inv ((kept @ [e]) @ somes es) s" using Cons.prems(1) Some by simp
      from Cons.IH [OF this c] r show ?thesis by simp
    qed
  qed
qed

text \<open>A check keeps the invariant, for the entries it leaves in the list.\<close>

lemma check_inv:
  "inv (somes es) s \<Longrightarrow> expiry_check expired delete es s = (es', s') \<Longrightarrow> inv (somes es') s'"
  using check_inv_general [of "[]"] by simp

end

text \<open>The entries that remain are entries from before, in their order, and none is nil.\<close>

lemma expiry_check_subset:
  "expiry_check expired delete es s = (es', s') \<Longrightarrow> set (somes es') \<subseteq> set (somes es) \<and> None \<notin> set es'"
proof (induction es arbitrary: s es' s')
  case Nil
  then show ?case by simp
next
  case (Cons x es)
  show ?case
  proof (cases x)
    case None
    with Cons show ?thesis by simp
  next
    case (Some e)
    obtain ok t where d: "delete e s = (ok, t)" by force
    obtain es2 s2 where c: "expiry_check expired delete es (if expired e s then t else s) = (es2, s2)"
      by force
    with Cons.prems d Some have "es' = es2 \<or> es' = Some e # es2" by (auto split: if_splits)
    with Cons.IH [OF c] Some show ?thesis by auto
  qed
qed

text \<open>What no deletion changes, a check does not change.\<close>

lemma expiry_check_preserves:
  assumes "\<And>e s. f (snd (delete e s)) = f s"
  shows "f (snd (expiry_check expired delete es s)) = f s"
proof (induction es arbitrary: s)
  case Nil
  then show ?case by simp
next
  case (Cons x es)
  show ?case
  proof (cases x)
    case None
    with Cons show ?thesis by simp
  next
    case (Some e)
    with Cons.IH [of s] Cons.IH [of "snd (delete e s)"] assms [of e s]
    show ?thesis by (simp add: split_beta)
  qed
qed

end
