(* ===== verification/Prometheus.thy ===== *)
theory Prometheus
  imports Handler Expiry
begin

text \<open>
  The Prometheus application (\<open>plugins/application/prometheus/main.go\<close>): metrics received
  from the bus are cached in collectors, one per number of labels, scraped from there, and
  expired when no new value has arrived.  The objects the code shares by pointer
  (collectors, expiry records) live in heaps indexed by natural numbers.  The Prometheus
  client library is outside the repository: \<open>new_const_metric\<close> stands for
  \<open>prometheus.NewConstMetric\<close> (an error text or the exported sample), the registry is the list
  of the calls the code made to it, and which collectors a registry with that history
  gathers from and what its check of the gathered samples says are parameters of a scrape.
\<close>

section \<open>Data\<close>

text \<open>\<open>prometheus.NewDesc(name, "", labelKeys, nil)\<close>.\<close>

type_synonym prom_desc = "string \<times> string list"

datatype prom_value_type = CounterValue | GaugeValue | UntypedValue

fun typeToPromType :: "metric_type \<Rightarrow> prom_value_type" where
  "typeToPromType COUNTER = CounterValue"
| "typeToPromType GAUGE = GaugeValue"
| "typeToPromType UNTYPED = UntypedValue"

record prom_config =
  promHost :: string
  promPort :: int64
  withTimestamp :: bool
  expirationMultiple :: int64

type_synonym coll_id = nat
type_synonym exp_id = nat

record metric_process =
  description :: prom_desc
  mpExpiry :: exp_id
  mpMetric :: metric
  scrapped :: bool

record prom_collector =
  mProc :: "(string, metric_process) gomap"
  dimensions :: nat
  cacheindexbuilder :: string

text \<open>
  A \<open>metricExpiry\<close>: the time of the last arrival (\<open>None\<close> is the zero time of a fresh
  record) and, for its closure \<open>delete\<close>, the collector and the cache key it captured.
\<close>

record metric_expiry =
  lastArrival :: "int option"
  meCollector :: coll_id
  meKey :: string

definition NewPromCollector :: "nat \<Rightarrow> prom_collector" where
  [simp]: "NewPromCollector n = \<lparr>mProc = [], dimensions = n, cacheindexbuilder = []\<rparr>"

text \<open>\<open>syncMapLen\<close> counts while it ranges over the map.\<close>

definition syncMapLen :: "('k, 'v) gomap \<Rightarrow> nat" where
  "syncMapLen m = foldl (\<lambda>len kv. len + 1) 0 m"

lemma syncMapLen_length [simp]: "syncMapLen m = length m"
proof -
  have "foldl (\<lambda>len kv. len + 1) n m = n + length m" for n
    by (induction m arbitrary: n) simp_all
  then show ?thesis by (simp add: syncMapLen_def)
qed

text \<open>A \<open>collectorExpiry\<close>: the collector and the number of labels its closure captured.\<close>

type_synonym coll_expiry = "coll_id \<times> nat"

text \<open>
  A call to the registry: \<open>MustRegister\<close> with the descriptors that the collector's
  \<open>Describe\<close> yielded during the call, or \<open>Unregister\<close>.
\<close>

datatype registry_call =
    MustRegister coll_id "prom_desc list"
  | Unregister coll_id "prom_desc list"

text \<open>
  The application.  \<open>metricExpiryProcs\<close> maps a metric interval to the entries of the expiry
  process for it, whose own interval is \<open>expiry_interval\<close>; \<open>now\<close> is the clock.
\<close>

record prom =
  conf :: prom_config
  collectors :: "(nat, coll_id) gomap"
  metricExpiryProcs :: "(int64, exp_id option list) gomap"
  collectorExpiryProc :: "coll_expiry option list"
  registry :: "registry_call list option"
  coll_heap :: "prom_collector list"
  exp_heap :: "metric_expiry list"
  now :: int

definition prom_New :: prom where
  "prom_New =
     \<lparr>conf = \<lparr>promHost = ''127.0.0.1'', promPort = 3000, withTimestamp = False, expirationMultiple = 2\<rparr>,
      collectors = [],
      metricExpiryProcs = [], collectorExpiryProc = [], registry = None, coll_heap = [],
      exp_heap = [], now = 0\<rparr>"

text \<open>\<open>Run\<close> creates the registry.\<close>

definition prom_Run_start :: "prom \<Rightarrow> prom" where
  "prom_Run_start p = p\<lparr>registry := Some []\<rparr>"

text \<open>
  \<open>Config\<close>: \<open>ParseConfig\<close> gives the configuration it leaves behind and its error.
\<close>

definition prom_Config ::
  "(prom_config \<Rightarrow> prom_config \<times> string option) \<Rightarrow> prom \<Rightarrow> prom \<times> string option" where
  "prom_Config ParseConfig p =
     (let (cf, err) = ParseConfig (conf p) in (p\<lparr>conf := cf\<rparr>, err))"

section \<open>Access to the heaps\<close>

definition procs_of :: "prom \<Rightarrow> coll_id \<Rightarrow> (string, metric_process) gomap" where
  "procs_of p c = mProc (coll_heap p ! c)"

definition set_collector :: "coll_id \<Rightarrow> prom_collector \<Rightarrow> prom \<Rightarrow> prom" where
  "set_collector c pc p = p\<lparr>coll_heap := (coll_heap p)[c := pc]\<rparr>"

definition set_procs :: "coll_id \<Rightarrow> (string, metric_process) gomap \<Rightarrow> prom \<Rightarrow> prom" where
  "set_procs c m p = set_collector c ((coll_heap p ! c)\<lparr>mProc := m\<rparr>) p"

definition Describe :: "coll_id \<Rightarrow> prom \<Rightarrow> prom_desc list" where
  "Describe c p = map (\<lambda>(k, mp). description mp) (procs_of p c)"

section \<open>Expiry of metrics and collectors\<close>

definition keepAlive :: "exp_id \<Rightarrow> prom \<Rightarrow> prom" where
  "keepAlive e p =
     p\<lparr>exp_heap := (exp_heap p)[e := (exp_heap p ! e)\<lparr>lastArrival := Some (now p)\<rparr>]\<rparr>"

text \<open>
  \<open>time.Since\<close>, which saturates at the ends of the range of durations; the zero time lies
  further back than any duration reaches.
\<close>

definition time_Since :: "int \<Rightarrow> int option \<Rightarrow> int64" where
  "time_Since t arrival =
     (case arrival of
        None \<Rightarrow> 2 ^ 63 - 1
      | Some l \<Rightarrow> max (- (2 ^ 63)) (min (2 ^ 63 - 1) (t - l)))"

definition metric_Expired :: "int64 \<Rightarrow> exp_id \<Rightarrow> prom \<Rightarrow> bool" where
  "metric_Expired interval e p \<longleftrightarrow> interval \<le> time_Since (now p) (lastArrival (exp_heap p ! e))"

definition metric_Delete :: "exp_id \<Rightarrow> prom \<Rightarrow> bool \<times> prom" where
  "metric_Delete e p =
     (let c = meCollector (exp_heap p ! e); key = meKey (exp_heap p ! e)
      in case map_of (procs_of p c) key of
           None \<Rightarrow> (False, p)
         | Some mp \<Rightarrow>
             if scrapped mp then (True, set_procs c (AList.delete key (procs_of p c)) p)
             else (False, p))"

definition collector_Expired :: "coll_expiry \<Rightarrow> prom \<Rightarrow> bool" where
  "collector_Expired ce p \<longleftrightarrow> syncMapLen (procs_of p (fst ce)) = 0"

definition collector_Delete :: "coll_expiry \<Rightarrow> prom \<Rightarrow> bool \<times> prom" where
  "collector_Delete ce p =
     (True, p\<lparr>registry := map_option (\<lambda>r. r @ [Unregister (fst ce) (Describe (fst ce) p)]) (registry p),
              collectors := AList.delete (snd ce) (collectors p)\<rparr>)"

definition expiry_interval :: "prom \<Rightarrow> int64 \<Rightarrow> int64" where
  "expiry_interval p iv = wrap64 (iv * expirationMultiple (conf p))"

text \<open>
  A check of the expiry process for metrics of interval \<open>iv\<close>, and of the process for
  collectors.
\<close>

definition metric_check :: "int64 \<Rightarrow> prom \<Rightarrow> prom" where
  "metric_check iv p =
     (case map_of (metricExpiryProcs p) iv of
        None \<Rightarrow> p
      | Some entries \<Rightarrow>
          let (entries', p') =
                expiry_check (metric_Expired (expiry_interval p iv)) metric_Delete entries p
          in p'\<lparr>metricExpiryProcs := AList.update iv entries' (metricExpiryProcs p')\<rparr>)"

definition collector_check :: "prom \<Rightarrow> prom" where
  "collector_check p =
     (let (entries', p') =
            expiry_check collector_Expired collector_Delete (collectorExpiryProc p) p
      in p'\<lparr>collectorExpiryProc := entries'\<rparr>)"

section \<open>Receiving a metric\<close>

text \<open>
  The three parts of \<open>ReceiveMetric\<close>: finding or creating the collector (which panics while
  there is no registry yet), finding or creating the expiry process, and
  \<open>UpdateMetrics\<close> on the collector.
\<close>

definition find_collector :: "metric \<Rightarrow> prom \<Rightarrow> (prom \<times> coll_id) go" where
  "find_collector m p =
     (let n = length (mLabelKeys m)
      in case map_of (collectors p) n of
           Some c \<Rightarrow> Inr (p, c)
         | None \<Rightarrow>
             let c = length (coll_heap p);
                 p1 = p\<lparr>coll_heap := coll_heap p @ [NewPromCollector n],
                        collectors := AList.update n c (collectors p),
                        collectorExpiryProc := register (c, n) (collectorExpiryProc p)\<rparr>
             in case registry p1 of
                  None \<Rightarrow> Inl Nil_Dereference
                | Some r \<Rightarrow> Inr (p1\<lparr>registry := Some (r @ [MustRegister c (Describe c p1)])\<rparr>, c))"

definition find_expiry_proc :: "metric \<Rightarrow> prom \<Rightarrow> prom" where
  "find_expiry_proc m p =
     (case map_of (metricExpiryProcs p) (mInterval m) of
        Some entries \<Rightarrow> p
      | None \<Rightarrow> p\<lparr>metricExpiryProcs := AList.update (mInterval m) newExpiryProc (metricExpiryProcs p)\<rparr>)"

definition register_metric_expiry :: "int64 \<Rightarrow> exp_id \<Rightarrow> prom \<Rightarrow> prom" where
  "register_metric_expiry iv e p =
     (case map_of (metricExpiryProcs p) iv of
        None \<Rightarrow> p
      | Some entries \<Rightarrow>
          p\<lparr>metricExpiryProcs := AList.update iv (register e entries) (metricExpiryProcs p)\<rparr>)"

definition reset_builder :: "coll_id \<Rightarrow> prom \<Rightarrow> prom" where
  "reset_builder c p = set_collector c ((coll_heap p ! c)\<lparr>cacheindexbuilder := []\<rparr>) p"

text \<open>The builder is written to first; its contents are the cache key.\<close>

definition build_cache_key :: "coll_id \<Rightarrow> metric \<Rightarrow> prom \<Rightarrow> prom" where
  "build_cache_key c m p =
     set_collector c ((coll_heap p ! c)\<lparr>cacheindexbuilder :=
       cacheindexbuilder (coll_heap p ! c) @ mName m @ concat (mLabelVals m)\<rparr>) p"

definition UpdateMetrics :: "coll_id \<Rightarrow> metric \<Rightarrow> prom \<Rightarrow> prom" where
  "UpdateMetrics c m p0 =
     (let p = build_cache_key c m p0;
          cacheKey = cacheindexbuilder (coll_heap p ! c)
      in case map_of (procs_of p c) cacheKey of
           None \<Rightarrow>
             let e = length (exp_heap p);
                 mp = \<lparr>description = (mName m, mLabelKeys m), mpExpiry = e, mpMetric = m,
                       scrapped = False\<rparr>;
                 p1 = set_procs c (AList.update cacheKey mp (procs_of p c)) p;
                 p2 = p1\<lparr>exp_heap := exp_heap p1
                           @ [\<lparr>lastArrival = None, meCollector = c, meKey = cacheKey\<rparr>]\<rparr>
             in reset_builder c (keepAlive e (register_metric_expiry (mInterval m) e p2))
         | Some mp \<Rightarrow>
             let mp' = mp\<lparr>mpMetric := m\<lparr>mInterval := mInterval (mpMetric mp)\<rparr>\<rparr>;
                 p1 = set_procs c (AList.update cacheKey mp' (procs_of p c)) p
             in reset_builder c (keepAlive (mpExpiry mp) p1))"

definition ReceiveMetric :: "metric \<Rightarrow> prom \<Rightarrow> prom go" where
  "ReceiveMetric m p =
     go_bind (find_collector m p) (\<lambda>(p1, c).
       Inr (UpdateMetrics c m (find_expiry_proc m p1)))"

section \<open>Scraping\<close>

text \<open>
  \<open>Collect\<close> on one collector: every cached metric is marked as scraped, then exported, with
  its timestamp if the configuration asks for one and the metric has one.  A metric the
  library rejects is logged and skipped.
\<close>

definition collect_one ::
  "(prom_desc \<Rightarrow> prom_value_type \<Rightarrow> float64 \<Rightarrow> string list \<Rightarrow> string + 's) \<Rightarrow> bool
     \<Rightarrow> metric_process \<Rightarrow> ('s \<times> int64 option) list" where
  "collect_one new_const_metric with_ts mp =
     (case new_const_metric (description mp) (typeToPromType (mType (mpMetric mp)))
             (mValue (mpMetric mp)) (mLabelVals (mpMetric mp)) of
        Inl err \<Rightarrow> []
      | Inr s \<Rightarrow>
          if with_ts then
            (if mTime (mpMetric mp) = 0 then [(s, None)]
             else [(s, Some (int64_of_f64 (mTime (mpMetric mp))))])
          else [(s, None)])"

definition Collect ::
  "(prom_desc \<Rightarrow> prom_value_type \<Rightarrow> float64 \<Rightarrow> string list \<Rightarrow> string + 's)
     \<Rightarrow> coll_id \<Rightarrow> prom \<Rightarrow> prom \<times> ('s \<times> int64 option) list" where
  "Collect new_const_metric c p =
     (set_procs c (map (\<lambda>(k, mp). (k, mp\<lparr>scrapped := True\<rparr>)) (procs_of p c)) p,
      concat (map (\<lambda>(k, mp). collect_one new_const_metric (withTimestamp (conf p)) mp)
                (procs_of p c)))"

text \<open>The library collects from every collector it gathers from.\<close>

fun collect_all ::
  "(prom_desc \<Rightarrow> prom_value_type \<Rightarrow> float64 \<Rightarrow> string list \<Rightarrow> string + 's)
     \<Rightarrow> coll_id list \<Rightarrow> prom \<Rightarrow> prom \<times> ('s \<times> int64 option) list" where
  "collect_all ncm [] p = (p, [])"
| "collect_all ncm (c # cs) p =
     (let (p', out) = Collect ncm c p; (p'', out') = collect_all ncm cs p' in (p'', out @ out'))"

definition gather ::
  "(registry_call list \<Rightarrow> coll_id list)
     \<Rightarrow> (prom_desc \<Rightarrow> prom_value_type \<Rightarrow> float64 \<Rightarrow> string list \<Rightarrow> string + 's)
     \<Rightarrow> prom \<Rightarrow> prom \<times> ('s \<times> int64 option) list" where
  "gather gathered ncm p =
     (case registry p of None \<Rightarrow> (p, []) | Some r \<Rightarrow> collect_all ncm (gathered r) p)"

text \<open>
  The answer to a request of \<open>/metrics\<close>: \<open>check\<close> is the library's test of what it gathered, an error
  for samples that are not consistent (two of the same name and labels, two types under one name).
  With the \<open>HandlerOpts{}\<close> that the code passes, an error is answered by the status 500 and its text
  (\<open>Inl\<close>) instead of the samples (\<open>Inr\<close>).  The metrics have been marked as scraped by then.
\<close>

definition scrape ::
  "(registry_call list \<Rightarrow> coll_id list)
     \<Rightarrow> (('s \<times> int64 option) list \<Rightarrow> string option)
     \<Rightarrow> (prom_desc \<Rightarrow> prom_value_type \<Rightarrow> float64 \<Rightarrow> string list \<Rightarrow> string + 's)
     \<Rightarrow> prom \<Rightarrow> prom \<times> (string + ('s \<times> int64 option) list)" where
  "scrape gathered check new_const_metric p =
     (let (p', samples) = gather gathered new_const_metric p
      in (p', case check samples of Some err \<Rightarrow> Inl err | None \<Rightarrow> Inr samples))"

text \<open>
  What the client library documents of its registry, as far as the application uses it:
  every collector is gathered from that was registered while its \<open>Describe\<close> yielded nothing
  (an \<open>unchecked\<close> collector, which cannot be unregistered), once if it was registered once.
  Nothing else is gathered from when all registered collectors are unchecked.
\<close>

fun registrations :: "registry_call list \<Rightarrow> (coll_id \<times> prom_desc list) list" where
  "registrations [] = []"
| "registrations (MustRegister c ds # r) = (c, ds) # registrations r"
| "registrations (Unregister c ds # r) = registrations r"

definition unchecked_registry :: "(registry_call list \<Rightarrow> coll_id list) \<Rightarrow> bool" where
  "unchecked_registry gathered \<longleftrightarrow>
     (\<forall>r. list_all (\<lambda>(c, ds). ds = []) (registrations r) \<longrightarrow>
          distinct (map fst (registrations r)) \<longrightarrow>
          mset (gathered r) = mset (map fst (registrations r)))"

lemma registrations_append [simp]: "registrations (r @ r') = registrations r @ registrations r'"
  by (induction r rule: registrations.induct) simp_all

end
