(* ===== verification/PrometheusInv.thy ===== *)
theory PrometheusInv
  imports Prometheus
begin

text \<open>
  The invariant that ties the Prometheus application's data structures together, and the
  proof that every operation keeps it.  Every cached metric has exactly one entry in the
  expiry processes and every entry leads to a cached metric; every collector in the map
  has one entry in the collector expiry process; a collector that is no longer in the map is
  empty; every collector was registered once, when it was empty.
\<close>

section \<open>Heap access\<close>

lemma set_collector_simps [simp]:
  "conf (set_collector c pc p) = conf p"
  "collectors (set_collector c pc p) = collectors p"
  "metricExpiryProcs (set_collector c pc p) = metricExpiryProcs p"
  "collectorExpiryProc (set_collector c pc p) = collectorExpiryProc p"
  "registry (set_collector c pc p) = registry p"
  "exp_heap (set_collector c pc p) = exp_heap p"
  "now (set_collector c pc p) = now p"
  "length (coll_heap (set_collector c pc p)) = length (coll_heap p)"
  by (simp_all add: set_collector_def)

lemma coll_heap_set_collector [simp]:
  "c < length (coll_heap p) \<Longrightarrow>
     coll_heap (set_collector c pc p) ! d = (if d = c then pc else coll_heap p ! d)"
  by (simp add: set_collector_def)

lemma keepAlive_simps [simp]:
  "conf (keepAlive e p) = conf p"
  "collectors (keepAlive e p) = collectors p"
  "metricExpiryProcs (keepAlive e p) = metricExpiryProcs p"
  "collectorExpiryProc (keepAlive e p) = collectorExpiryProc p"
  "registry (keepAlive e p) = registry p"
  "coll_heap (keepAlive e p) = coll_heap p"
  "now (keepAlive e p) = now p"
  "length (exp_heap (keepAlive e p)) = length (exp_heap p)"
  by (simp_all add: keepAlive_def)

lemma exp_heap_keepAlive [simp]:
  "i < length (exp_heap p) \<Longrightarrow> meCollector (exp_heap (keepAlive e p) ! i) = meCollector (exp_heap p ! i)"
  "i < length (exp_heap p) \<Longrightarrow> meKey (exp_heap (keepAlive e p) ! i) = meKey (exp_heap p ! i)"
  by (cases "e = i"; simp add: keepAlive_def)+

lemma set_procs_simps [simp]:
  "conf (set_procs c m p) = conf p"
  "collectors (set_procs c m p) = collectors p"
  "metricExpiryProcs (set_procs c m p) = metricExpiryProcs p"
  "collectorExpiryProc (set_procs c m p) = collectorExpiryProc p"
  "registry (set_procs c m p) = registry p"
  "exp_heap (set_procs c m p) = exp_heap p"
  "now (set_procs c m p) = now p"
  "length (coll_heap (set_procs c m p)) = length (coll_heap p)"
  by (simp_all add: set_procs_def)

lemma heap_set_procs [simp]:
  assumes "c < length (coll_heap p)"
  shows "procs_of (set_procs c m p) d = (if d = c then m else procs_of p d)"
    and "dimensions (coll_heap (set_procs c m p) ! d) = dimensions (coll_heap p ! d)"
    and "cacheindexbuilder (coll_heap (set_procs c m p) ! d) = cacheindexbuilder (coll_heap p ! d)"
  using assms by (simp_all add: set_procs_def procs_of_def)

lemma procs_of_keepAlive [simp]: "procs_of (keepAlive e p) c = procs_of p c"
  by (simp add: procs_of_def)

section \<open>The invariant\<close>

definition heap_wf :: "prom \<Rightarrow> bool" where
  "heap_wf p \<longleftrightarrow>
     gomap_wf (collectors p) \<and> gomap_wf (metricExpiryProcs p)
     \<and> (\<forall>n c. map_of (collectors p) n = Some c \<longrightarrow>
           c < length (coll_heap p) \<and> dimensions (coll_heap p ! c) = n)
     \<and> (\<forall>c < length (coll_heap p). gomap_wf (procs_of p c)
           \<and> cacheindexbuilder (coll_heap p ! c) = [])"

text \<open>\<open>live\<close> are the entries of the metric expiry processes.\<close>

definition entry_ok :: "prom \<Rightarrow> exp_id \<Rightarrow> bool" where
  "entry_ok p e \<longleftrightarrow>
     e < length (exp_heap p) \<and> meCollector (exp_heap p ! e) < length (coll_heap p)
     \<and> (\<exists>mp. map_of (procs_of p (meCollector (exp_heap p ! e))) (meKey (exp_heap p ! e)) = Some mp
            \<and> mpExpiry mp = e)"

definition proc_ok :: "exp_id list \<Rightarrow> prom \<Rightarrow> coll_id \<Rightarrow> string \<Rightarrow> metric_process \<Rightarrow> bool" where
  "proc_ok live p c k mp \<longleftrightarrow>
     mpExpiry mp \<in> set live \<and> meCollector (exp_heap p ! mpExpiry mp) = c
     \<and> meKey (exp_heap p ! mpExpiry mp) = k"

definition entries_wf :: "exp_id list \<Rightarrow> prom \<Rightarrow> bool" where
  "entries_wf live p \<longleftrightarrow>
     distinct live \<and> (\<forall>e \<in> set live. entry_ok p e)
     \<and> (\<forall>c k mp. c < length (coll_heap p) \<longrightarrow> map_of (procs_of p c) k = Some mp \<longrightarrow>
           proc_ok live p c k mp)"

definition ces_wf :: "coll_expiry list \<Rightarrow> prom \<Rightarrow> bool" where
  "ces_wf ces p \<longleftrightarrow>
     distinct ces \<and> (\<forall>c n. (c, n) \<in> set ces \<longleftrightarrow> map_of (collectors p) n = Some c)
     \<and> (\<forall>c < length (coll_heap p). procs_of p c \<noteq> [] \<longrightarrow>
           map_of (collectors p) (dimensions (coll_heap p ! c)) = Some c)
     \<and> (case registry p of
          None \<Rightarrow> coll_heap p = []
        | Some r \<Rightarrow> registrations r = map (\<lambda>c. (c, [])) [0..<length (coll_heap p)])"

definition live_entries :: "prom \<Rightarrow> exp_id list" where
  "live_entries p = concat (map (\<lambda>(iv, es). somes es) (metricExpiryProcs p))"

definition prom_wf :: "prom \<Rightarrow> bool" where
  "prom_wf p \<longleftrightarrow>
     heap_wf p \<and> entries_wf (live_entries p) p \<and> ces_wf (somes (collectorExpiryProc p)) p"

text \<open>The data in a collector: its keys, and the label counts of its metrics.\<close>

definition proc_data_ok :: "nat \<Rightarrow> string \<Rightarrow> metric_process \<Rightarrow> bool" where
  "proc_data_ok n k mp \<longleftrightarrow>
     k = mName (mpMetric mp) @ concat (mLabelVals (mpMetric mp))
     \<and> length (snd (description mp)) = n \<and> length (mLabelVals (mpMetric mp)) = n"

definition data_wf :: "prom \<Rightarrow> bool" where
  "data_wf p \<longleftrightarrow>
     (\<forall>c k mp. c < length (coll_heap p) \<longrightarrow> map_of (procs_of p c) k = Some mp \<longrightarrow>
        proc_data_ok (dimensions (coll_heap p ! c)) k mp)"

section \<open>Lists of entries\<close>

lemma entries_wf_mset: "mset xs = mset ys \<Longrightarrow> entries_wf xs p \<Longrightarrow> entries_wf ys p"
  by (auto simp: entries_wf_def proc_ok_def dest: mset_eq_setD mset_eq_imp_distinct_iff)

lemma live_update_existing:
  assumes "gomap_wf m" and "map_of m iv = Some es"
  shows "\<exists>others. mset (concat (map (\<lambda>(iv, es). somes es) m)) = mset (others @ somes es)
          \<and> (\<forall>es'. mset (concat (map (\<lambda>(iv, es). somes es) (AList.update iv es' m)))
                    = mset (others @ somes es'))"
  using assms
proof (induction m)
  case Nil
  then show ?case by simp
next
  case (Cons x m)
  obtain jv fs where x: "x = (jv, fs)" by force
  show ?case
  proof (cases "jv = iv")
    case True
    with Cons.prems x show ?thesis
      by (intro exI [of _ "concat (map (\<lambda>(iv, es). somes es) m)"]) (simp add: gomap_wf_def)
  next
    case False
    with Cons x obtain others where
      "mset (concat (map (\<lambda>(iv, es). somes es) m)) = mset (others @ somes es)"
      "\<forall>es'. mset (concat (map (\<lambda>(iv, es). somes es) (AList.update iv es' m)))
              = mset (others @ somes es')"
      by (auto simp: gomap_wf_def)
    with False x show ?thesis by (intro exI [of _ "somes fs @ others"]) simp
  qed
qed

lemma AList_update_fresh: "map_of m k = None \<Longrightarrow> AList.update k v m = m @ [(k, v)]"
  by (induction m) (auto split: if_splits)

section \<open>The checks keep the invariant\<close>

lemma entries_wf_delete:
  assumes wf: "entries_wf (e # es) p" and heap: "heap_wf p"
    and c: "c = meCollector (exp_heap p ! e)" and k: "k = meKey (exp_heap p ! e)"
  shows "entries_wf es (set_procs c (AList.delete k (procs_of p c)) p)"
proof -
  let ?q = "set_procs c (AList.delete k (procs_of p c)) p"
  from wf c k have cl: "c < length (coll_heap p)" and e: "entry_ok p e"
    by (simp_all add: entries_wf_def entry_ok_def)
  from e c k obtain mp where mp: "map_of (procs_of p c) k = Some mp" "mpExpiry mp = e"
    by (auto simp: entry_ok_def)
  have "entry_ok ?q x" if x: "x \<in> set es" for x
  proof -
    have "x \<noteq> e" using wf x by (auto simp: entries_wf_def)
    moreover from wf x obtain mx where ok: "entry_ok p x"
      and mx: "map_of (procs_of p (meCollector (exp_heap p ! x))) (meKey (exp_heap p ! x)) = Some mx"
        "mpExpiry mx = x"
      by (auto simp: entries_wf_def entry_ok_def)
    ultimately have "\<not> (meCollector (exp_heap p ! x) = c \<and> meKey (exp_heap p ! x) = k)"
      using mp by auto
    with ok mx cl show ?thesis by (auto simp: entry_ok_def)
  qed
  moreover have "proc_ok es ?q d j mj"
    if d: "d < length (coll_heap p)" and j: "map_of (procs_of ?q d) j = Some mj" for d j mj
  proof -
    from j cl have "map_of (procs_of p d) j = Some mj" and ne: "\<not> (d = c \<and> j = k)"
      by (auto split: if_splits)
    with wf d have ok: "proc_ok (e # es) p d j mj" by (simp add: entries_wf_def)
    with ne c k have "mpExpiry mj \<noteq> e" by (auto simp: proc_ok_def)
    with ok show ?thesis by (auto simp: proc_ok_def)
  qed
  ultimately show ?thesis using wf by (simp add: entries_wf_def)
qed

lemma heap_wf_set_procs:
  "heap_wf p \<Longrightarrow> c < length (coll_heap p) \<Longrightarrow> gomap_wf m \<Longrightarrow> heap_wf (set_procs c m p)"
  by (simp add: heap_wf_def)

lemma ces_wf_set_procs:
  "ces_wf ces p \<Longrightarrow> c < length (coll_heap p) \<Longrightarrow> (m \<noteq> [] \<Longrightarrow> procs_of p c \<noteq> []) \<Longrightarrow>
     ces_wf ces (set_procs c m p)"
  by (simp add: ces_wf_def split: option.splits)

lemma data_wf_set_procs:
  "data_wf p \<Longrightarrow> c < length (coll_heap p) \<Longrightarrow>
     (\<And>k mp. map_of m k = Some mp \<Longrightarrow> proc_data_ok (dimensions (coll_heap p ! c)) k mp) \<Longrightarrow>
     data_wf (set_procs c m p)"
  by (simp add: data_wf_def)

text \<open>The invariant with the entries that a check is walking through singled out.\<close>

definition metric_inv :: "exp_id list \<Rightarrow> exp_id list \<Rightarrow> prom \<Rightarrow> bool" where
  "metric_inv others es p \<longleftrightarrow>
     heap_wf p \<and> entries_wf (others @ es) p \<and> ces_wf (somes (collectorExpiryProc p)) p \<and> data_wf p"

definition coll_inv :: "coll_expiry list \<Rightarrow> prom \<Rightarrow> bool" where
  "coll_inv ces p \<longleftrightarrow>
     heap_wf p \<and> entries_wf (live_entries p) p \<and> ces_wf ces p \<and> data_wf p"

lemma metric_Delete_True:
  assumes "metric_Delete e p = (True, q)"
  shows "q = set_procs (meCollector (exp_heap p ! e))
               (AList.delete (meKey (exp_heap p ! e)) (procs_of p (meCollector (exp_heap p ! e)))) p"
  using assms by (simp add: metric_Delete_def Let_def split: option.splits if_splits)

lemma metric_Delete_False: "metric_Delete e p = (False, q) \<Longrightarrow> q = p"
  by (simp add: metric_Delete_def Let_def split: option.splits if_splits)

lemma metric_inv_delete:
  assumes inv: "metric_inv others (e # es) p" and d: "metric_Delete e p = (True, q)"
  shows "metric_inv others es q"
proof -
  let ?c = "meCollector (exp_heap p ! e)" and ?k = "meKey (exp_heap p ! e)"
  have ent: "entries_wf (e # (others @ es)) p"
    using inv by (auto simp: metric_inv_def intro: entries_wf_mset [rotated])
  then have cl: "?c < length (coll_heap p)" by (simp add: entries_wf_def entry_ok_def)
  note q = metric_Delete_True [OF d]
  have heap: "heap_wf p" using inv by (simp add: metric_inv_def)
  have "gomap_wf (procs_of p ?c)" using heap cl by (simp add: heap_wf_def)
  moreover have "procs_of p ?c \<noteq> []" if "AList.delete ?k (procs_of p ?c) \<noteq> []"
    using that by auto
  moreover have "data_wf q"
    unfolding q using inv cl
    by (intro data_wf_set_procs) (auto simp: metric_inv_def data_wf_def split: if_splits)
  ultimately show ?thesis
    using inv cl entries_wf_delete [OF ent heap refl refl] heap_wf_set_procs [OF heap cl]
      ces_wf_set_procs [OF _ cl]
    by (simp add: metric_inv_def q)
qed

interpretation metric_expirable:
  expirable "metric_Expired iv" metric_Delete "metric_inv others" for iv others
proof unfold_locales
  fix xs ys p
  assume "mset xs = mset ys" and "metric_inv others xs p"
  then show "metric_inv others ys p"
    by (auto simp: metric_inv_def intro: entries_wf_mset [rotated])
qed (auto dest: metric_Delete_False intro: metric_inv_delete)

lemma coll_inv_delete:
  assumes inv: "coll_inv (ce # ces) p" and ex: "collector_Expired ce p"
    and d: "collector_Delete ce p = (True, q)"
  shows "coll_inv ces q"
proof -
  obtain c n where ce: "ce = (c, n)" by force
  from d ce have q: "q = p\<lparr>registry := map_option (\<lambda>r. r @ [Unregister c (Describe c p)]) (registry p),
                           collectors := AList.delete n (collectors p)\<rparr>"
    by (simp add: collector_Delete_def)
  from inv ce have heap: "heap_wf p" and ces: "ces_wf ((c, n) # ces) p" by (simp_all add: coll_inv_def)
  then have cn: "map_of (collectors p) n = Some c"
    unfolding ces_wf_def by (metis list.set_intros(1))
  have uniq: "m = n" if "map_of (collectors p) m = Some c" for m
    using heap cn that unfolding heap_wf_def by metis
  have empty: "procs_of p c = []" using ex ce by (simp add: collector_Expired_def)
  have heap': "heap_wf q" using heap by (auto simp: heap_wf_def q procs_of_def)
  have "ces_wf ces q"
    unfolding ces_wf_def
  proof (intro conjI allI impI)
    show "distinct ces" using ces by (simp add: ces_wf_def)
    fix d m
    have iff: "(d, m) \<in> set ((c, n) # ces) \<longleftrightarrow> map_of (collectors p) m = Some d"
      using ces unfolding ces_wf_def by blast
    have new: "(c, n) \<notin> set ces" using ces by (simp add: ces_wf_def)
    show "(d, m) \<in> set ces \<longleftrightarrow> map_of (collectors q) m = Some d"
    proof (cases "m = n")
      case True
      with iff new cn show ?thesis by (auto simp: q)
    next
      case False
      with iff show ?thesis by (simp add: q)
    qed
  next
    fix d
    assume d: "d < length (coll_heap q)" "procs_of q d \<noteq> []"
    then have "map_of (collectors p) (dimensions (coll_heap p ! d)) = Some d"
      using ces by (simp add: ces_wf_def q procs_of_def)
    moreover have "d \<noteq> c" using d empty by (auto simp: q procs_of_def)
    ultimately show "map_of (collectors q) (dimensions (coll_heap q ! d)) = Some d"
      using cn by (auto simp: q)
  next
    show "case registry q of None \<Rightarrow> coll_heap q = []
          | Some r \<Rightarrow> registrations r = map (\<lambda>c. (c, [])) [0..<length (coll_heap q)]"
      using ces by (simp add: ces_wf_def q split: option.splits)
  qed
  with heap' inv show ?thesis
    by (auto simp: coll_inv_def q entries_wf_def entry_ok_def proc_ok_def procs_of_def data_wf_def
        live_entries_def)
qed

interpretation collector_expirable: expirable collector_Expired collector_Delete coll_inv
proof unfold_locales
  fix xs ys p
  assume "mset xs = mset ys" and "coll_inv xs p"
  then show "coll_inv ys p"
    by (auto simp: coll_inv_def ces_wf_def dest: mset_eq_setD mset_eq_imp_distinct_iff)
qed (auto simp: collector_Delete_def intro: coll_inv_delete)

definition prom_inv :: "prom \<Rightarrow> bool" where
  "prom_inv p \<longleftrightarrow> prom_wf p \<and> data_wf p"

lemma metric_Delete_frame [simp]:
  "conf (snd (metric_Delete e p)) = conf p"
  "collectors (snd (metric_Delete e p)) = collectors p"
  "metricExpiryProcs (snd (metric_Delete e p)) = metricExpiryProcs p"
  "collectorExpiryProc (snd (metric_Delete e p)) = collectorExpiryProc p"
  "registry (snd (metric_Delete e p)) = registry p"
  "exp_heap (snd (metric_Delete e p)) = exp_heap p"
  "now (snd (metric_Delete e p)) = now p"
  "length (coll_heap (snd (metric_Delete e p))) = length (coll_heap p)"
  by (simp_all add: metric_Delete_def Let_def split: option.split)

lemmas metric_check_frame =
  expiry_check_preserves [of metricExpiryProcs metric_Delete]
  expiry_check_preserves [of exp_heap metric_Delete]
  expiry_check_preserves [of now metric_Delete]
  expiry_check_preserves [of conf metric_Delete]

lemma collector_Delete_frame [simp]:
  "metricExpiryProcs (snd (collector_Delete ce p)) = metricExpiryProcs p"
  "coll_heap (snd (collector_Delete ce p)) = coll_heap p"
  "exp_heap (snd (collector_Delete ce p)) = exp_heap p"
  by (simp_all add: collector_Delete_def)

lemma gomap_wf_mep_irrelevant:
  "gomap_wf m \<Longrightarrow> heap_wf p \<Longrightarrow> heap_wf (p\<lparr>metricExpiryProcs := m\<rparr>)"
  by (simp add: heap_wf_def procs_of_def)

lemma wf_metricExpiryProcs_irrelevant [simp]:
  "entries_wf l (p\<lparr>metricExpiryProcs := m\<rparr>) = entries_wf l p"
  "ces_wf ces (p\<lparr>metricExpiryProcs := m\<rparr>) = ces_wf ces p"
  "data_wf (p\<lparr>metricExpiryProcs := m\<rparr>) = data_wf p"
  by (simp_all add: entries_wf_def entry_ok_def proc_ok_def ces_wf_def data_wf_def procs_of_def
      split: option.split)

lemma wf_collectorExpiryProc_irrelevant [simp]:
  "heap_wf (p\<lparr>collectorExpiryProc := x\<rparr>) = heap_wf p"
  "entries_wf l (p\<lparr>collectorExpiryProc := x\<rparr>) = entries_wf l p"
  "ces_wf ces (p\<lparr>collectorExpiryProc := x\<rparr>) = ces_wf ces p"
  "data_wf (p\<lparr>collectorExpiryProc := x\<rparr>) = data_wf p"
  "live_entries (p\<lparr>collectorExpiryProc := x\<rparr>) = live_entries p"
  by (simp_all add: heap_wf_def entries_wf_def entry_ok_def proc_ok_def ces_wf_def data_wf_def
      procs_of_def live_entries_def split: option.split)

lemma metric_check_inv:
  assumes "prom_inv p"
  shows "prom_inv (metric_check iv p)"
proof (cases "map_of (metricExpiryProcs p) iv")
  case None
  with assms show ?thesis by (simp add: metric_check_def)
next
  case (Some entries)
  have wf: "gomap_wf (metricExpiryProcs p)" "heap_wf p"
    using assms by (simp_all add: prom_inv_def prom_wf_def heap_wf_def)
  obtain others where live: "mset (live_entries p) = mset (others @ somes entries)"
    and upd: "\<And>es'. mset (concat (map (\<lambda>(iv, es). somes es) (AList.update iv es' (metricExpiryProcs p))))
                = mset (others @ somes es')"
    using live_update_existing [OF wf(1) Some] by (auto simp: live_entries_def)
  obtain entries' q where c:
    "expiry_check (metric_Expired (expiry_interval p iv)) metric_Delete entries p = (entries', q)"
    by force
  have "metric_inv others (somes entries) p"
    using assms live by (auto simp: metric_inv_def prom_inv_def prom_wf_def intro: entries_wf_mset)
  from metric_expirable.check_inv [OF this c]
  have inv: "metric_inv others (somes entries') q" .
  have frame: "metricExpiryProcs q = metricExpiryProcs p"
    using metric_check_frame(1) [of "metric_Expired (expiry_interval p iv)" entries p] c by simp
  let ?m = "AList.update iv entries' (metricExpiryProcs p)"
  have "mset (others @ somes entries') = mset (live_entries (q\<lparr>metricExpiryProcs := ?m\<rparr>))"
    using upd by (simp add: live_entries_def)
  from entries_wf_mset [OF this] inv
  have "entries_wf (live_entries (q\<lparr>metricExpiryProcs := ?m\<rparr>)) q" by (simp add: metric_inv_def)
  with inv wf(1) have "prom_inv (q\<lparr>metricExpiryProcs := ?m\<rparr>)"
    by (simp add: prom_inv_def prom_wf_def metric_inv_def gomap_wf_mep_irrelevant)
  with Some c frame show ?thesis by (simp add: metric_check_def)
qed

lemma collector_check_inv:
  assumes "prom_inv p"
  shows "prom_inv (collector_check p)"
proof -
  obtain entries q where c:
    "expiry_check collector_Expired collector_Delete (collectorExpiryProc p) p = (entries, q)" by force
  have "coll_inv (somes (collectorExpiryProc p)) p"
    using assms by (simp add: coll_inv_def prom_inv_def prom_wf_def)
  from collector_expirable.check_inv [OF this c] have "coll_inv (somes entries) q" .
  with c show ?thesis by (simp add: collector_check_def prom_inv_def prom_wf_def coll_inv_def)
qed

section \<open>Receiving keeps the invariant\<close>

lemma find_collector_inv:
  assumes "prom_inv p" and "find_collector m p = Inr (q, c)"
  shows "prom_inv q \<and> map_of (collectors q) (length (mLabelKeys m)) = Some c
         \<and> metricExpiryProcs q = metricExpiryProcs p"
proof (cases "map_of (collectors p) (length (mLabelKeys m))")
  case (Some d)
  with assms show ?thesis by (simp add: find_collector_def)
next
  case None
  let ?n = "length (mLabelKeys m)" and ?c = "length (coll_heap p)"
  let ?h = "coll_heap p @ [\<lparr>mProc = [], dimensions = ?n, cacheindexbuilder = []\<rparr>]"
  from None assms(2) obtain r where r: "registry p = Some r" and c: "c = ?c"
    and q: "q = p\<lparr>coll_heap := ?h, collectors := AList.update ?n ?c (collectors p),
                 collectorExpiryProc := register (?c, ?n) (collectorExpiryProc p),
                 registry := Some (r @ [MustRegister ?c []])\<rparr>"
    by (auto simp: find_collector_def Let_def Describe_def procs_of_def split: option.splits)
  have heap: "heap_wf p" and ents: "entries_wf (live_entries p) p"
    and ces: "ces_wf (somes (collectorExpiryProc p)) p" and data: "data_wf p"
    using assms(1) by (simp_all add: prom_inv_def prom_wf_def)
  have old: "d < ?c" if "map_of (collectors p) k = Some d" for k d
    using heap that by (simp add: heap_wf_def)
  have procs: "procs_of q d = (if d < ?c then procs_of p d else if d = ?c then [] else procs_of q d)" for d
    by (simp add: q procs_of_def nth_append)
  have "heap_wf q"
    using heap old by (auto simp: heap_wf_def q procs_of_def nth_append less_Suc_eq)
  moreover have "entries_wf (live_entries q) q"
  proof -
    have "live_entries q = live_entries p" by (simp add: live_entries_def q)
    with ents show ?thesis
      by (auto simp: entries_wf_def entry_ok_def proc_ok_def q procs_of_def nth_append less_Suc_eq)
  qed
  moreover have "data_wf q"
    using data by (auto simp: data_wf_def q procs_of_def nth_append less_Suc_eq)
  moreover have "ces_wf (somes (collectorExpiryProc q)) q"
    unfolding ces_wf_def
  proof (intro conjI allI impI)
    have set: "(d, k) \<in> set (somes (collectorExpiryProc p)) \<longleftrightarrow> map_of (collectors p) k = Some d" for d k
      using ces by (simp add: ces_wf_def)
    show "distinct (somes (collectorExpiryProc q))"
      using ces set [of ?c ?n] None by (simp add: q register_def ces_wf_def)
    fix d k
    show "(d, k) \<in> set (somes (collectorExpiryProc q)) \<longleftrightarrow> map_of (collectors q) k = Some d"
      using set [of d k] None by (auto simp: q register_def)
  next
    fix d
    assume d: "d < length (coll_heap q)" "procs_of q d \<noteq> []"
    with procs [of d] have "d < ?c" "procs_of p d \<noteq> []" by (auto simp: q split: if_splits)
    with ces have "map_of (collectors p) (dimensions (coll_heap p ! d)) = Some d"
      by (simp add: ces_wf_def)
    with None \<open>d < ?c\<close> show "map_of (collectors q) (dimensions (coll_heap q ! d)) = Some d"
      by (auto simp: q nth_append)
  next
    show "case registry q of None \<Rightarrow> coll_heap q = []
        | Some r \<Rightarrow> registrations r = map (\<lambda>c. (c, [])) [0..<length (coll_heap q)]"
      using ces r by (simp add: ces_wf_def q)
  qed
  ultimately show ?thesis using c by (simp add: prom_inv_def prom_wf_def q)
qed

lemma find_expiry_proc_inv:
  assumes "prom_inv p"
  shows "prom_inv (find_expiry_proc m p)
         \<and> collectors (find_expiry_proc m p) = collectors p
         \<and> (\<exists>es. map_of (metricExpiryProcs (find_expiry_proc m p)) (mInterval m) = Some es)"
proof (cases "map_of (metricExpiryProcs p) (mInterval m)")
  case (Some es)
  with assms show ?thesis by (simp add: find_expiry_proc_def)
next
  case None
  have "gomap_wf (AList.update (mInterval m) [] (metricExpiryProcs p))"
    using assms by (simp add: prom_inv_def prom_wf_def heap_wf_def)
  moreover have "live_entries (p\<lparr>metricExpiryProcs := AList.update (mInterval m) [] (metricExpiryProcs p)\<rparr>)
           = live_entries p"
    using None by (simp add: live_entries_def AList_update_fresh)
  ultimately show ?thesis using assms None
    by (simp add: find_expiry_proc_def prom_inv_def prom_wf_def gomap_wf_mep_irrelevant)
qed

definition cache_key :: "metric \<Rightarrow> string" where
  "cache_key m = mName m @ concat (mLabelVals m)"

text \<open>The state with a new cached metric, before its expiry record is registered.\<close>

definition add_proc :: "coll_id \<Rightarrow> metric \<Rightarrow> prom \<Rightarrow> prom" where
  "add_proc c m p =
     (set_procs c
        (AList.update (cache_key m)
           \<lparr>description = (mName m, mLabelKeys m), mpExpiry = length (exp_heap p), mpMetric = m,
            scrapped = False\<rparr> (procs_of p c)) p)
     \<lparr>exp_heap := exp_heap p @ [\<lparr>lastArrival = None, meCollector = c, meKey = cache_key m\<rparr>]\<rparr>"

definition refresh_proc :: "coll_id \<Rightarrow> metric \<Rightarrow> metric_process \<Rightarrow> prom \<Rightarrow> prom" where
  "refresh_proc c m mp p =
     set_procs c
       (AList.update (cache_key m)
          (mp\<lparr>mpMetric := m\<lparr>mInterval := mInterval (mpMetric mp)\<rparr>\<rparr>) (procs_of p c)) p"

lemma collector_builder_eq:
  "cacheindexbuilder pc = [] \<Longrightarrow> pc\<lparr>mProc := x, cacheindexbuilder := []\<rparr> = pc\<lparr>mProc := x\<rparr>"
  by (cases pc) simp

text \<open>
  \<open>UpdateMetrics\<close> without the string builder, which is empty between calls.
\<close>

lemma UpdateMetrics_eq:
  assumes "c < length (coll_heap p)" and "cacheindexbuilder (coll_heap p ! c) = []"
  shows "UpdateMetrics c m p =
     (case map_of (procs_of p c) (cache_key m) of
        None \<Rightarrow> keepAlive (length (exp_heap p))
                  (register_metric_expiry (mInterval m) (length (exp_heap p)) (add_proc c m p))
      | Some mp \<Rightarrow> keepAlive (mpExpiry mp) (refresh_proc c m mp p))"
proof -
  have k: "cacheindexbuilder (coll_heap (build_cache_key c m p) ! c) = cache_key m"
    "procs_of (build_cache_key c m p) c = procs_of p c"
    "exp_heap (build_cache_key c m p) = exp_heap p"
    using assms by (simp_all add: build_cache_key_def cache_key_def procs_of_def)
  show ?thesis
    using assms
    by (simp add: UpdateMetrics_def Let_def k split: option.split)
       (simp add: add_proc_def refresh_proc_def set_procs_def set_collector_def procs_of_def
          build_cache_key_def reset_builder_def keepAlive_def register_metric_expiry_def
          collector_builder_eq split: option.split)
qed

lemma keepAlive_wf [simp]:
  "heap_wf (keepAlive e p) = heap_wf p"
  "ces_wf ces (keepAlive e p) = ces_wf ces p"
  "data_wf (keepAlive e p) = data_wf p"
  "live_entries (keepAlive e p) = live_entries p"
  by (simp_all add: heap_wf_def ces_wf_def data_wf_def live_entries_def split: option.split)

lemma keepAlive_entries_wf: "entries_wf live p \<Longrightarrow> entries_wf live (keepAlive e p)"
  by (simp add: entries_wf_def entry_ok_def proc_ok_def)

lemma keepAlive_inv: "prom_inv p \<Longrightarrow> prom_inv (keepAlive e p)"
  by (simp add: prom_inv_def prom_wf_def keepAlive_entries_wf)

lemma refresh_proc_inv:
  assumes inv: "prom_inv p" and c: "c < length (coll_heap p)"
    and n: "dimensions (coll_heap p ! c) = length (mLabelKeys m)" and al: "metric_aligned m"
    and mp: "map_of (procs_of p c) (cache_key m) = Some mp"
  shows "prom_inv (refresh_proc c m mp p)"
proof -
  let ?q = "refresh_proc c m mp p"
  have heap: "heap_wf p" and ents: "entries_wf (live_entries p) p"
    and ces: "ces_wf (somes (collectorExpiryProc p)) p" and data: "data_wf p"
    using inv by (simp_all add: prom_inv_def prom_wf_def)
  have ne: "procs_of p c \<noteq> []" using mp by auto
  have g: "gomap_wf (procs_of p c)" using heap c by (simp add: heap_wf_def)
  have old: "proc_data_ok (dimensions (coll_heap p ! c)) (cache_key m) mp"
    using data c mp by (simp add: data_wf_def)
  have "data_wf ?q"
    unfolding refresh_proc_def using data c old n al
    by (intro data_wf_set_procs)
       (auto simp: data_wf_def proc_data_ok_def cache_key_def metric_aligned_def split: if_splits)
  moreover have "entries_wf (live_entries ?q) ?q"
  proof -
    have l: "live_entries ?q = live_entries p" by (simp add: live_entries_def refresh_proc_def)
    have e: "entry_ok ?q x" if "entry_ok p x" for x
      using that mp c by (auto simp: entry_ok_def refresh_proc_def)
    have pr: "proc_ok (live_entries p) ?q d k mk"
      if "d < length (coll_heap p)" "map_of (procs_of ?q d) k = Some mk" for d k mk
      using that ents mp c unfolding entries_wf_def
      by (auto simp: refresh_proc_def proc_ok_def split: if_splits)
    have len: "length (coll_heap ?q) = length (coll_heap p)" by (simp add: refresh_proc_def)
    from ents e pr show ?thesis unfolding entries_wf_def l len by blast
  qed
  ultimately show ?thesis
    using heap_wf_set_procs [OF heap c] ces_wf_set_procs [OF ces c] ne g
    by (simp add: prom_inv_def prom_wf_def refresh_proc_def)
qed

lemma add_proc_simps [simp]:
  "collectors (add_proc c m p) = collectors p"
  "metricExpiryProcs (add_proc c m p) = metricExpiryProcs p"
  "collectorExpiryProc (add_proc c m p) = collectorExpiryProc p"
  "registry (add_proc c m p) = registry p"
  "length (coll_heap (add_proc c m p)) = length (coll_heap p)"
  "exp_heap (add_proc c m p)
     = exp_heap p @ [\<lparr>lastArrival = None, meCollector = c, meKey = cache_key m\<rparr>]"
  by (simp_all add: add_proc_def)

lemma add_proc_heap [simp]:
  assumes "c < length (coll_heap p)"
  shows "procs_of (add_proc c m p) d =
      (if d = c then AList.update (cache_key m)
         \<lparr>description = (mName m, mLabelKeys m), mpExpiry = length (exp_heap p), mpMetric = m,
          scrapped = False\<rparr> (procs_of p c) else procs_of p d)"
    and "dimensions (coll_heap (add_proc c m p) ! d) = dimensions (coll_heap p ! d)"
    and "cacheindexbuilder (coll_heap (add_proc c m p) ! d) = cacheindexbuilder (coll_heap p ! d)"
  using assms heap_set_procs [OF assms] by (simp_all add: add_proc_def procs_of_def)

lemma add_proc_entries_wf:
  assumes ents: "entries_wf live p" and c: "c < length (coll_heap p)"
    and new: "map_of (procs_of p c) (cache_key m) = None"
  shows "entries_wf (length (exp_heap p) # live) (add_proc c m p)"
proof -
  let ?e = "length (exp_heap p)" and ?q = "add_proc c m p"
  have lt: "x < ?e" if "x \<in> set live" for x
    using ents that by (simp add: entries_wf_def entry_ok_def)
  have "entry_ok ?q x" if x: "x \<in> set live" for x
  proof -
    from ents x have "entry_ok p x" by (simp add: entries_wf_def)
    moreover from this new have "\<not> (meCollector (exp_heap p ! x) = c \<and> meKey (exp_heap p ! x) = cache_key m)"
      by (auto simp: entry_ok_def)
    ultimately show ?thesis using lt [OF x] c by (auto simp: entry_ok_def nth_append)
  qed
  moreover have "entry_ok ?q ?e" using c by (simp add: entry_ok_def)
  moreover have "proc_ok (?e # live) ?q d k mp"
    if d: "d < length (coll_heap p)" and k: "map_of (procs_of ?q d) k = Some mp" for d k mp
  proof (cases "d = c \<and> k = cache_key m")
    case True
    with k c have "mpExpiry mp = ?e" by auto
    with True show ?thesis by (simp add: proc_ok_def)
  next
    case False
    with k c have "map_of (procs_of p d) k = Some mp" by (auto split: if_splits)
    with ents d have "proc_ok live p d k mp" by (simp add: entries_wf_def)
    with lt show ?thesis by (auto simp: proc_ok_def nth_append)
  qed
  moreover have "distinct (?e # live)" using ents lt by (auto simp: entries_wf_def)
  ultimately show ?thesis by (auto simp: entries_wf_def)
qed

lemma add_proc_inv:
  assumes inv: "prom_inv p" and map: "map_of (collectors p) (length (mLabelKeys m)) = Some c"
    and al: "metric_aligned m" and new: "map_of (procs_of p c) (cache_key m) = None"
    and iv: "map_of (metricExpiryProcs p) (mInterval m) = Some es"
  shows "prom_inv (register_metric_expiry (mInterval m) (length (exp_heap p)) (add_proc c m p))"
proof -
  let ?e = "length (exp_heap p)" and ?a = "add_proc c m p"
  let ?m = "AList.update (mInterval m) (register ?e es) (metricExpiryProcs p)"
  let ?q = "?a\<lparr>metricExpiryProcs := ?m\<rparr>"
  have heap: "heap_wf p" and ents: "entries_wf (live_entries p) p"
    and ces: "ces_wf (somes (collectorExpiryProc p)) p" and data: "data_wf p"
    using inv by (simp_all add: prom_inv_def prom_wf_def)
  have c: "c < length (coll_heap p)" and n: "dimensions (coll_heap p ! c) = length (mLabelKeys m)"
    using heap map by (auto simp: heap_wf_def)
  have gw: "gomap_wf (metricExpiryProcs p)" using heap by (simp add: heap_wf_def)
  obtain others where "mset (live_entries p) = mset (others @ somes es)"
    and "mset (concat (map (\<lambda>(iv, es). somes es) ?m)) = mset (others @ somes (register ?e es))"
    using live_update_existing [OF gw iv] by (auto simp: live_entries_def)
  then have "mset (?e # live_entries p) = mset (live_entries ?q)"
    by (simp add: live_entries_def register_def)
  from entries_wf_mset [OF this add_proc_entries_wf [OF ents c new]]
  have "entries_wf (live_entries ?q) ?a" .
  moreover have "heap_wf ?a" using heap c by (simp add: heap_wf_def)
  moreover have "ces_wf (somes (collectorExpiryProc p)) ?a"
    using ces c n map by (auto simp: ces_wf_def split: option.splits)
  moreover have "data_wf ?a"
    using data c n al
    by (auto simp: data_wf_def proc_data_ok_def cache_key_def metric_aligned_def split: if_splits)
  ultimately show ?thesis
    using gw iv by (simp add: register_metric_expiry_def prom_inv_def prom_wf_def gomap_wf_mep_irrelevant)
qed

lemma UpdateMetrics_inv:
  assumes inv: "prom_inv p" and map: "map_of (collectors p) (length (mLabelKeys m)) = Some c"
    and al: "metric_aligned m" and iv: "map_of (metricExpiryProcs p) (mInterval m) = Some es"
  shows "prom_inv (UpdateMetrics c m p)"
proof -
  have heap: "heap_wf p" using inv by (simp add: prom_inv_def prom_wf_def)
  have c: "c < length (coll_heap p)" and n: "dimensions (coll_heap p ! c) = length (mLabelKeys m)"
    using heap map by (auto simp: heap_wf_def)
  have b: "cacheindexbuilder (coll_heap p ! c) = []" using heap c by (simp add: heap_wf_def)
  show ?thesis
    using add_proc_inv [OF inv map al _ iv] refresh_proc_inv [OF inv c n al]
    by (simp add: UpdateMetrics_eq [OF c b] keepAlive_inv split: option.split)
qed

lemma ReceiveMetric_inv:
  assumes "prom_inv p" and "metric_aligned m" and "ReceiveMetric m p = Inr q"
  shows "prom_inv q"
proof -
  from assms(3) obtain p1 c where f: "find_collector m p = Inr (p1, c)"
    and q: "q = UpdateMetrics c m (find_expiry_proc m p1)"
    by (auto simp: ReceiveMetric_def go_bind_eq_Inr_iff)
  from find_collector_inv [OF assms(1) f] find_expiry_proc_inv [of p1 m]
  obtain es where "prom_inv (find_expiry_proc m p1)"
    and "map_of (collectors (find_expiry_proc m p1)) (length (mLabelKeys m)) = Some c"
    and "map_of (metricExpiryProcs (find_expiry_proc m p1)) (mInterval m) = Some es"
    by auto
  from UpdateMetrics_inv [OF this(1,2) assms(2) this(3)] q show ?thesis by simp
qed

section \<open>Scraping keeps the invariant\<close>

lemma map_of_mark: "map_of (map (\<lambda>(k, v). (k, f v)) m) k = map_option f (map_of m k)"
  by (induction m) auto

lemma gomap_wf_mark: "gomap_wf m \<Longrightarrow> gomap_wf (map (\<lambda>(k, v). (k, f v)) m)"
  by (simp add: gomap_wf_def comp_def split_beta)

lemma Collect_inv:
  assumes inv: "prom_inv p" and c: "c < length (coll_heap p)"
  shows "prom_inv (fst (Collect ncm c p))"
proof -
  let ?f = "\<lambda>mp. mp\<lparr>scrapped := True\<rparr>"
  let ?q = "set_procs c (map (\<lambda>(k, mp). (k, ?f mp)) (procs_of p c)) p"
  have heap: "heap_wf p" and ents: "entries_wf (live_entries p) p"
    and ces: "ces_wf (somes (collectorExpiryProc p)) p" and data: "data_wf p"
    using inv by (simp_all add: prom_inv_def prom_wf_def)
  have "heap_wf ?q"
    using heap c by (intro heap_wf_set_procs gomap_wf_mark) (simp_all add: heap_wf_def)
  moreover have "data_wf ?q"
    using data c by (intro data_wf_set_procs) (auto simp: map_of_mark data_wf_def proc_data_ok_def)
  moreover have "ces_wf (somes (collectorExpiryProc p)) ?q"
    using ces c by (intro ces_wf_set_procs) auto
  moreover have "entries_wf (live_entries p) ?q"
  proof -
    have "entry_ok ?q x" if "entry_ok p x" for x
      using that c by (auto simp: entry_ok_def map_of_mark)
    moreover have "proc_ok (live_entries p) ?q d k mk"
      if "d < length (coll_heap p)" "map_of (procs_of ?q d) k = Some mk" for d k mk
      using that ents c unfolding entries_wf_def
      by (auto simp: proc_ok_def map_of_mark split: if_splits)
    ultimately show ?thesis using ents unfolding entries_wf_def by simp
  qed
  moreover have "live_entries ?q = live_entries p" by (simp add: live_entries_def)
  ultimately show ?thesis by (simp add: Collect_def prom_inv_def prom_wf_def)
qed

lemma Collect_frame [simp]:
  "registry (fst (Collect ncm c p)) = registry p"
  "collectors (fst (Collect ncm c p)) = collectors p"
  "length (coll_heap (fst (Collect ncm c p))) = length (coll_heap p)"
  "conf (fst (Collect ncm c p)) = conf p"
  by (simp_all add: Collect_def)

text \<open>A scrape collects collectors that exist.\<close>

definition gathers_existing :: "(registry_call list \<Rightarrow> coll_id list) \<Rightarrow> prom \<Rightarrow> bool" where
  "gathers_existing gathered p \<longleftrightarrow>
     (\<forall>r. registry p = Some r \<longrightarrow> (\<forall>c \<in> set (gathered r). c < length (coll_heap p)))"

lemma collect_all_inv:
  "prom_inv p \<Longrightarrow> (\<And>c. c \<in> set cs \<Longrightarrow> c < length (coll_heap p)) \<Longrightarrow>
     prom_inv (fst (collect_all ncm cs p))"
proof (induction cs arbitrary: p)
  case Nil
  then show ?case by simp
next
  case (Cons c cs)
  then have "prom_inv (fst (Collect ncm c p))" by (intro Collect_inv) simp_all
  with Cons.IH [of "fst (Collect ncm c p)"] Cons.prems(2) show ?case by (simp add: split_beta)
qed

lemma gathered_collectors:
  assumes "unchecked_registry gathered" and "prom_inv p" and "registry p = Some r"
  shows "mset (gathered r) = mset [0..<length (coll_heap p)]"
proof -
  have f: "map fst (map (\<lambda>c. (c, [] :: prom_desc list)) xs) = xs" for xs :: "nat list"
    by (induction xs) simp_all
  have r: "registrations r = map (\<lambda>c. (c, [])) [0..<length (coll_heap p)]"
    using assms by (simp add: prom_inv_def prom_wf_def ces_wf_def)
  have fst: "map fst (registrations r) = [0..<length (coll_heap p)]" unfolding r by (rule f)
  have un: "list_all (\<lambda>(c, ds). ds = []) (registrations r)" by (simp add: r list_all_iff)
  have "distinct (map fst (registrations r))" unfolding fst by simp
  with assms(1) un have "mset (gathered r) = mset (map fst (registrations r))"
    unfolding unchecked_registry_def by blast
  then show ?thesis unfolding fst .
qed

lemma unchecked_gathers_existing:
  assumes "unchecked_registry gathered" and "prom_inv p"
  shows "gathers_existing gathered p"
  unfolding gathers_existing_def
proof (intro allI impI ballI)
  fix r c
  assume "registry p = Some r" and "c \<in> set (gathered r)"
  with mset_eq_setD [OF gathered_collectors [OF assms]] show "c < length (coll_heap p)" by simp
qed

lemma fst_scrape [simp]: "fst (scrape gathered check ncm p) = fst (gather gathered ncm p)"
  by (simp add: scrape_def split_beta)

lemma gather_inv:
  "prom_inv p \<Longrightarrow> gathers_existing gathered p \<Longrightarrow> prom_inv (fst (gather gathered ncm p))"
  by (auto simp: gather_def gathers_existing_def intro: collect_all_inv split: option.split)

end
