(* ===== verification/PrometheusProps.thy ===== *)
theory PrometheusProps
  imports PrometheusInv
begin

text \<open>
  The runs of the Prometheus application as a step relation, the invariant in every
  reachable state, what a check removes, and what receiving a metric changes in the cache
  seen as a map.
\<close>

section \<open>Runs\<close>

text \<open>
  A step is one of the critical sections: receiving an aligned metric (the guarantee of
  \<open>application.MetricReceiver\<close>), a check by an expiry process that runs at all, a scrape, or
  the passing of time.  In the code \<open>ReceiveMetric\<close> holds a lock, but the checks and \<open>Collect\<close> do not
  take it: they work on the concurrent maps while it runs.  So the statements about reachable states
  are about runs in which nothing comes between the parts of one \<open>ReceiveMetric\<close>; what goes wrong
  otherwise is shown by \<open>collector_race_breaks_scrape\<close> (theory \<open>PrometheusTheorems\<close>).
\<close>

inductive prom_step :: "prom \<Rightarrow> prom \<Rightarrow> bool" where
  receive: "metric_aligned m \<Longrightarrow> ReceiveMetric m p = Inr q \<Longrightarrow> prom_step p q"
| expire_metrics: "run_period (expiry_interval p iv) \<noteq> None \<Longrightarrow> prom_step p (metric_check iv p)"
| expire_collectors: "prom_step p (collector_check p)"
| scraping: "gathers_existing gathered p \<Longrightarrow>
    prom_step p (fst (scrape gathered check (ncm :: _ \<Rightarrow> _ \<Rightarrow> _ \<Rightarrow> _ \<Rightarrow> _ + unit) p))"
| tick: "0 \<le> d \<Longrightarrow> prom_step p (p\<lparr>now := now p + d\<rparr>)"

text \<open>The states reachable after \<open>Run\<close> has made the registry, for a configuration.\<close>

definition prom_start :: "prom_config \<Rightarrow> prom" where
  "prom_start cf = prom_Run_start (prom_New\<lparr>conf := cf\<rparr>)"

inductive prom_reachable :: "prom \<Rightarrow> bool" where
  start: "prom_reachable (prom_start cf)"
| step: "prom_reachable p \<Longrightarrow> prom_step p q \<Longrightarrow> prom_reachable q"

lemma prom_start_inv: "prom_inv (prom_start cf)"
  by (simp add: prom_start_def prom_Run_start_def prom_New_def prom_inv_def prom_wf_def heap_wf_def
      entries_wf_def ces_wf_def data_wf_def live_entries_def)

lemma now_irrelevant [simp]: "prom_inv (p\<lparr>now := t\<rparr>) = prom_inv p"
  by (simp add: prom_inv_def prom_wf_def heap_wf_def entries_wf_def entry_ok_def proc_ok_def
      ces_wf_def data_wf_def live_entries_def procs_of_def split: option.split)

lemma prom_step_inv: "prom_step p q \<Longrightarrow> prom_inv p \<Longrightarrow> prom_inv q"
  by (induction rule: prom_step.induct)
     (auto intro: ReceiveMetric_inv metric_check_inv collector_check_inv gather_inv)

lemma prom_reachable_inv: "prom_reachable p \<Longrightarrow> prom_inv p"
  by (induction rule: prom_reachable.induct) (auto intro: prom_start_inv prom_step_inv)

section \<open>What a check removes\<close>

lemma lookup_set_procs_delete:
  "d < length (coll_heap p) \<Longrightarrow>
     map_of (procs_of (set_procs d (AList.delete j (procs_of p d)) p) c) k =
       (if c = d \<and> k = j then None else map_of (procs_of p c) k)"
  by simp

lemma check_keeps_absent:
  assumes "map_of (procs_of p c) k = None" and "metric_inv others (somes es) p"
  shows "map_of (procs_of (snd (expiry_check (metric_Expired iv) metric_Delete es p)) c) k = None"
  using assms
proof (induction es arbitrary: p others)
  case Nil
  then show ?case by simp
next
  case (Cons x es)
  show ?case
  proof (cases x)
    case None
    with Cons show ?thesis by simp
  next
    case (Some e)
    obtain ok q where d: "metric_Delete e p = (ok, q)" by force
    have inv: "metric_inv others (e # somes es) p" using Cons.prems(2) Some by simp
    have rest: "metric_inv (e # others) (somes es) p"
      using inv by (auto simp: metric_inv_def intro: entries_wf_mset [rotated])
    show ?thesis
    proof (cases "metric_Expired iv e p \<and> ok")
      case True
      with d have d': "metric_Delete e p = (True, q)" by simp
      have "meCollector (exp_heap p ! e) < length (coll_heap p)"
        using inv by (simp add: metric_inv_def entries_wf_def entry_ok_def)
      then have "map_of (procs_of q c) k = None"
        using metric_Delete_True [OF d'] Cons.prems(1) by auto
      with Cons.IH metric_inv_delete [OF inv d'] True d Some show ?thesis by simp
    next
      case False
      with d metric_Delete_False [of e p q] Cons.IH [OF Cons.prems(1) rest] Some
      show ?thesis by (auto simp: split_beta)
    qed
  qed
qed

lemma check_lookup:
  assumes "c < length (coll_heap p)" and "map_of (procs_of p c) k = Some mp"
    and "metric_inv others (somes es) p"
  shows "map_of (procs_of (snd (expiry_check (metric_Expired iv) metric_Delete es p)) c) k =
           (if mpExpiry mp \<in> set (somes es) \<and> metric_Expired iv (mpExpiry mp) p \<and> scrapped mp
            then None else Some mp)"
  using assms
proof (induction es arbitrary: p others)
  case Nil
  then show ?case by simp
next
  case (Cons x es)
  show ?case
  proof (cases x)
    case None
    with Cons show ?thesis by simp
  next
    case (Some e)
    let ?d = "meCollector (exp_heap p ! e)" and ?j = "meKey (exp_heap p ! e)"
    obtain ok q where del: "metric_Delete e p = (ok, q)" by force
    have inv: "metric_inv others (e # somes es) p" using Cons.prems(3) Some by simp
    have rest: "metric_inv (e # others) (somes es) p"
      using inv by (auto simp: metric_inv_def intro: entries_wf_mset [rotated])
    have e: "e \<notin> set (somes es)" "entry_ok p e" and pr: "proc_ok (others @ e # somes es) p c k mp"
      using inv Cons.prems(1,2) by (auto simp: metric_inv_def entries_wf_def)
    have dl: "?d < length (coll_heap p)" using e(2) by (simp add: entry_ok_def)
    have same: "mpExpiry mp = e \<longleftrightarrow> c = ?d \<and> k = ?j"
    proof
      assume "mpExpiry mp = e"
      with pr show "c = ?d \<and> k = ?j" by (simp add: proc_ok_def)
    next
      assume "c = ?d \<and> k = ?j"
      moreover from e(2) obtain mp' where "map_of (procs_of p ?d) ?j = Some mp'" "mpExpiry mp' = e"
        by (auto simp: entry_ok_def)
      ultimately show "mpExpiry mp = e" using Cons.prems(2) by simp
    qed
    have okmp: "ok = scrapped mp" if "mpExpiry mp = e"
      using del that same Cons.prems(2) by (auto simp: metric_Delete_def Let_def split: if_splits)
    show ?thesis
    proof (cases "metric_Expired iv e p \<and> ok")
      case True
      with del have d': "metric_Delete e p = (True, q)" by simp
      note q = metric_Delete_True [OF d']
      note inv' = metric_inv_delete [OF inv d']
      show ?thesis
      proof (cases "mpExpiry mp = e")
        case me: True
        with same dl have "map_of (procs_of q c) k = None" by (simp add: q)
        from check_keeps_absent [OF this inv'] me okmp True d' Some show ?thesis by simp
      next
        case False
        with same dl Cons.prems(2) have l: "map_of (procs_of q c) k = Some mp"
          by (auto simp: q)
        have "c < length (coll_heap q)" using Cons.prems(1) by (simp add: q)
        from Cons.IH [OF this l inv'] False True d' Some show ?thesis
          by (simp add: metric_Expired_def q)
      qed
    next
      case False
      have "(if metric_Expired iv e p then q else p) = p"
        using False del metric_Delete_False [of e p q] by auto
      with Cons.IH [OF Cons.prems(1,2) rest] False del Some e(1) okmp
      show ?thesis by (auto simp: split_beta)
    qed
  qed
qed

lemma metric_check_lookup:
  assumes inv: "prom_inv p" and c: "c < length (coll_heap p)"
    and mp: "map_of (procs_of p c) k = Some mp" and es: "map_of (metricExpiryProcs p) iv = Some es"
  shows "map_of (procs_of (metric_check iv p) c) k =
           (if Some (mpExpiry mp) \<in> set es \<and> metric_Expired (expiry_interval p iv) (mpExpiry mp) p
               \<and> scrapped mp
            then None else Some mp)"
proof -
  have "gomap_wf (metricExpiryProcs p)" using inv by (simp add: prom_inv_def prom_wf_def heap_wf_def)
  from live_update_existing [OF this es] obtain others
    where "mset (live_entries p) = mset (others @ somes es)" by (auto simp: live_entries_def)
  from entries_wf_mset [OF this] inv have "metric_inv others (somes es) p"
    by (simp add: metric_inv_def prom_inv_def prom_wf_def)
  from check_lookup [OF c mp this] es show ?thesis
    by (simp add: metric_check_def split_beta set_somes procs_of_def)
qed

section \<open>The cache as a map\<close>

text \<open>The cached metric for a number of labels and a cache key.\<close>

definition lookup_metric :: "prom \<Rightarrow> nat \<Rightarrow> string \<Rightarrow> metric_process option" where
  "lookup_metric p n k =
     (case map_of (collectors p) n of None \<Rightarrow> None | Some c \<Rightarrow> map_of (procs_of p c) k)"

lemma collector_of_inv:
  "prom_inv p \<Longrightarrow> map_of (collectors p) n = Some c \<Longrightarrow>
     c < length (coll_heap p) \<and> dimensions (coll_heap p ! c) = n \<and> cacheindexbuilder (coll_heap p ! c) = []"
  by (auto simp: prom_inv_def prom_wf_def heap_wf_def)

lemma find_collector_frame:
  assumes inv: "prom_inv p" and reg: "registry p \<noteq> None"
  shows "\<exists>q c. find_collector m p = Inr (q, c) \<and> prom_inv q
           \<and> map_of (collectors q) (length (mLabelKeys m)) = Some c \<and> registry q \<noteq> None
           \<and> lookup_metric q = lookup_metric p \<and> now q = now p \<and> conf q = conf p
           \<and> exp_heap q = exp_heap p \<and> metricExpiryProcs q = metricExpiryProcs p
           \<and> length (coll_heap p) \<le> length (coll_heap q)
           \<and> (\<forall>d < length (coll_heap p). procs_of q d = procs_of p d)"
proof (cases "map_of (collectors p) (length (mLabelKeys m))")
  case (Some c)
  with inv reg show ?thesis by (simp add: find_collector_def)
next
  case None
  from reg obtain r where "registry p = Some r" by auto
  with None obtain q where f: "find_collector m p = Inr (q, length (coll_heap p))"
    and q: "q = p\<lparr>coll_heap := coll_heap p
                    @ [\<lparr>mProc = [], dimensions = length (mLabelKeys m), cacheindexbuilder = []\<rparr>],
                 collectors := AList.update (length (mLabelKeys m)) (length (coll_heap p)) (collectors p),
                 collectorExpiryProc := register (length (coll_heap p), length (mLabelKeys m))
                   (collectorExpiryProc p),
                 registry := Some (r @ [MustRegister (length (coll_heap p)) []])\<rparr>"
    by (simp add: find_collector_def Let_def Describe_def procs_of_def)
  have procs: "procs_of q d = (if d < length (coll_heap p) then procs_of p d else [])"
    if "d \<le> length (coll_heap p)" for d
    using that by (auto simp: q procs_of_def nth_append)
  have "lookup_metric q n k = lookup_metric p n k" for n k
    using None procs collector_of_inv [OF inv, of n]
    by (auto simp: lookup_metric_def q procs_of_def nth_append split: option.split)
  then have "lookup_metric q = lookup_metric p" by (intro ext)
  with find_collector_inv [OF inv f] f show ?thesis
    by (simp add: q procs_of_def nth_append)
qed

lemma find_expiry_proc_frame [simp]:
  "lookup_metric (find_expiry_proc m p) = lookup_metric p"
  "registry (find_expiry_proc m p) = registry p" "now (find_expiry_proc m p) = now p"
  "conf (find_expiry_proc m p) = conf p" "exp_heap (find_expiry_proc m p) = exp_heap p"
  "coll_heap (find_expiry_proc m p) = coll_heap p"
  "procs_of (find_expiry_proc m p) = procs_of p"
  by (simp_all add: find_expiry_proc_def lookup_metric_def procs_of_def fun_eq_iff split: option.split)

text \<open>The entry that a received metric leaves under its key, given what was there before.\<close>

definition stored_as :: "metric \<Rightarrow> metric_process option \<Rightarrow> metric_process \<Rightarrow> bool" where
  "stored_as m old mp \<longleftrightarrow>
     (case old of
        None \<Rightarrow> description mp = (mName m, mLabelKeys m) \<and> mpMetric mp = m \<and> \<not> scrapped mp
      | Some mp0 \<Rightarrow> mp = mp0\<lparr>mpMetric := m\<lparr>mInterval := mInterval (mpMetric mp0)\<rparr>\<rparr>)"

lemma register_metric_expiry_simps [simp]:
  "coll_heap (register_metric_expiry iv e p) = coll_heap p"
  "collectors (register_metric_expiry iv e p) = collectors p"
  "registry (register_metric_expiry iv e p) = registry p"
  "exp_heap (register_metric_expiry iv e p) = exp_heap p"
  "now (register_metric_expiry iv e p) = now p"
  "conf (register_metric_expiry iv e p) = conf p"
  "procs_of (register_metric_expiry iv e p) = procs_of p"
  by (simp_all add: register_metric_expiry_def procs_of_def fun_eq_iff split: option.split)

lemma UpdateMetrics_store:
  assumes inv: "prom_inv p" and map: "map_of (collectors p) (length (mLabelKeys m)) = Some c"
  shows "\<exists>mp. map_of (procs_of (UpdateMetrics c m p) c) (cache_key m) = Some mp
           \<and> stored_as m (map_of (procs_of p c) (cache_key m)) mp
           \<and> lastArrival (exp_heap (UpdateMetrics c m p) ! mpExpiry mp) = Some (now p)"
proof -
  from collector_of_inv [OF inv map] have c: "c < length (coll_heap p)"
    and b: "cacheindexbuilder (coll_heap p ! c) = []" by simp_all
  show ?thesis
  proof (cases "map_of (procs_of p c) (cache_key m)")
    case None
    with c show ?thesis
      by (simp add: UpdateMetrics_eq [OF c b] stored_as_def keepAlive_def add_proc_def procs_of_def
          set_procs_def set_collector_def)
  next
    case (Some mp0)
    have "mpExpiry mp0 < length (exp_heap p)"
      using inv c Some
      by (auto simp: prom_inv_def prom_wf_def entries_wf_def entry_ok_def proc_ok_def)
    with Some c show ?thesis
      by (simp add: UpdateMetrics_eq [OF c b] stored_as_def keepAlive_def refresh_proc_def procs_of_def
          set_procs_def set_collector_def)
  qed
qed

lemma UpdateMetrics_frame:
  assumes inv: "prom_inv p" and map: "map_of (collectors p) (length (mLabelKeys m)) = Some c"
  shows "collectors (UpdateMetrics c m p) = collectors p" "registry (UpdateMetrics c m p) = registry p"
    "conf (UpdateMetrics c m p) = conf p" "now (UpdateMetrics c m p) = now p"
    "length (coll_heap (UpdateMetrics c m p)) = length (coll_heap p)"
    "(d, k) \<noteq> (c, cache_key m) \<Longrightarrow>
       map_of (procs_of (UpdateMetrics c m p) d) k = map_of (procs_of p d) k"
proof -
  from collector_of_inv [OF inv map] have c: "c < length (coll_heap p)"
    and b: "cacheindexbuilder (coll_heap p ! c) = []" by simp_all
  note eq = UpdateMetrics_eq [OF c b]
  have [simp]: "conf (add_proc c m p) = conf p" "now (add_proc c m p) = now p" by (simp_all add: add_proc_def)
  show "collectors (UpdateMetrics c m p) = collectors p" "registry (UpdateMetrics c m p) = registry p"
    "conf (UpdateMetrics c m p) = conf p" "now (UpdateMetrics c m p) = now p"
    "length (coll_heap (UpdateMetrics c m p)) = length (coll_heap p)"
    by (simp_all add: eq refresh_proc_def split: option.split)
  show "map_of (procs_of (UpdateMetrics c m p) d) k = map_of (procs_of p d) k"
    if "(d, k) \<noteq> (c, cache_key m)"
    using that c by (auto simp: eq refresh_proc_def split: option.split)
qed

lemma ReceiveMetric_result:
  assumes inv: "prom_inv p" and reg: "registry p \<noteq> None"
  shows "\<exists>q mp. ReceiveMetric m p = Inr q \<and> registry q \<noteq> None
           \<and> lookup_metric q (length (mLabelKeys m)) (cache_key m) = Some mp
           \<and> stored_as m (lookup_metric p (length (mLabelKeys m)) (cache_key m)) mp
           \<and> lastArrival (exp_heap q ! mpExpiry mp) = Some (now p)
           \<and> (\<forall>n k. (n, k) \<noteq> (length (mLabelKeys m), cache_key m) \<longrightarrow>
                lookup_metric q n k = lookup_metric p n k)"
proof -
  let ?n = "length (mLabelKeys m)" and ?k = "cache_key m"
  from find_collector_frame [OF inv reg, of m] obtain p1 c where f: "find_collector m p = Inr (p1, c)"
    and inv1: "prom_inv p1" and c1: "map_of (collectors p1) ?n = Some c" and reg1: "registry p1 \<noteq> None"
    and l1: "lookup_metric p1 = lookup_metric p" and now1: "now p1 = now p" by blast
  let ?p2 = "find_expiry_proc m p1"
  let ?q = "UpdateMetrics c m ?p2"
  have inv2: "prom_inv ?p2" and c2: "map_of (collectors ?p2) ?n = Some c"
    using find_expiry_proc_inv [OF inv1, of m] c1 by simp_all
  note fr = UpdateMetrics_frame [OF inv2 c2]
  have l2: "lookup_metric ?p2 = lookup_metric p" using l1 by simp
  from UpdateMetrics_store [OF inv2 c2] obtain mp where
    mp: "map_of (procs_of ?q c) ?k = Some mp" "stored_as m (map_of (procs_of ?p2 c) ?k) mp"
      "lastArrival (exp_heap ?q ! mpExpiry mp) = Some (now p)"
    using now1 by auto
  have "lookup_metric ?q n k = lookup_metric p n k" if "(n, k) \<noteq> (?n, ?k)" for n k
  proof -
    have "lookup_metric ?q n k = lookup_metric ?p2 n k"
    proof (cases "map_of (collectors ?p2) n")
      case None
      then show ?thesis by (simp add: lookup_metric_def fr(1) del: find_expiry_proc_frame)
    next
      case (Some d)
      with that collector_of_inv [OF inv2 Some] collector_of_inv [OF inv2 c2]
      have "(d, k) \<noteq> (c, ?k)" by auto
      from fr(6) [OF this] Some show ?thesis
        by (simp add: lookup_metric_def fr(1) del: find_expiry_proc_frame)
    qed
    with l2 show ?thesis by simp
  qed
  moreover have "stored_as m (lookup_metric p ?n ?k) mp"
    using mp(2) c2 by (simp add: l2 [symmetric] lookup_metric_def del: find_expiry_proc_frame)
  moreover have "lookup_metric ?q ?n ?k = Some mp"
    using mp(1) c2 by (simp add: lookup_metric_def fr(1))
  ultimately show ?thesis
    using f mp(3) reg1 by (simp add: ReceiveMetric_def fr)
qed

end
