(* ===== verification/PrometheusTheorems.thy ===== *)
theory PrometheusTheorems
  imports PrometheusProps
begin

text \<open>
  The properties of the Prometheus application: the cache and the expiry entries always
  agree, what a received metric changes, what a check removes, what a scrape exports, and
  what goes wrong when cache keys collide, when a collector expires while a metric is on its
  way into it, with the interval 0, and before \<open>Run\<close>.
\<close>

section \<open>The registry in a run\<close>

lemma collector_check_registry: "registry (collector_check p) = None \<longleftrightarrow> registry p = None"
  using expiry_check_preserves [of "\<lambda>p. registry p = None" collector_Delete collector_Expired]
  by (simp add: collector_check_def split_beta collector_Delete_def)

lemma metric_check_registry [simp]: "registry (metric_check iv p) = registry p"
  using expiry_check_preserves [of registry metric_Delete]
  by (simp add: metric_check_def split_beta split: option.split)

lemma collect_all_registry [simp]: "registry (fst (collect_all ncm cs p)) = registry p"
  by (induction cs arbitrary: p) (simp_all add: split_beta)

lemma gather_registry [simp]: "registry (fst (gather gathered ncm p)) = registry p"
  by (simp add: gather_def split: option.split)

lemma reachable_registry: "prom_reachable p \<Longrightarrow> registry p \<noteq> None"
proof (induction rule: prom_reachable.induct)
  case (start cf)
  then show ?case by (simp add: prom_start_def prom_Run_start_def)
next
  case (step p q)
  from step.hyps(2) show ?case
  proof cases
    case (receive m)
    from ReceiveMetric_result [OF prom_reachable_inv [OF step.hyps(1)] step.IH, of m]
    obtain q' where "ReceiveMetric m p = Inr q'" "registry q' \<noteq> None" by blast
    with receive(2) show ?thesis by simp
  qed (use step.IH in \<open>simp_all add: collector_check_registry\<close>)
qed

section \<open>The cache and the expiry processes\<close>

text \<open>
  C8: In every state of a run, the expiry processes hold no entry twice, every entry leads
  to a cached metric whose own expiry record it is (so the branch of its \<open>delete\<close> closure
  that is marked "this should never happen" never is taken), and every cached metric has an
  entry, through which it can be found again.
\<close>

theorem expiry_entries_match_cache:
  assumes "prom_reachable p"
  shows "distinct (live_entries p)
         \<and> (\<forall>e \<in> set (live_entries p). \<exists>mp.
           map_of (procs_of p (meCollector (exp_heap p ! e))) (meKey (exp_heap p ! e)) = Some mp
           \<and> mpExpiry mp = e)
         \<and> (\<forall>c < length (coll_heap p). \<forall>(k, mp) \<in> set (procs_of p c).
           mpExpiry mp \<in> set (live_entries p)
           \<and> meCollector (exp_heap p ! mpExpiry mp) = c \<and> meKey (exp_heap p ! mpExpiry mp) = k)"
proof -
  have inv: "entries_wf (live_entries p) p" "heap_wf p"
    using prom_reachable_inv [OF assms] by (simp_all add: prom_inv_def prom_wf_def)
  then have "distinct (live_entries p)"
    and "\<forall>e \<in> set (live_entries p). \<exists>mp.
           map_of (procs_of p (meCollector (exp_heap p ! e))) (meKey (exp_heap p ! e)) = Some mp
           \<and> mpExpiry mp = e"
    by (simp_all add: entries_wf_def entry_ok_def)
  moreover have "\<forall>c < length (coll_heap p). \<forall>(k, mp) \<in> set (procs_of p c).
           mpExpiry mp \<in> set (live_entries p)
           \<and> meCollector (exp_heap p ! mpExpiry mp) = c \<and> meKey (exp_heap p ! mpExpiry mp) = k"
  proof (intro allI impI ballI, clarify)
    fix c k mp
    assume c: "c < length (coll_heap p)" and "(k, mp) \<in> set (procs_of p c)"
    with inv(2) have "map_of (procs_of p c) k = Some mp" by (simp add: heap_wf_def gomap_wf_def)
    with inv(1) c have "proc_ok (live_entries p) p c k mp" by (simp add: entries_wf_def)
    then show "mpExpiry mp \<in> set (live_entries p)
           \<and> meCollector (exp_heap p ! mpExpiry mp) = c \<and> meKey (exp_heap p ! mpExpiry mp) = k"
      by (simp add: proc_ok_def)
  qed
  ultimately show ?thesis by blast
qed

text \<open>A small run to apply the properties to: one metric received, then scraped.\<close>

definition ex_conf :: prom_config where
  "ex_conf = \<lparr>promHost = [], promPort = 3000, withTimestamp = True, expirationMultiple = 2\<rparr>"

definition ex_metric :: "string \<Rightarrow> string \<Rightarrow> int64 \<Rightarrow> float64 \<Rightarrow> metric" where
  "ex_metric name val iv v =
     \<lparr>mName = name, mTime = 5, mType = GAUGE, mInterval = iv, mValue = v,
      mLabelKeys = [''host''], mLabelVals = [val]\<rparr>"

text \<open>A library that accepts every sample, and a registry all of whose collectors stay.\<close>

type_synonym ex_sample = "prom_desc \<times> prom_value_type \<times> float64 \<times> string list"

definition ex_ncm :: "prom_desc \<Rightarrow> prom_value_type \<Rightarrow> float64 \<Rightarrow> string list \<Rightarrow> string + ex_sample" where
  "ex_ncm d t v ls = Inr (d, t, v, ls)"

definition ex_gathered :: "registry_call list \<Rightarrow> coll_id list" where
  "ex_gathered r = map fst (registrations r)"

definition ex_received :: prom where
  "ex_received =
     (case ReceiveMetric (ex_metric ''cpu'' ''h1'' 1 7) (prom_start ex_conf) of Inr p \<Rightarrow> p)"

lemmas ex_defs =
  ex_received_def ex_conf_def ex_metric_def ReceiveMetric_def find_collector_def prom_start_def
  prom_Run_start_def prom_New_def find_expiry_proc_def UpdateMetrics_def build_cache_key_def
  set_collector_def set_procs_def procs_of_def reset_builder_def keepAlive_def
  register_metric_expiry_def register_def Describe_def Let_def

lemma ex_received_eq:
  "ex_received =
     \<lparr>conf = ex_conf, collectors = [(1, 0)], metricExpiryProcs = [(1, [Some 0])],
      collectorExpiryProc = [Some (0, 1)], registry = Some [MustRegister 0 []],
      coll_heap = [\<lparr>mProc = [(''cpuh1'', \<lparr>description = (''cpu'', [''host'']), mpExpiry = 0,
                      mpMetric = ex_metric ''cpu'' ''h1'' 1 7, scrapped = False\<rparr>)],
                    dimensions = 1, cacheindexbuilder = []\<rparr>],
      exp_heap = [\<lparr>lastArrival = Some 0, meCollector = 0, meKey = ''cpuh1''\<rparr>], now = 0\<rparr>"
  by (simp add: ex_defs)

lemma ex_unchecked: "unchecked_registry ex_gathered"
  by (simp add: unchecked_registry_def ex_gathered_def)

lemma ex_received_reachable: "prom_reachable ex_received"
proof -
  have "ReceiveMetric (ex_metric ''cpu'' ''h1'' 1 7) (prom_start ex_conf) = Inr ex_received"
    by (simp add: ex_defs)
  then have "prom_step (prom_start ex_conf) ex_received"
    by (rule receive [rotated]) (simp add: ex_metric_def metric_aligned_def)
  then show ?thesis by (rule prom_reachable.step [OF prom_reachable.start])
qed

theorem expiry_entries_match_cache_witness:
  "mpExpiry (snd (hd (procs_of ex_received 0))) \<in> set (live_entries ex_received)
   \<and> meKey (exp_heap ex_received ! 0) = ''cpuh1''"
  using expiry_entries_match_cache [OF ex_received_reachable]
  by (simp add: ex_received_eq live_entries_def procs_of_def)

section \<open>Receiving\<close>

text \<open>
  C6: Once \<open>Run\<close> has made the registry, receiving a metric never panics; it stores the metric
  under its number of labels and its cache key, with the current time as its last arrival,
  keeping the description, the interval and the scrape mark of an entry that was there; and
  it changes no other entry of the cache.
\<close>

theorem receive_stores_metric:
  assumes "prom_reachable p"
  shows "\<exists>q mp. ReceiveMetric m p = Inr q
           \<and> lookup_metric q (length (mLabelKeys m)) (cache_key m) = Some mp
           \<and> stored_as m (lookup_metric p (length (mLabelKeys m)) (cache_key m)) mp
           \<and> lastArrival (exp_heap q ! mpExpiry mp) = Some (now p)
           \<and> (\<forall>n k. (n, k) \<noteq> (length (mLabelKeys m), cache_key m) \<longrightarrow>
                lookup_metric q n k = lookup_metric p n k)"
  using ReceiveMetric_result [OF prom_reachable_inv [OF assms] reachable_registry [OF assms], of m]
  by blast

theorem receive_stores_metric_witness:
  "\<exists>q mp. ReceiveMetric (ex_metric ''cpu'' ''h2'' 1 8) ex_received = Inr q
     \<and> lookup_metric q 1 ''cpuh2'' = Some mp \<and> mValue (mpMetric mp) = 8
     \<and> map_option (\<lambda>mp. mValue (mpMetric mp)) (lookup_metric q 1 ''cpuh1'') = Some 7"
proof -
  let ?m = "ex_metric ''cpu'' ''h2'' 1 8"
  have k: "length (mLabelKeys ?m) = 1" "cache_key ?m = ''cpuh2''"
    by (simp_all add: ex_metric_def cache_key_def)
  have old: "lookup_metric ex_received 1 ''cpuh2'' = None"
    "map_option (\<lambda>mp. mValue (mpMetric mp)) (lookup_metric ex_received 1 ''cpuh1'') = Some 7"
    by (simp_all add: ex_received_eq lookup_metric_def procs_of_def ex_metric_def)
  have "mValue ?m = 8" by (simp add: ex_metric_def)
  with receive_stores_metric [OF ex_received_reachable, of ?m] old show ?thesis
    unfolding k by (fastforce simp: stored_as_def)
qed

text \<open>The application as a receiver of metrics; receiving never loses a cached metric.\<close>

interpretation prom_receiver: metric_receiver ReceiveMetric prom_reachable
proof
  fix p m
  assume p: "prom_reachable p" and m: "metric_aligned m"
  from ReceiveMetric_result [OF prom_reachable_inv [OF p] reachable_registry [OF p], of m]
  obtain q where "ReceiveMetric m p = Inr q" by blast
  with m p show "\<exists>q. ReceiveMetric m p = Inr q \<and> prom_reachable q"
    by (blast intro: prom_reachable.step receive)
qed

text \<open>Two metrics that occupy the same place in the cache.\<close>

definition same_slot :: "metric \<Rightarrow> metric \<Rightarrow> bool" where
  "same_slot m m' \<longleftrightarrow> length (mLabelKeys m') = length (mLabelKeys m) \<and> cache_key m' = cache_key m"

lemma receive_all_lookup:
  assumes "prom_reachable p" and "list_all metric_aligned ms"
    and "go_foldM (\<lambda>p m. ReceiveMetric m p) p ms = Inr q" and "m \<in> set ms"
  shows "\<exists>mp. lookup_metric q (length (mLabelKeys m)) (cache_key m) = Some mp
           \<and> mValue (mpMetric mp) = mValue (last (filter (same_slot m) ms))"
  using assms(2-)
proof (induction ms arbitrary: q m rule: rev_induct)
  case Nil
  then show ?case by simp
next
  case (snoc x ms)
  from snoc.prems(2) obtain p1 where p1: "go_foldM (\<lambda>p m. ReceiveMetric m p) p ms = Inr p1"
    and q: "ReceiveMetric x p1 = Inr q"
    by (auto simp: go_foldM_append go_bind_eq_Inr_iff)
  from prom_receiver.receive_all_total [OF assms(1), of ms] snoc.prems(1) p1
  have p1r: "prom_reachable p1" by auto
  from ReceiveMetric_result [OF prom_reachable_inv [OF p1r] reachable_registry [OF p1r], of x] q
  obtain mp where mp: "lookup_metric q (length (mLabelKeys x)) (cache_key x) = Some mp"
      "stored_as x (lookup_metric p1 (length (mLabelKeys x)) (cache_key x)) mp"
    and frame: "\<forall>n k. (n, k) \<noteq> (length (mLabelKeys x), cache_key x) \<longrightarrow>
                  lookup_metric q n k = lookup_metric p1 n k" by auto
  show ?case
  proof (cases "same_slot m x")
    case True
    with mp show ?thesis by (auto simp: same_slot_def stored_as_def split: option.splits)
  next
    case False
    then have "m \<noteq> x" by (auto simp: same_slot_def)
    with snoc.prems have "m \<in> set ms" by simp
    from False have "(length (mLabelKeys m), cache_key m) \<noteq> (length (mLabelKeys x), cache_key x)"
      by (auto simp: same_slot_def)
    with frame have "lookup_metric q (length (mLabelKeys m)) (cache_key m)
        = lookup_metric p1 (length (mLabelKeys m)) (cache_key m)" by blast
    moreover have "list_all metric_aligned ms" using snoc.prems(1) by simp
    ultimately show ?thesis using snoc.IH [OF _ p1 \<open>m \<in> set ms\<close>] False by simp
  qed
qed

section \<open>Expiry\<close>

text \<open>
  A check of the expiry process for an interval removes a cached metric exactly if
  the metric has its entry there, no value arrived for as long as the process' interval, and
  it was scraped at least once; any other cached metric stays as it is.
\<close>

theorem expiry_removes_stale_scraped:
  assumes "prom_reachable p" and "c < length (coll_heap p)"
    and "map_of (procs_of p c) k = Some mp" and "map_of (metricExpiryProcs p) iv = Some es"
  shows "map_of (procs_of (metric_check iv p) c) k =
           (if Some (mpExpiry mp) \<in> set es \<and> scrapped mp
               \<and> expiry_interval p iv \<le> time_Since (now p) (lastArrival (exp_heap p ! mpExpiry mp))
            then None else Some mp)"
  using metric_check_lookup [OF prom_reachable_inv [OF assms(1)] assms(2-4)]
  by (simp add: metric_Expired_def conj_commute conj_left_commute)

text \<open>The example metric, never scraped, outlives its time.\<close>

definition ex_stale :: prom where
  "ex_stale = ex_received\<lparr>now := 100\<rparr>"

lemma ex_stale_reachable: "prom_reachable ex_stale"
  using prom_reachable.step [OF ex_received_reachable tick [of 100]]
  by (simp add: ex_stale_def ex_received_eq)

theorem expiry_removes_stale_scraped_witness:
  "map_of (procs_of (metric_check 1 ex_stale) 0) ''cpuh1''
     = Some \<lparr>description = (''cpu'', [''host'']), mpExpiry = 0,
             mpMetric = ex_metric ''cpu'' ''h1'' 1 7, scrapped = False\<rparr>"
proof -
  have "map_of (procs_of ex_stale 0) ''cpuh1'' = Some \<lparr>description = (''cpu'', [''host'']), mpExpiry = 0,
             mpMetric = ex_metric ''cpu'' ''h1'' 1 7, scrapped = False\<rparr>"
    and "map_of (metricExpiryProcs ex_stale) 1 = Some [Some 0]" and "0 < length (coll_heap ex_stale)"
    by (simp_all add: ex_stale_def ex_received_eq procs_of_def)
  from expiry_removes_stale_scraped [OF ex_stale_reachable this(3,1,2)] show ?thesis by simp
qed

section \<open>Metrics that never expire\<close>

lemma entry_in_one_process:
  "distinct (concat (map (\<lambda>(iv, es). somes es) m)) \<Longrightarrow> map_of m iv = Some es \<Longrightarrow>
     map_of m jv = Some fs \<Longrightarrow> iv \<noteq> jv \<Longrightarrow> Some e \<in> set es \<Longrightarrow> Some e \<notin> set fs"
proof (induction m)
  case Nil
  then show ?case by simp
next
  case (Cons x m)
  obtain kv gs where x: "x = (kv, gs)" by force
  have in_rest: "e \<in> set (concat (map (\<lambda>(iv, es). somes es) m))"
    if "map_of m lv = Some hs" "Some e \<in> set hs" for lv hs
    using that by (auto dest!: map_of_SomeD simp: set_somes)
  show ?case
  proof
    assume fs: "Some e \<in> set fs"
    consider "kv = iv" | "kv = jv" | "kv \<noteq> iv" "kv \<noteq> jv" by blast
    then show False
    proof cases
      case 1
      with Cons.prems x have "e \<in> set (somes gs)" "map_of m jv = Some fs" by (auto simp: set_somes)
      with in_rest fs Cons.prems(1) x show False by auto
    next
      case 2
      with Cons.prems x have "e \<in> set (somes gs)" "map_of m iv = Some es"
        using fs by (auto simp: set_somes)
      with in_rest Cons.prems(1,5) x show False by auto
    next
      case 3
      with Cons x fs show False by auto
    qed
  qed
qed

text \<open>The metric under \<open>k\<close> of collector \<open>c\<close> has its entry in the process for \<open>iv\<close>.\<close>

definition pinned :: "coll_id \<Rightarrow> string \<Rightarrow> exp_id \<Rightarrow> int64 \<Rightarrow> prom \<Rightarrow> bool" where
  "pinned c k e iv p \<longleftrightarrow>
     c < length (coll_heap p) \<and> expiry_interval p iv = 0
     \<and> (\<exists>mp. map_of (procs_of p c) k = Some mp \<and> mpExpiry mp = e)
     \<and> (\<exists>es. map_of (metricExpiryProcs p) iv = Some es \<and> Some e \<in> set es)"

lemma pinned_ReceiveMetric:
  assumes inv: "prom_inv p" and reg: "registry p \<noteq> None" and q: "ReceiveMetric m p = Inr q"
    and pin: "pinned c k e iv p"
  shows "pinned c k e iv q"
proof -
  from find_collector_frame [OF inv reg, of m] obtain p1 d where f: "find_collector m p = Inr (p1, d)"
    and inv1: "prom_inv p1" and d1: "map_of (collectors p1) (length (mLabelKeys m)) = Some d"
    and p1: "conf p1 = conf p" "metricExpiryProcs p1 = metricExpiryProcs p"
      "length (coll_heap p) \<le> length (coll_heap p1)"
      "\<forall>d < length (coll_heap p). procs_of p1 d = procs_of p d" by blast
  let ?p2 = "find_expiry_proc m p1"
  from q f have q: "q = UpdateMetrics d m ?p2" by (simp add: ReceiveMetric_def)
  have inv2: "prom_inv ?p2" and d2: "map_of (collectors ?p2) (length (mLabelKeys m)) = Some d"
    using find_expiry_proc_inv [OF inv1, of m] d1 by simp_all
  note fr = UpdateMetrics_frame [OF inv2 d2]
  from collector_of_inv [OF inv2 d2] have dl: "d < length (coll_heap ?p2)"
    and b: "cacheindexbuilder (coll_heap ?p2 ! d) = []" by blast+
  from pin obtain mp es where mp: "map_of (procs_of p c) k = Some mp" "mpExpiry mp = e"
    and es: "map_of (metricExpiryProcs p) iv = Some es" "Some e \<in> set es" and c: "c < length (coll_heap p)"
    by (auto simp: pinned_def)
  have mp2: "map_of (procs_of ?p2 c) k = Some mp" using mp c p1(4) by simp
  have "\<exists>mp'. map_of (procs_of q c) k = Some mp' \<and> mpExpiry mp' = e"
  proof (cases "(c, k) = (d, cache_key m)")
    case True
    with UpdateMetrics_store [OF inv2 d2] mp2 mp(2) show ?thesis by (auto simp: q stored_as_def)
  next
    case False
    from fr(6) [OF this] mp2 mp(2) show ?thesis by (simp add: q del: find_expiry_proc_frame)
  qed
  moreover have "\<exists>es'. map_of (metricExpiryProcs q) iv = Some es' \<and> Some e \<in> set es'"
  proof -
    have "map_of (metricExpiryProcs ?p2) iv = Some es"
      using es p1(2) by (auto simp: find_expiry_proc_def split: option.split)
    with es(2) show ?thesis
      by (auto simp: q UpdateMetrics_eq [OF dl b] register_metric_expiry_def register_def
          refresh_proc_def split: option.split)
  qed
  moreover have "c < length (coll_heap q)" using c p1(3) fr(5) q by simp
  moreover have "conf q = conf p" using fr(3) q p1(1) by simp
  ultimately show ?thesis using pin by (simp add: pinned_def expiry_interval_def)
qed

lemma metric_check_frame_state [simp]:
  "conf (metric_check iv p) = conf p"
  "length (coll_heap (metric_check iv p)) = length (coll_heap p)"
  using expiry_check_preserves [of conf metric_Delete]
    expiry_check_preserves [of "\<lambda>p. length (coll_heap p)" metric_Delete]
  by (simp_all add: metric_check_def split_beta split: option.split)

lemma pinned_metric_check:
  assumes inv: "prom_inv p" and run: "run_period (expiry_interval p jv) \<noteq> None"
    and pin: "pinned c k e iv p"
  shows "pinned c k e iv (metric_check jv p)"
proof (cases "map_of (metricExpiryProcs p) jv")
  case None
  with pin show ?thesis by (simp add: metric_check_def)
next
  case (Some fs)
  from pin run have ne: "jv \<noteq> iv" by (auto simp: pinned_def run_period_def)
  from pin obtain mp es where mp: "map_of (procs_of p c) k = Some mp" "mpExpiry mp = e"
    and es: "map_of (metricExpiryProcs p) iv = Some es" "Some e \<in> set es" and c: "c < length (coll_heap p)"
    by (auto simp: pinned_def)
  have "distinct (live_entries p)" using inv by (simp add: prom_inv_def prom_wf_def entries_wf_def)
  then have "Some e \<notin> set fs"
    using entry_in_one_process es Some ne unfolding live_entries_def by metis
  with metric_check_lookup [OF inv c mp(1) Some] mp(2)
  have "map_of (procs_of (metric_check jv p) c) k = Some mp" by simp
  moreover have "map_of (metricExpiryProcs (metric_check jv p)) iv = Some es"
    using Some ne es expiry_check_preserves [of metricExpiryProcs metric_Delete]
    by (simp add: metric_check_def split_beta)
  ultimately show ?thesis using pin mp(2) es(2) by (simp add: pinned_def expiry_interval_def)
qed

lemma collector_check_frame [simp]:
  "conf (collector_check p) = conf p" "coll_heap (collector_check p) = coll_heap p"
  "metricExpiryProcs (collector_check p) = metricExpiryProcs p"
  "procs_of (collector_check p) = procs_of p"
  using expiry_check_preserves [of conf collector_Delete]
    expiry_check_preserves [of coll_heap collector_Delete]
    expiry_check_preserves [of metricExpiryProcs collector_Delete]
  by (simp_all add: collector_check_def split_beta collector_Delete_def procs_of_def fun_eq_iff)

lemma pinned_Collect:
  "pinned c k e iv p \<Longrightarrow> d < length (coll_heap p) \<Longrightarrow> pinned c k e iv (fst (Collect ncm d p))"
  by (auto simp: pinned_def Collect_def map_of_mark expiry_interval_def)

lemma pinned_collect_all:
  "pinned c k e iv p \<Longrightarrow> (\<And>d. d \<in> set cs \<Longrightarrow> d < length (coll_heap p)) \<Longrightarrow>
     pinned c k e iv (fst (collect_all ncm cs p))"
proof (induction cs arbitrary: p)
  case Nil
  then show ?case by simp
next
  case (Cons d cs)
  from Cons.prems have "pinned c k e iv (fst (Collect ncm d p))" by (intro pinned_Collect) simp_all
  with Cons.IH [of "fst (Collect ncm d p)"] Cons.prems(2) show ?case by (simp add: split_beta)
qed

lemma pinned_step:
  assumes "prom_step p q" and "prom_inv p" and "registry p \<noteq> None" and "pinned c k e iv p"
  shows "pinned c k e iv q"
  using assms(1)
proof cases
  case (receive m)
  with pinned_ReceiveMetric assms show ?thesis by blast
next
  case (expire_metrics jv)
  with pinned_metric_check assms show ?thesis by blast
next
  case expire_collectors
  with assms(4) show ?thesis by (simp add: pinned_def expiry_interval_def)
next
  case (scraping gathered check ncm)
  from scraping(2) have "d < length (coll_heap p)" if "registry p = Some r" "d \<in> set (gathered r)" for r d
    using that by (simp add: gathers_existing_def)
  with scraping(1) assms(4) show ?thesis
    by (auto simp: gather_def intro: pinned_collect_all split: option.split)
next
  case (tick d)
  with assms(4) show ?thesis by (simp add: pinned_def expiry_interval_def procs_of_def)
qed

lemma pinned_steps:
  assumes "prom_step\<^sup>*\<^sup>* p q" and "prom_reachable p" and "pinned c k e iv p"
  shows "pinned c k e iv q"
proof -
  from assms have "prom_reachable q \<and> pinned c k e iv q"
  proof (induction rule: rtranclp_induct)
    case base
    then show ?case by simp
  next
    case (step y z)
    then have "prom_reachable y" by blast
    with step pinned_step [OF step.hyps(2) prom_reachable_inv reachable_registry]
    show ?case by (blast intro: prom_reachable.step)
  qed
  then show ?thesis by simp
qed

text \<open>
  A cached metric whose entry is in an expiry process with the interval 0 is never
  removed: it is still cached after any further run, however long ago its last value
  arrived.
\<close>

theorem zero_interval_never_expires:
  assumes "prom_reachable p" and "prom_step\<^sup>*\<^sup>* p q"
    and "c < length (coll_heap p)" and "map_of (procs_of p c) k = Some mp"
    and "map_of (metricExpiryProcs p) iv = Some es" and "Some (mpExpiry mp) \<in> set es"
    and "wrap64 (iv * expirationMultiple (conf p)) = 0"
  shows "\<exists>mp'. map_of (procs_of q c) k = Some mp'"
proof -
  have "pinned c k (mpExpiry mp) iv p" using assms by (simp add: pinned_def expiry_interval_def)
  from pinned_steps [OF assms(2,1) this] show ?thesis by (auto simp: pinned_def)
qed

definition ex_zero :: prom where
  "ex_zero =
     (case ReceiveMetric (ex_metric ''cpu'' ''h1'' 0 7) (prom_start ex_conf) of Inr p \<Rightarrow> p)"

lemma ex_zero_reachable: "prom_reachable ex_zero"
proof -
  have "ReceiveMetric (ex_metric ''cpu'' ''h1'' 0 7) (prom_start ex_conf) = Inr ex_zero"
    by (simp add: ex_zero_def ex_defs)
  then have "prom_step (prom_start ex_conf) ex_zero"
    by (rule receive [rotated]) (simp add: ex_metric_def metric_aligned_def)
  then show ?thesis by (rule prom_reachable.step [OF prom_reachable.start])
qed

theorem zero_interval_never_expires_witness:
  "\<exists>mp. map_of (procs_of (ex_zero\<lparr>now := now ex_zero + 10 ^ 15\<rparr>) 0) ''cpuh1'' = Some mp"
proof -
  have "prom_step\<^sup>*\<^sup>* ex_zero (ex_zero\<lparr>now := now ex_zero + 10 ^ 15\<rparr>)"
    by (intro r_into_rtranclp tick) simp
  moreover have "map_of (procs_of ex_zero 0) ''cpuh1'' = Some \<lparr>description = (''cpu'', [''host'']),
      mpExpiry = 0, mpMetric = ex_metric ''cpu'' ''h1'' 0 7, scrapped = False\<rparr>"
    and "map_of (metricExpiryProcs ex_zero) 0 = Some [Some 0]" and "0 < length (coll_heap ex_zero)"
    by (simp_all add: ex_zero_def ex_defs)
  ultimately show ?thesis
    using zero_interval_never_expires [OF ex_zero_reachable, of _ 0 "''cpuh1''" _ 0 "[Some 0]"]
    by (simp add: wrap64_def)
qed

section \<open>Scraping\<close>

text \<open>
  What the application is to export of a metric, under the description it is cached with: the sample
  that the library makes of its type, value and labels, if it accepts them, with the time of the
  metric if the configuration asks for times and the metric has one.
\<close>

definition exported ::
  "(prom_desc \<Rightarrow> prom_value_type \<Rightarrow> float64 \<Rightarrow> string list \<Rightarrow> string + 's) \<Rightarrow> bool \<Rightarrow> prom_desc \<Rightarrow> metric
     \<Rightarrow> ('s \<times> int64 option) list" where
  "exported ncm with_ts desc m =
     (case ncm desc (case mType m of COUNTER \<Rightarrow> CounterValue | GAUGE \<Rightarrow> GaugeValue | UNTYPED \<Rightarrow> UntypedValue)
             (mValue m) (mLabelVals m) of
        Inl err \<Rightarrow> []
      | Inr s \<Rightarrow> [(s, if with_ts \<and> mTime m \<noteq> 0 then Some (int64_of_f64 (mTime m)) else None)])"

lemma collect_one_exported: "collect_one ncm ts mp = exported ncm ts (description mp) (mpMetric mp)"
  by (cases "mType (mpMetric mp)") (auto simp: collect_one_def exported_def split: sum.split)

text \<open>The samples of a collector's cached metrics.\<close>

definition cached_samples ::
  "(prom_desc \<Rightarrow> prom_value_type \<Rightarrow> float64 \<Rightarrow> string list \<Rightarrow> string + 's)
     \<Rightarrow> prom \<Rightarrow> coll_id \<Rightarrow> ('s \<times> int64 option) list" where
  "cached_samples ncm p c =
     concat (map (\<lambda>(k, mp). exported ncm (withTimestamp (conf p)) (description mp) (mpMetric mp))
       (procs_of p c))"

lemma cached_samples_Collect:
  "d < length (coll_heap p) \<Longrightarrow> cached_samples ncm (fst (Collect ncm d p)) c = cached_samples ncm p c"
  by (auto simp: cached_samples_def Collect_def comp_def split_beta intro!: arg_cong [of _ _ concat])

lemma collect_all_samples:
  "(\<And>c. c \<in> set cs \<Longrightarrow> c < length (coll_heap p)) \<Longrightarrow>
     snd (collect_all ncm cs p) = concat (map (cached_samples ncm p) cs)"
proof (induction cs arbitrary: p)
  case Nil
  then show ?case by simp
next
  case (Cons c cs)
  then have "cached_samples ncm (fst (Collect ncm c p)) = cached_samples ncm p"
    by (intro ext cached_samples_Collect) simp
  moreover have "snd (Collect ncm c p) = cached_samples ncm p c"
    by (simp add: Collect_def cached_samples_def collect_one_exported)
  ultimately show ?case
    using Cons.IH [of "fst (Collect ncm c p)"] Cons.prems by (simp add: split_beta)
qed

lemma mset_concat_map: "mset (concat (map f xs)) = (\<Sum>x \<in># mset xs. mset (f x))"
  by (induction xs) simp_all

lemma mset_two: "mset xs = mset [a, b] \<Longrightarrow> xs = [a, b] \<or> xs = rev [a, b]"
proof -
  assume m: "mset xs = mset [a, b]"
  then have "length xs = 2" using mset_eq_length by fastforce
  then obtain x y where "xs = [x, y]" by (metis (no_types, lifting) Suc_1 Suc_length_conv length_0_conv One_nat_def)
  with m show ?thesis by (auto simp: add_eq_conv_ex)
qed

lemma gather_samples:
  assumes "prom_reachable p" and "unchecked_registry gathered"
  shows "mset (snd (gather gathered ncm p)) =
           mset (concat (map (cached_samples ncm p) [0..<length (coll_heap p)]))"
proof -
  from reachable_registry [OF assms(1)] obtain r where r: "registry p = Some r" by auto
  note inv = prom_reachable_inv [OF assms(1)]
  note g = gathered_collectors [OF assms(2) inv r]
  have "c < length (coll_heap p)" if "c \<in> set (gathered r)" for c
    using that mset_eq_setD [OF g] by simp
  then have "snd (gather gathered ncm p) = concat (map (cached_samples ncm p) (gathered r))"
    by (simp add: gather_def r collect_all_samples)
  then show ?thesis unfolding mset_concat_map g by (simp only: mset_concat_map g)
qed

text \<open>Every collector that is collected, once, has its metrics marked.\<close>

definition mark_scraped :: "(string, metric_process) gomap \<Rightarrow> (string, metric_process) gomap" where
  "mark_scraped procs = map (\<lambda>(k, mp). (k, mp\<lparr>scrapped := True\<rparr>)) procs"

lemma collect_all_marks:
  "(\<And>d. d \<in> set cs \<Longrightarrow> d < length (coll_heap p)) \<Longrightarrow> distinct cs \<Longrightarrow>
     procs_of (fst (collect_all ncm cs p)) c
       = (if c \<in> set cs then mark_scraped (procs_of p c) else procs_of p c)"
proof (induction cs arbitrary: p)
  case (Cons d cs)
  have "procs_of (fst (Collect ncm d p)) c = (if c = d then mark_scraped (procs_of p c) else procs_of p c)"
    using Cons.prems(1) by (simp add: Collect_def mark_scraped_def)
  with Cons.IH [of "fst (Collect ncm d p)"] Cons.prems show ?case by (auto simp: split_beta)
qed simp

lemma gather_marks:
  assumes "prom_reachable p" and "unchecked_registry gathered" and "c < length (coll_heap p)"
  shows "procs_of (fst (gather gathered ncm p)) c = mark_scraped (procs_of p c)"
proof -
  from reachable_registry [OF assms(1)] obtain r where r: "registry p = Some r" by auto
  note g = gathered_collectors [OF assms(2) prom_reachable_inv [OF assms(1)] r]
  have "set (gathered r) = {0..<length (coll_heap p)}" "distinct (gathered r)"
    using mset_eq_setD [OF g] mset_eq_imp_distinct_iff [OF g] by simp_all
  with assms(3) collect_all_marks [of "gathered r" p ncm c] show ?thesis by (simp add: gather_def r)
qed

text \<open>
  C22: Given a registry that behaves as documented, a scrape gathers exactly the samples of all cached
  metrics, each once and as they are to be exported: those of every collector ever created, also of
  the collectors that expired, which the code unregisters without effect because they were
  registered while empty.  It answers with these samples if the library finds them consistent, and
  with the library's error otherwise.  In both cases every cached metric now counts as scraped.
\<close>

theorem scrape_exports_cache:
  assumes "prom_reachable p" and "unchecked_registry gathered"
  shows "\<exists>samples. mset samples = mset (concat (map (cached_samples ncm p) [0..<length (coll_heap p)]))
    \<and> snd (scrape gathered check ncm p) = (case check samples of None \<Rightarrow> Inr samples | Some err \<Rightarrow> Inl err)
    \<and> (\<forall>c < length (coll_heap p). procs_of (fst (scrape gathered check ncm p)) c
          = map (\<lambda>(k, mp). (k, mp\<lparr>scrapped := True\<rparr>)) (procs_of p c))"
  using gather_samples [OF assms, of ncm] gather_marks [OF assms, of _ ncm]
  by (intro exI [of _ "snd (gather gathered ncm p)"])
     (simp add: scrape_def mark_scraped_def split_beta split: option.split)

text \<open>
  A consistency check as the library documents it, for the samples of \<open>ex_ncm\<close>: no two samples of the
  same name and labels, one type under every name.  The second metric below has no time.
\<close>

definition consistent :: "(prom_desc \<times> prom_value_type \<times> string list) list \<Rightarrow> bool" where
  "consistent xs \<longleftrightarrow>
     distinct (map (\<lambda>((name, keys), t, vals). (name, mset (zip keys vals))) xs)
     \<and> list_all (\<lambda>((name, keys), t, vals). list_all (\<lambda>((name', keys'), t', vals'). name' = name \<longrightarrow> t' = t) xs) xs"

definition ex_sample_check :: "(ex_sample \<times> int64 option) list \<Rightarrow> string option" where
  "ex_sample_check xs = (if consistent (map (\<lambda>((d, t, v, ls), _). (d, t, ls)) xs) then None else Some ''inconsistent'')"

definition ex_untimed :: prom where
  "ex_untimed =
     (case ReceiveMetric ((ex_metric ''cpu'' ''h2'' 1 8)\<lparr>mTime := 0\<rparr>) ex_received of Inr p \<Rightarrow> p)"

lemma ex_untimed_reachable: "prom_reachable ex_untimed"
proof -
  have "ReceiveMetric ((ex_metric ''cpu'' ''h2'' 1 8)\<lparr>mTime := 0\<rparr>) ex_received = Inr ex_untimed"
    by (simp add: ex_untimed_def ex_defs)
  then have "prom_step ex_received ex_untimed"
    by (rule receive [rotated]) (simp add: ex_metric_def metric_aligned_def)
  then show ?thesis by (rule prom_reachable.step [OF ex_received_reachable])
qed

theorem scrape_exports_cache_witness:
  "\<exists>samples. mset samples = {#(((''cpu'', [''host'']), GaugeValue, 7, [''h1'']), Some 5),
                              (((''cpu'', [''host'']), GaugeValue, 8, [''h2'']), None)#}
     \<and> snd (scrape ex_gathered ex_sample_check ex_ncm ex_untimed) = Inr samples
     \<and> map (\<lambda>(k, mp). scrapped mp) (procs_of (fst (scrape ex_gathered ex_sample_check ex_ncm ex_untimed)) 0)
         = [True, True]"
proof -
  let ?xs = "[(((''cpu'', [''host'']), GaugeValue, 7, [''h1'']), Some 5),
              (((''cpu'', [''host'']), GaugeValue, 8, [''h2'']), None)]"
  have heap: "length (coll_heap ex_untimed) = 1" "length (procs_of ex_untimed 0) = 2"
    and xs: "concat (map (cached_samples ex_ncm ex_untimed) [0..<1]) = ?xs"
    by (simp_all add: ex_untimed_def ex_defs cached_samples_def exported_def ex_ncm_def int64_of_f64_def wrap64_def)
  from scrape_exports_cache [OF ex_untimed_reachable ex_unchecked, of ex_ncm ex_sample_check] obtain samples
    where s: "mset samples = mset ?xs"
      "snd (scrape ex_gathered ex_sample_check ex_ncm ex_untimed) = (case ex_sample_check samples of None \<Rightarrow> Inr samples | Some err \<Rightarrow> Inl err)"
      "procs_of (fst (scrape ex_gathered ex_sample_check ex_ncm ex_untimed)) 0
         = map (\<lambda>(k, mp). (k, mp\<lparr>scrapped := True\<rparr>)) (procs_of ex_untimed 0)"
    unfolding heap(1) xs by auto
  from s(1) have "samples = ?xs \<or> samples = rev ?xs" by (rule mset_two)
  then have "ex_sample_check samples = None" by (auto simp: ex_sample_check_def consistent_def)
  moreover have "map (\<lambda>(k, mp). scrapped mp) (mark_scraped (procs_of ex_untimed 0)) = [True, True]"
    by (simp add: ex_untimed_def ex_defs mark_scraped_def)
  ultimately show ?thesis using s by (intro exI [of _ samples]) (simp add: mark_scraped_def)
qed

section \<open>Cache keys\<close>

text \<open>
  The cache key does not separate the name and the label values.  If two metrics with
  the same number of labels have the same key, receiving the second overwrites the first
  and keeps the description of the first, so that it is exported with the name and the label
  keys of the first metric and the value and the label values of the second.
\<close>

theorem colliding_keys_share_entry:
  assumes "prom_reachable p" and "ReceiveMetric m1 p = Inr p1" and "ReceiveMetric m2 p1 = Inr p2"
    and "metric_aligned m1" and "length (mLabelKeys m1) = length (mLabelKeys m2)"
    and "cache_key m1 = cache_key m2"
    and "lookup_metric p (length (mLabelKeys m1)) (cache_key m1) = None"
  shows "\<exists>mp. lookup_metric p2 (length (mLabelKeys m2)) (cache_key m2) = Some mp
           \<and> description mp = (mName m1, mLabelKeys m1)
           \<and> mValue (mpMetric mp) = mValue m2 \<and> mLabelVals (mpMetric mp) = mLabelVals m2
           \<and> mInterval (mpMetric mp) = mInterval m1"
proof -
  let ?n = "length (mLabelKeys m1)" and ?k = "cache_key m1"
  have p1: "prom_reachable p1"
    using prom_reachable.step [OF assms(1) receive [OF assms(4,2)]] .
  from ReceiveMetric_result [OF prom_reachable_inv reachable_registry, OF assms(1,1), of m1] assms(2,7)
  obtain mp1 where mp1: "lookup_metric p1 ?n ?k = Some mp1"
    and "stored_as m1 None mp1" by auto
  then have mp1': "description mp1 = (mName m1, mLabelKeys m1)" "mpMetric mp1 = m1"
    by (simp_all add: stored_as_def)
  from ReceiveMetric_result [OF prom_reachable_inv reachable_registry, OF p1 p1, of m2] assms(3)
  obtain mp2 where "lookup_metric p2 ?n ?k = Some mp2" and "stored_as m2 (lookup_metric p1 ?n ?k) mp2"
    unfolding assms(5,6) by auto
  with mp1 mp1' show ?thesis by (simp add: assms(5,6) stored_as_def)
qed

theorem colliding_keys_share_entry_witness:
  "\<exists>p1 p2 mp. ReceiveMetric (ex_metric ''cpu'' ''1'' 1 7) (prom_start ex_conf) = Inr p1
     \<and> ReceiveMetric (ex_metric ''cp'' ''u1'' 1 8) p1 = Inr p2
     \<and> lookup_metric p2 1 ''cpu1'' = Some mp \<and> description mp = (''cpu'', [''host''])
     \<and> mValue (mpMetric mp) = 8 \<and> mLabelVals (mpMetric mp) = [''u1'']"
proof -
  let ?m1 = "ex_metric ''cpu'' ''1'' 1 7" and ?m2 = "ex_metric ''cp'' ''u1'' 1 8"
  have m: "length (mLabelKeys ?m2) = 1" "length (mLabelKeys ?m1) = 1" "cache_key ?m1 = ''cpu1''"
    "cache_key ?m2 = ''cpu1''" "metric_aligned ?m1"
    "mName ?m1 = ''cpu''" "mLabelKeys ?m1 = [''host'']" "mValue ?m2 = 8" "mLabelVals ?m2 = [''u1'']"
    by (simp_all add: ex_metric_def cache_key_def metric_aligned_def)
  have none: "lookup_metric (prom_start ex_conf) 1 ''cpu1'' = None"
    by (simp add: lookup_metric_def prom_start_def prom_Run_start_def prom_New_def)
  from ReceiveMetric_result [OF prom_start_inv [of ex_conf] reachable_registry, OF prom_reachable.start,
      of ?m1]
  obtain p1 where p1: "ReceiveMetric ?m1 (prom_start ex_conf) = Inr p1" by blast
  have r1: "prom_reachable p1"
    using prom_reachable.step [OF prom_reachable.start receive [OF m(5) p1]] .
  from ReceiveMetric_result [OF prom_reachable_inv reachable_registry, OF r1 r1, of ?m2]
  obtain p2 where p2: "ReceiveMetric ?m2 p1 = Inr p2" by blast
  have "\<exists>mp. lookup_metric p2 (length (mLabelKeys ?m2)) (cache_key ?m2) = Some mp
      \<and> description mp = (mName ?m1, mLabelKeys ?m1) \<and> mValue (mpMetric mp) = mValue ?m2
      \<and> mLabelVals (mpMetric mp) = mLabelVals ?m2 \<and> mInterval (mpMetric mp) = mInterval ?m1"
    using none
    by (intro colliding_keys_share_entry [OF prom_reachable.start p1 p2 m(5)]) (simp_all add: m)
  with p1 p2 show ?thesis unfolding m by blast
qed

text \<open>
  \<open>ReceiveMetric\<close> looks up the collector, then updates it, while the collector expiry
  process is not held back by the lock it takes.  If a check runs in between, on a still empty
  collector, the metric ends up in a collector that is not in the map any more; when its next
  value arrives it is cached a second time, in a new collector, and a scrape gathers it twice, which
  the library rejects: until the first copy expires, \<open>/metrics\<close> answers with an error.
\<close>

theorem collector_race_breaks_scrape:
  "\<exists>p1 c p3. find_collector (ex_metric ''cpu'' ''h1'' 1 7) (prom_start ex_conf) = Inr (p1, c)
     \<and> (let m = ex_metric ''cpu'' ''h1'' 1 7;
            p2 = UpdateMetrics c m (find_expiry_proc m (collector_check p1))
        in map_of (collectors p2) 1 = None \<and> ReceiveMetric m p2 = Inr p3
           \<and> snd (gather ex_gathered ex_ncm p3)
               = [(((''cpu'', [''host'']), GaugeValue, 7, [''h1'']), Some 5),
                  (((''cpu'', [''host'']), GaugeValue, 7, [''h1'']), Some 5)]
           \<and> snd (scrape ex_gathered ex_sample_check ex_ncm p3) = Inl ''inconsistent'')"
  by (simp add: ex_defs collector_check_def collector_Expired_def collector_Delete_def scrape_def gather_def
      ex_gathered_def Collect_def collect_one_def ex_ncm_def ex_sample_check_def consistent_def int64_of_f64_def
      wrap64_def)

section \<open>Before \<open>Run\<close>\<close>

text \<open>
  Until \<open>Run\<close> has created the registry, the first metric that arrives makes the
  application panic, whatever its configuration.  The application is subscribed to the bus
  before it is run.
\<close>

theorem receive_before_run_panics:
  "ReceiveMetric m (prom_New\<lparr>conf := cf\<rparr>) = Inl Nil_Dereference"
  by (simp add: ReceiveMetric_def find_collector_def prom_New_def Let_def)

end
