(* ===== verification/MetricPipeline.thy ===== *)
theory MetricPipeline
  imports CollectdMetrics CeilometerMetrics Sensubility MetricBus PrometheusTheorems
begin

text \<open>
  From the metric handlers to Prometheus: what the handlers publish has as many label values as
  keys, so that Prometheus receives it without a panic, in whatever order the metric bus delivers it.
\<close>

section \<open>Handlers\<close>

text \<open>What the collectd-metrics handler publishes for one message.\<close>

definition cd_message_outputs ::
  "(blob \<Rightarrow> string + cd_metric list) \<Rightarrow> (uint64 \<Rightarrow> float64) \<Rightarrow> string \<Rightarrow> bool \<Rightarrow> blob \<Rightarrow> published list" where
  "cd_message_outputs parse cf ae r b =
     (case parse b of
        Inl e \<Rightarrow> if r then [Publish_Event (cd_error_event e)] else []
      | Inr ms \<Rightarrow> concat (map (cd_spec_outputs cf ae r) ms))"

definition cd_message_ok :: "(blob \<Rightarrow> string + cd_metric list) \<Rightarrow> blob \<Rightarrow> bool" where
  "cd_message_ok parse b \<longleftrightarrow>
     (case parse b of Inl e \<Rightarrow> True | Inr ms \<Rightarrow> list_all (\<lambda>m. validateMetric m \<longrightarrow> cd_in_bounds m) ms)"

lemma cd_Handle_outputs:
  assumes "cd_message_ok parse b"
  shows "\<exists>c'. cd_Handle parse cf ae c b r = Inr (c', cd_message_outputs parse cf ae r b, None)"
proof (cases "parse b")
  case (Inl e)
  then show ?thesis by (simp add: cd_Handle_def cd_message_outputs_def)
next
  case (Inr ms)
  let ?c = "c\<lparr>cdMessagesReceived := cdMessagesReceived c + 1\<rparr>"
  from Inr assms have "\<forall>m \<in> set ms. validateMetric m \<longrightarrow> cd_in_bounds m"
    by (simp add: cd_message_ok_def list_all_iff)
  with cd_handle_loop [of ms cf ae r ?c "[]"] Inr show ?thesis
    by (simp add: cd_Handle_def cd_message_outputs_def)
qed

lemma cd_handle_all_outputs:
  "list_all (cd_message_ok parse) bs \<Longrightarrow>
     \<exists>c'. handle_all (cd_Handle parse cf ae) c bs r =
            Inr (c', concat (map (cd_message_outputs parse cf ae r) bs))"
proof (induction bs arbitrary: c)
  case Nil
  then show ?case by simp
next
  case (Cons b bs)
  from Cons.prems cd_Handle_outputs [of parse b cf ae c r] obtain c1
    where c1: "cd_Handle parse cf ae c b r = Inr (c1, cd_message_outputs parse cf ae r b, None)" by auto
  from Cons.IH [of c1] Cons.prems obtain c2
    where "handle_all (cd_Handle parse cf ae) c1 bs r = Inr (c2, concat (map (cd_message_outputs parse cf ae r) bs))"
    by auto
  with c1 show ?case by simp
qed

text \<open>What one of the three metric handlers can have published, in a run without a panic.\<close>

definition published_by_metric_handler :: "published list \<Rightarrow> bool" where
  "published_by_metric_handler outs \<longleftrightarrow>
     (\<exists>parse cf ae c bs r c'. handle_all (cd_Handle parse cf ae) c bs r = Inr (c', outs))
   \<or> (\<exists>dec tp c bs r c'. handle_all (ceil_Handle dec tp) c bs r = Inr (c', outs))
   \<or> (\<exists>parse_msg parse_outputs tp c bs r c'. sensu_ready c
        \<and> handle_all (sensu_Handle parse_msg parse_outputs tp) c bs r = Inr (c', outs))"

lemma published_metrics_aligned:
  assumes "published_by_metric_handler outs"
  shows "list_all metric_aligned (metrics_of outs)"
proof -
  have "metric_aligned m" if m: "Publish_Metric m \<in> set outs" for m
    using assms unfolding published_by_metric_handler_def
  proof (elim disjE exE conjE)
    fix parse cf ae c bs r c'
    assume "handle_all (cd_Handle parse cf ae) c bs r = Inr (c', outs)"
    then show ?thesis using m by (rule cdh.handle_all_aligned [OF TrueI])
  next
    fix dec tp c bs r c'
    assume "handle_all (ceil_Handle dec tp) c bs r = Inr (c', outs)"
    then show ?thesis using m by (rule ceilh.handle_all_aligned [OF TrueI])
  next
    fix parse_msg parse_outputs tp c bs r c'
    assume "sensu_ready c" "handle_all (sensu_Handle parse_msg parse_outputs tp) c bs r = Inr (c', outs)"
    then show ?thesis using m by (rule sensuh.handle_all_aligned)
  qed
  then show ?thesis by (simp add: list_all_iff set_metrics_of)
qed

text \<open>
  Whatever the metric handlers publish, Prometheus takes in: receiving all of it, in order and
  in any state of a run, never panics, and afterwards each metric is cached under its number of
  labels and its cache key, with the value of the last one published for that place.
\<close>

theorem metric_handlers_feed_prometheus:
  assumes "published_by_metric_handler outs" and "prom_reachable p"
  shows "\<exists>q. go_foldM (\<lambda>p m. ReceiveMetric m p) p (metrics_of outs) = Inr q \<and> prom_reachable q
     \<and> (\<forall>m \<in> set (metrics_of outs). \<exists>mp.
          lookup_metric q (length (mLabelKeys m)) (cache_key m) = Some mp
          \<and> mValue (mpMetric mp) = mValue (last (filter (same_slot m) (metrics_of outs))))"
proof -
  note al = published_metrics_aligned [OF assms(1)]
  from prom_receiver.receive_all_total [OF assms(2) al] obtain q
    where q: "go_foldM (\<lambda>p m. ReceiveMetric m p) p (metrics_of outs) = Inr q" "prom_reachable q" by blast
  with receive_all_lookup [OF assms(2) al q(1)] show ?thesis by blast
qed

theorem metric_handlers_feed_prometheus_witness:
  "\<exists>q. go_foldM (\<lambda>p m. ReceiveMetric m p) ex_received
         (metrics_of (cd_message_outputs (\<lambda>_. Inr [cd_example [''rx'']]) (\<lambda>_. 0) [] True ''x'')) = Inr q
     \<and> prom_reachable q"
proof -
  let ?parse = "\<lambda>_ :: blob. Inr [cd_example [''rx'']] :: string + cd_metric list"
  have "list_all (cd_message_ok ?parse) [''x'']"
    by (simp add: cd_message_ok_def cd_in_bounds_def cd_example_def slice_of_def)
  from cd_handle_all_outputs [OF this, of "\<lambda>_. 0" "[]" cd_New True] obtain c'
    where "handle_all (cd_Handle ?parse (\<lambda>_. 0) []) cd_New [''x''] True
             = Inr (c', cd_message_outputs ?parse (\<lambda>_. 0) [] True ''x'')" by auto
  then have "published_by_metric_handler (cd_message_outputs ?parse (\<lambda>_. 0) [] True ''x'')"
    unfolding published_by_metric_handler_def by blast
  from metric_handlers_feed_prometheus [OF this ex_received_reachable] show ?thesis by blast
qed

section \<open>The bus in between\<close>

text \<open>The metrics that several handlers have published, one program for each.\<close>

abbreviation handler_programs :: "published list list \<Rightarrow> metric list list" where
  "handler_programs outss \<equiv> map metrics_of outss"

abbreviation receive_metrics :: "prom \<Rightarrow> metric list \<Rightarrow> prom go" where
  "receive_metrics \<equiv> go_foldM (\<lambda>p m. ReceiveMetric m p)"

lemma handler_programs_aligned:
  "list_all published_by_metric_handler outss \<Longrightarrow> list_all metric_aligned (concat (handler_programs outss))"
  using published_metrics_aligned by (induction outss) auto

text \<open>In whatever order they come, all metrics are received, and each slot has the value of one of its.\<close>

lemma receive_permuted:
  assumes "prom_reachable p" and "list_all metric_aligned ms" and "mset ms' = mset ms"
  shows "\<exists>q. receive_metrics p ms' = Inr q \<and> prom_reachable q
     \<and> (\<forall>m \<in> set ms. \<exists>mp m'. lookup_metric q (length (mLabelKeys m)) (cache_key m) = Some mp
          \<and> m' \<in> set ms \<and> same_slot m m' \<and> mValue (mpMetric mp) = mValue m')"
proof -
  have set: "set ms' = set ms" using assms(3) by (metis set_mset_mset)
  with assms(2) have al: "list_all metric_aligned ms'" by (simp add: list_all_iff)
  from prom_receiver.receive_all_total [OF assms(1) al] obtain q
    where q: "receive_metrics p ms' = Inr q" "prom_reachable q" by blast
  have "\<exists>mp m'. lookup_metric q (length (mLabelKeys m)) (cache_key m) = Some mp
      \<and> m' \<in> set ms \<and> same_slot m m' \<and> mValue (mpMetric mp) = mValue m'" if m: "m \<in> set ms" for m
  proof -
    let ?ms = "filter (same_slot m) ms'"
    have "m \<in> set ?ms" using m set by (simp add: same_slot_def)
    then have "?ms \<noteq> []" by (metis empty_iff set_empty2)
    then have "last ?ms \<in> set ?ms" by (rule last_in_set)
    with receive_all_lookup [OF assms(1) al q(1), rule_format, of m] m set show ?thesis by auto
  qed
  with q show ?thesis by blast
qed

text \<open>If a metric comes as the last one, its value is the cached one.\<close>

lemma receive_last:
  assumes "prom_reachable p" and "list_all metric_aligned (ms @ [m])"
  shows "\<exists>q mp. receive_metrics p (ms @ [m]) = Inr q
     \<and> lookup_metric q (length (mLabelKeys m)) (cache_key m) = Some mp \<and> mValue (mpMetric mp) = mValue m"
proof -
  from prom_receiver.receive_all_total [OF assms] obtain q where q: "receive_metrics p (ms @ [m]) = Inr q"
    by blast
  have "last (filter (same_slot m) (ms @ [m])) = m" by (simp add: same_slot_def)
  with receive_all_lookup [OF assms q, rule_format, of m] q show ?thesis by auto
qed

section \<open>Properties\<close>

text \<open>
  C3: Whatever the metric handlers publish on the metric bus, and in whatever order its goroutines run,
  Prometheus takes in all of it without a panic: each metric is cached, in its slot (the number of
  its labels and its cache key), with the value of some published metric of that slot.  Which one is
  a matter of chance: for every published metric there is a run of the bus that leaves its value,
  even if a handler has published a newer one after it.
\<close>

theorem metric_bus_to_prometheus:
  assumes "list_all published_by_metric_handler outss" and "prom_reachable p" and "j < length rfs"
  shows "(\<forall>b. bus_reachable no_wait rfs (handler_programs outss) b \<and> bus_finished b \<longrightarrow>
       (\<exists>q. receive_metrics p (deliveries b j) = Inr q \<and> prom_reachable q
          \<and> (\<forall>m \<in> set (concat (handler_programs outss)). \<exists>mp m'.
               lookup_metric q (length (mLabelKeys m)) (cache_key m) = Some mp
               \<and> m' \<in> set (concat (handler_programs outss)) \<and> same_slot m m'
               \<and> mValue (mpMetric mp) = mValue m')))
     \<and> (\<forall>m \<in> set (concat (handler_programs outss)). \<exists>b q mp.
          bus_reachable no_wait rfs (handler_programs outss) b \<and> bus_finished b
          \<and> receive_metrics p (deliveries b j) = Inr q
          \<and> lookup_metric q (length (mLabelKeys m)) (cache_key m) = Some mp
          \<and> mValue (mpMetric mp) = mValue m)"
proof (intro conjI allI impI ballI)
  note al = handler_programs_aligned [OF assms(1)]
  let ?progs = "handler_programs outss"
  fix b
  assume "bus_reachable no_wait rfs ?progs b \<and> bus_finished b"
  then have "mset (deliveries b j) = mset (concat ?progs)" using deliveries_all assms(3) by blast
  from receive_permuted [OF assms(2) al this]
  show "\<exists>q. receive_metrics p (deliveries b j) = Inr q \<and> prom_reachable q
      \<and> (\<forall>m \<in> set (concat ?progs). \<exists>mp m'.
           lookup_metric q (length (mLabelKeys m)) (cache_key m) = Some mp
           \<and> m' \<in> set (concat ?progs) \<and> same_slot m m' \<and> mValue (mpMetric mp) = mValue m')" .
next
  note al = handler_programs_aligned [OF assms(1)]
  let ?progs = "handler_programs outss"
  fix m
  assume m: "m \<in> set (concat ?progs)"
  let ?ms = "remove1 m (concat ?progs)"
  have ms: "mset (?ms @ [m]) = mset (concat ?progs)" using m by simp
  then have "list_all metric_aligned (?ms @ [m])" using al by (metis list_all_iff set_mset_mset)
  from receive_last [OF assms(2) this] deliveries_any [OF ms assms(3)]
  show "\<exists>b q mp. bus_reachable no_wait rfs ?progs b \<and> bus_finished b
      \<and> receive_metrics p (deliveries b j) = Inr q
      \<and> lookup_metric q (length (mLabelKeys m)) (cache_key m) = Some mp
      \<and> mValue (mpMetric mp) = mValue m" by metis
qed

definition ex_two_values :: "blob \<Rightarrow> string + cd_metric list" where
  "ex_two_values = (\<lambda>_. Inr [(cd_example [''rx''])\<lparr>cdValues := Some [1, 5]\<rparr>, (cd_example [''rx''])\<lparr>cdValues := Some [2, 5]\<rparr>])"

theorem metric_bus_to_prometheus_witness:
  "\<exists>outs m1 m2 (b :: (unit, metric) bus) q mp.
     metrics_of outs = [m1, m2] \<and> same_slot m1 m2 \<and> mValue m1 = 1 \<and> mValue m2 = 2
     \<and> bus_reachable no_wait [()] [[m1, m2]] b \<and> bus_finished b
     \<and> receive_metrics ex_received (deliveries b 0) = Inr q
     \<and> lookup_metric q (length (mLabelKeys m2)) (cache_key m2) = Some mp \<and> mValue (mpMetric mp) = 1"
proof -
  let ?m1 = "cd_spec_metric (\<lambda>_. 0) ((cd_example [''rx''])\<lparr>cdValues := Some [1, 5]\<rparr>) 0"
  let ?m2 = "cd_spec_metric (\<lambda>_. 0) ((cd_example [''rx''])\<lparr>cdValues := Some [2, 5]\<rparr>) 0"
  let ?outs = "cd_message_outputs ex_two_values (\<lambda>_. 0) [] True ''x''"
  have "list_all (cd_message_ok ex_two_values) [''x'']"
    by (simp add: cd_message_ok_def ex_two_values_def cd_in_bounds_def cd_example_def slice_of_def)
  from cd_handle_all_outputs [OF this, of "\<lambda>_. 0" "[]" cd_New True] obtain c'
    where h: "handle_all (cd_Handle ex_two_values (\<lambda>_. 0) []) cd_New [''x''] True = Inr (c', ?outs)" by auto
  then have "published_by_metric_handler ?outs" unfolding published_by_metric_handler_def by blast
  then have p: "list_all published_by_metric_handler [?outs]" by simp
  have m: "metrics_of ?outs = [?m1, ?m2]"
    by (simp add: cd_message_outputs_def ex_two_values_def cd_spec_outputs_def cd_example_def validateMetric_iff slice_of_def)
  have v: "mValue ?m1 = 1" "mValue ?m2 = 2" "same_slot ?m1 ?m2"
    by (simp_all add: cd_spec_metric_def Let_def slice_of_def same_slot_def cache_key_def cd_example_def)
  from metric_bus_to_prometheus [OF p ex_received_reachable, of 0 "[()]"] m
  have "\<exists>(b :: (unit, metric) bus) q mp. bus_reachable no_wait [()] [[?m1, ?m2]] b \<and> bus_finished b
      \<and> receive_metrics ex_received (deliveries b 0) = Inr q
      \<and> lookup_metric q (length (mLabelKeys ?m1)) (cache_key ?m1) = Some mp \<and> mValue (mpMetric mp) = mValue ?m1"
    by simp
  with v m show ?thesis unfolding same_slot_def by (metis (no_types))
qed

end
