(* ===== verification/ScrapePipeline.thy ===== *)
theory ScrapePipeline
  imports MetricPipeline
begin

text \<open>
  From the metric bus to a scrape of Prometheus: metrics that no other one shares a slot with are all
  exported, each once, as they were published, in whatever order the bus delivers them, and the
  library answers with them if it takes what is consistent.
\<close>

section \<open>Samples\<close>

text \<open>The sample of a metric, and all samples that are cached.\<close>

definition metric_sample ::
  "(prom_desc \<Rightarrow> prom_value_type \<Rightarrow> float64 \<Rightarrow> string list \<Rightarrow> string + 's) \<Rightarrow> bool \<Rightarrow> metric
     \<Rightarrow> ('s \<times> int64 option) list" where
  "metric_sample ncm with_ts m =
     exported ncm with_ts (mName m, mLabelKeys m) m"

definition all_samples ::
  "(prom_desc \<Rightarrow> prom_value_type \<Rightarrow> float64 \<Rightarrow> string list \<Rightarrow> string + 's) \<Rightarrow> prom
     \<Rightarrow> ('s \<times> int64 option) list" where
  "all_samples ncm p = concat (map (cached_samples ncm p) [0..<length (coll_heap p)])"

definition metric_slot :: "metric \<Rightarrow> nat \<times> string" where
  "metric_slot m = (length (mLabelKeys m), cache_key m)"

lemma update_fresh: "map_of m k = None \<Longrightarrow> AList.update k v m = m @ [(k, v)]"
  by (induction m) (auto split: if_splits)

lemma concat_map_replace:
  assumes "c < n" and "\<And>d. d < n \<Longrightarrow> d \<noteq> c \<Longrightarrow> g d = f d" and "g c = f c @ xs"
  shows "mset (concat (map g [0..<n])) = mset (concat (map f [0..<n])) + mset xs"
proof -
  have "[0..<n] = [0..<c] @ c # [Suc c..<n]"
    using assms(1) upt_add_eq_append [of 0 c "n - c"] by (simp add: upt_conv_Cons)
  moreover have "concat (map g [0..<c]) = concat (map f [0..<c])"
    using assms(1,2) by (intro arg_cong [of _ _ concat] map_cong) simp_all
  moreover have "concat (map g [Suc c..<n]) = concat (map f [Suc c..<n])"
    using assms(2) by (intro arg_cong [of _ _ concat] map_cong) simp_all
  ultimately show ?thesis using assms(3) by simp
qed

lemma find_collector_samples:
  assumes "prom_inv p" and "find_collector m p = Inr (q, c)"
  shows "all_samples ncm q = all_samples ncm p"
proof (cases "map_of (collectors p) (length (mLabelKeys m))")
  case (Some d)
  with assms(2) show ?thesis by (simp add: find_collector_def)
next
  case None
  with assms(2) obtain r where
    "q = p\<lparr>coll_heap := coll_heap p @ [NewPromCollector (length (mLabelKeys m))],
           collectors := AList.update (length (mLabelKeys m)) (length (coll_heap p)) (collectors p),
           collectorExpiryProc := register (length (coll_heap p), length (mLabelKeys m)) (collectorExpiryProc p),
           registry := r\<rparr>"
    by (auto simp: find_collector_def Let_def split: option.splits)
  then have "length (coll_heap q) = Suc (length (coll_heap p))" "conf q = conf p"
    "\<And>d. procs_of q d = (if d < length (coll_heap p) then procs_of p d else procs_of q d)"
    "procs_of q (length (coll_heap p)) = []"
    by (simp_all add: procs_of_def nth_append)
  then have "cached_samples ncm q d = cached_samples ncm p d" if "d < length (coll_heap p)" for d
    using that by (metis cached_samples_def)
  with \<open>length (coll_heap q) = _\<close> \<open>procs_of q (length (coll_heap p)) = []\<close> show ?thesis
    by (auto simp: all_samples_def cached_samples_def [of ncm q "length (coll_heap p)"] intro!: arg_cong [of _ _ concat])
qed

lemma UpdateMetrics_samples:
  assumes inv: "prom_inv p" and map: "map_of (collectors p) (length (mLabelKeys m)) = Some c"
    and new: "map_of (procs_of p c) (cache_key m) = None"
  shows "mset (all_samples ncm (UpdateMetrics c m p)) =
    mset (all_samples ncm p) + mset (metric_sample ncm (withTimestamp (conf p)) m)"
proof -
  from collector_of_inv [OF inv map] have c: "c < length (coll_heap p)"
    and b: "cacheindexbuilder (coll_heap p ! c) = []" by simp_all
  let ?q = "UpdateMetrics c m p"
  let ?mp = "\<lparr>description = (mName m, mLabelKeys m), mpExpiry = length (exp_heap p), mpMetric = m, scrapped = False\<rparr>"
  have q: "?q = keepAlive (length (exp_heap p))
      (register_metric_expiry (mInterval m) (length (exp_heap p)) (add_proc c m p))"
    using new by (simp add: UpdateMetrics_eq [OF c b])
  have conf: "conf ?q = conf p" and len: "length (coll_heap ?q) = length (coll_heap p)"
    using UpdateMetrics_frame [OF inv map] by simp_all
  have procs: "procs_of ?q d = (if d = c then procs_of p c @ [(cache_key m, ?mp)] else procs_of p d)" for d
    using c new by (simp add: q update_fresh)
  have "cached_samples ncm ?q d = cached_samples ncm p d" if "d \<noteq> c" for d
    using that by (simp add: cached_samples_def conf procs)
  moreover have "cached_samples ncm ?q c = cached_samples ncm p c @ metric_sample ncm (withTimestamp (conf p)) m"
    by (simp add: cached_samples_def conf procs metric_sample_def)
  ultimately show ?thesis
    unfolding all_samples_def len by (intro concat_map_replace [OF c])
qed

lemma ReceiveMetric_samples:
  assumes inv: "prom_inv p" and reg: "registry p \<noteq> None" and q: "ReceiveMetric m p = Inr q"
    and new: "lookup_metric p (length (mLabelKeys m)) (cache_key m) = None"
  shows "mset (all_samples ncm q) =
           mset (all_samples ncm p) + mset (metric_sample ncm (withTimestamp (conf p)) m)"
    and "conf q = conf p"
proof -
  from find_collector_frame [OF inv reg, of m] obtain p1 c where f: "find_collector m p = Inr (p1, c)"
    and p1: "prom_inv p1" "map_of (collectors p1) (length (mLabelKeys m)) = Some c"
      "lookup_metric p1 = lookup_metric p" "conf p1 = conf p" by auto
  let ?p2 = "find_expiry_proc m p1"
  have q: "q = UpdateMetrics c m ?p2" using q f by (simp add: ReceiveMetric_def)
  have c2: "collectors ?p2 = collectors p1" by (simp add: find_expiry_proc_def split: option.split)
  have inv2: "prom_inv ?p2" using find_expiry_proc_inv [OF p1(1), of m] by simp
  have map2: "map_of (collectors ?p2) (length (mLabelKeys m)) = Some c" using p1(2) c2 by simp
  have "map_of (procs_of ?p2 c) (cache_key m) = None"
    using new p1(2,3) by (metis find_expiry_proc_frame(7) lookup_metric_def option.simps(5))
  moreover have "all_samples ncm ?p2 = all_samples ncm p1"
  proof -
    have "cached_samples ncm ?p2 = cached_samples ncm p1" by (simp add: fun_eq_iff cached_samples_def)
    then show ?thesis by (simp add: all_samples_def)
  qed
  ultimately show "mset (all_samples ncm q) =
      mset (all_samples ncm p) + mset (metric_sample ncm (withTimestamp (conf p)) m)"
    unfolding q using p1(4) UpdateMetrics_samples [OF inv2 map2, of ncm] find_collector_samples [OF inv f, of ncm]
    by simp
  show "conf q = conf p" unfolding q using UpdateMetrics_frame(3) [OF inv2 map2] p1(4) by simp
qed

text \<open>Metrics with slots of their own, in a state where these are free.\<close>

lemma receive_distinct:
  assumes "prom_reachable p" and "list_all metric_aligned ms" and "distinct (map metric_slot ms)"
    and "\<And>m. m \<in> set ms \<Longrightarrow> lookup_metric p (length (mLabelKeys m)) (cache_key m) = None"
  shows "\<exists>q. receive_metrics p ms = Inr q \<and> prom_reachable q
     \<and> mset (all_samples ncm q) =
         mset (all_samples ncm p) + mset (concat (map (metric_sample ncm (withTimestamp (conf p))) ms))"
  using assms
proof (induction ms arbitrary: p)
  case Nil
  then show ?case by simp
next
  case (Cons m ms)
  note inv = prom_reachable_inv [OF Cons.prems(1)] and reg = reachable_registry [OF Cons.prems(1)]
  from prom_receiver.receive_total [OF Cons.prems(1), of m] Cons.prems(2) obtain p1 where
    p1: "ReceiveMetric m p = Inr p1" "prom_reachable p1" by auto
  note s = ReceiveMetric_samples [OF inv reg p1(1) Cons.prems(4) [of m], simplified]
  have "lookup_metric p1 (length (mLabelKeys m')) (cache_key m') = None" if "m' \<in> set ms" for m'
  proof -
    have "metric_slot m' \<noteq> metric_slot m" using that Cons.prems(3) by (auto simp: rev_image_eqI)
    then have "(length (mLabelKeys m'), cache_key m') \<noteq> (length (mLabelKeys m), cache_key m)"
      by (simp add: metric_slot_def)
    with ReceiveMetric_result [OF inv reg, of m] p1(1) Cons.prems(4) [of m'] that show ?thesis by auto
  qed
  with Cons.IH [OF p1(2)] Cons.prems(2,3) obtain q where
    "receive_metrics p1 ms = Inr q" "prom_reachable q"
    "mset (all_samples ncm q) =
       mset (all_samples ncm p1) + mset (concat (map (metric_sample ncm (withTimestamp (conf p1))) ms))"
    by auto
  with p1(1) s(1) [of ncm] s(2) show ?case by simp
qed

text \<open>All samples are gathered, so that it does not matter in which order the metrics came.\<close>

lemma prom_start_empty:
  "lookup_metric (prom_start cf) n k = None" "all_samples ncm (prom_start cf) = []" "conf (prom_start cf) = cf"
  by (simp_all add: prom_start_def prom_Run_start_def prom_New_def lookup_metric_def all_samples_def)

lemma gather_of_delivered:
  assumes "list_all metric_aligned ms" and "distinct (map metric_slot ms)" and "mset ms' = mset ms"
    and "unchecked_registry gathered"
  shows "\<exists>q. receive_metrics (prom_start cf) ms' = Inr q
     \<and> mset (snd (gather gathered ncm q)) = mset (concat (map (metric_sample ncm (withTimestamp cf)) ms))"
proof -
  have "set ms' = set ms" using assms(3) by (metis set_mset_mset)
  then have al: "list_all metric_aligned ms'" using assms(1) by (simp add: list_all_iff)
  have "mset (map metric_slot ms') = mset (map metric_slot ms)" using assms(3) by simp
  then have d: "distinct (map metric_slot ms')" using assms(2) by (metis distinct_count_atmost_1 mset_eq_imp_distinct_iff)
  from receive_distinct [OF prom_reachable.start al d, of cf ncm] obtain q where
    q: "receive_metrics (prom_start cf) ms' = Inr q" "prom_reachable q"
      "mset (all_samples ncm q) = mset (concat (map (metric_sample ncm (withTimestamp cf)) ms'))"
    by (auto simp: prom_start_empty)
  have "mset (concat (map f ms')) = mset (concat (map f ms))" for f :: "metric \<Rightarrow> ('a \<times> int64 option) list"
    unfolding mset_concat_map assms(3) ..
  with q gather_samples [OF q(2) assms(4), of ncm, folded all_samples_def] show ?thesis by auto
qed

section \<open>The check of the samples\<close>

text \<open>
  What the client library documents of its check, as far as the metrics are concerned: samples are
  accepted, in any order, if no two of their metrics have the same name and labels and the metrics of
  one name have one type.
\<close>

definition series_of :: "metric \<Rightarrow> prom_desc \<times> prom_value_type \<times> string list" where
  "series_of m = ((mName m, mLabelKeys m), typeToPromType (mType m), mLabelVals m)"

definition accepts_consistent ::
  "(prom_desc \<Rightarrow> prom_value_type \<Rightarrow> float64 \<Rightarrow> string list \<Rightarrow> string + 's)
     \<Rightarrow> (('s \<times> int64 option) list \<Rightarrow> string option) \<Rightarrow> bool" where
  "accepts_consistent ncm check \<longleftrightarrow>
     (\<forall>ts ms xs. consistent (map series_of ms) \<longrightarrow>
        mset xs = mset (concat (map (metric_sample ncm ts) ms)) \<longrightarrow> check xs = None)"

lemma consistent_perm: "mset xs = mset ys \<Longrightarrow> consistent xs = consistent ys"
proof -
  assume m: "mset xs = mset ys"
  then have "mset (map f xs) = mset (map f ys)" for f :: "_ \<Rightarrow> string \<times> (string \<times> string) multiset" by simp
  then have "distinct (map f xs) = distinct (map f ys)" for f :: "_ \<Rightarrow> string \<times> (string \<times> string) multiset"
    by (metis mset_eq_imp_distinct_iff)
  moreover have "set xs = set ys" using m by (rule mset_eq_setD)
  ultimately show ?thesis by (simp add: consistent_def list_all_iff)
qed

text \<open>The check of the examples behaves as documented.\<close>

lemma ex_sample_check_accepts: "accepts_consistent ex_ncm ex_sample_check"
  unfolding accepts_consistent_def
proof (intro allI impI)
  fix ts ms xs
  assume c: "consistent (map series_of ms)" and m: "mset xs = mset (concat (map (metric_sample ex_ncm ts) ms))"
  let ?f = "\<lambda>((d, t, v, ls), _). (d, t, ls)"
  have "map ?f (metric_sample ex_ncm ts m) = [series_of m]" for m
    by (cases "mType m") (simp_all add: metric_sample_def exported_def ex_ncm_def series_of_def)
  then have "map ?f (concat (map (metric_sample ex_ncm ts) ms)) = map series_of ms"
    by (simp add: map_concat comp_def)
  moreover have "mset (map ?f xs) = mset (map ?f (concat (map (metric_sample ex_ncm ts) ms)))"
    using m by (simp only: mset_map)
  ultimately have "consistent (map ?f xs)" using c consistent_perm by metis
  then show "ex_sample_check xs = None" by (simp add: ex_sample_check_def)
qed

end
