(* ===== verification/Logs.thy ===== *)
theory Logs
  imports Handler GoTime
begin

text \<open>
  The logs handler (\<open>plugins/handler/logs/main.go\<close> and \<open>pkg/lib/syslog.go\<close>): a log record in
  JSON becomes a \<open>LOG\<close> event, with the severity of its severity field or, if so configured,
  of the first words of its message.  The JSON decoder is a parameter that gives the fields
  of the record or an error text; \<open>time_Parse\<close> is as in \<open>GoTime\<close>.
\<close>

section \<open>Syslog severities\<close>

text \<open>
  A \<open>SyslogSeverity\<close> is any integer in Go; the constants are 0 to 8 and \<open>UNKNOWN\<close> is the last.
\<close>

type_synonym syslog_severity = int64

definition syslog_names :: "string list" where
  "syslog_names =
     [''emergency'', ''alert'', ''critical'', ''error'', ''warning'', ''notice'', ''info'', ''debug'',
      ''unknown'']"

definition syslog_UNKNOWN :: syslog_severity where
  "syslog_UNKNOWN = 8"

definition syslog_String :: "syslog_severity \<Rightarrow> string go" where
  "syslog_String rs = slice_get syslog_names rs"

definition ToEventSeverity :: "syslog_severity \<Rightarrow> event_severity go" where
  "ToEventSeverity rs =
     slice_get [CRITICAL, CRITICAL, CRITICAL, CRITICAL, WARNING, INFO, INFO, DEBUG, UNKNOWN] rs"

text \<open>
  The names are plain words, so that matching one as a regular expression is looking for it
  as a substring.
\<close>

definition word_matches :: "string \<Rightarrow> string list \<Rightarrow> bool" where
  "word_matches word tokens \<longleftrightarrow>
     list_ex (\<lambda>token. token \<noteq> [] \<and> str_contains (to_lower token) word) tokens"

text \<open>The loop over the severities, \<open>n\<close> of which are left, from the most severe on.\<close>

fun severity_loop :: "nat \<Rightarrow> int \<Rightarrow> string list \<Rightarrow> syslog_severity option go" where
  "severity_loop 0 i tokens = Inr None"
| "severity_loop (Suc n) i tokens =
     (case syslog_String i of
        Inl p \<Rightarrow> Inl p
      | Inr word \<Rightarrow>
          if word_matches word tokens then Inr (Some i) else severity_loop n (i + 1) tokens)"

definition corrTokenCount :: nat where
  "corrTokenCount = 10"

definition fromMessage :: "string \<Rightarrow> syslog_severity \<Rightarrow> (bool \<times> syslog_severity) go" where
  "fromMessage msg rs =
     go_bind (severity_loop (nat syslog_UNKNOWN) 0 (str_split_n '' '' corrTokenCount msg)) (\<lambda>res.
       case res of Some i \<Rightarrow> Inr (True, i) | None \<Rightarrow> Inr (False, rs))"

section \<open>Configuration and parsing\<close>

record log_config =
  MessageField :: string
  TimestampField :: string
  HostnameField :: string
  SeverityField :: string
  CorrectSeverity :: bool
  IndexPrefix :: string

definition default_log_config :: log_config where
  "default_log_config =
     \<lparr>MessageField = [], TimestampField = [], HostnameField = [], SeverityField = [],
      CorrectSeverity = False, IndexPrefix = ''sglogs''\<rparr>"

type_synonym log_fields = "(string, ivalue) gomap"

text \<open>A missing key gives the nil interface, on which the assertion panics as well.\<close>

definition GetSeverityFromLog :: "log_fields \<Rightarrow> log_config \<Rightarrow> syslog_severity go" where
  "GetSeverityFromLog fs config =
     (let severity = (case lookup_string fs (SeverityField config) of
            Some s \<Rightarrow> (case atoi s of Some n \<Rightarrow> n | None \<Rightarrow> syslog_UNKNOWN)
          | None \<Rightarrow> syslog_UNKNOWN)
      in if CorrectSeverity config then
           (case lookup_string fs (MessageField config) of
              None \<Rightarrow> Inl Failed_Type_Assertion
            | Some msg \<Rightarrow> go_bind (fromMessage msg severity) (\<lambda>(found, rs). Inr rs))
         else Inr severity)"

definition log_index :: "string \<Rightarrow> string \<Rightarrow> go_time \<Rightarrow> string" where
  "log_index prefix hostname t =
     (case Date t of (year, month, day) \<Rightarrow>
        prefix @ ''-'' @ replace_all ''-'' ''_'' hostname @ ''.'' @ itoa year @ ''.''
        @ itoa_pad2 month @ ''.'' @ itoa_pad2 day)"

definition parse_log ::
  "(blob \<Rightarrow> string + log_fields) \<Rightarrow> time_parser \<Rightarrow> log_config \<Rightarrow> blob \<Rightarrow> (string + event) go" where
  "parse_log json time_Parse config b =
     (case json b of
        Inl err \<Rightarrow> Inr (Inl err)
      | Inr logFields \<Rightarrow>
          (case lookup_string logFields (MessageField config) of
             None \<Rightarrow> Inr (Inl (''unable to find a log message under field called: '' @ MessageField config))
           | Some msg \<Rightarrow>
               go_bind (GetSeverityFromLog logFields config) (\<lambda>slSeverity.
               case lookup_string logFields (HostnameField config) of
                 None \<Rightarrow> Inr (Inl (''unable to find the hostname under field called: '' @ HostnameField config))
               | Some hostname \<Rightarrow>
                   (case lookup_string logFields (TimestampField config) of
                      None \<Rightarrow> Inr (Inl (''unable to find the timestamp under field called: '' @ TimestampField config))
                    | Some timestring \<Rightarrow>
                        (case TimeFromFormat time_Parse timestring of
                           Inl err \<Rightarrow> Inr (Inl err)
                         | Inr t \<Rightarrow>
                             (let labels = AList.delete (TimestampField config)
                                             (AList.delete (MessageField config) logFields)
                              in go_bind (ToEventSeverity slSeverity) (\<lambda>evtSeverity.
                                   Inr (Inr \<lparr>eIndex = log_index (IndexPrefix config) hostname t,
                                             eTime = f64_of_int (unix_seconds t), eType = LOG,
                                             ePublisher = hostname, eSeverity = evtSeverity,
                                             eLabels = labels, eAnnotations = [], eMessage = msg\<rparr>))))))))"

section \<open>The handler\<close>

record log_handler =
  totalLogsReceived :: uint64
  lhConfig :: log_config

definition log_New :: log_handler where
  "log_New = \<lparr>totalLogsReceived = 0, lhConfig = default_log_config\<rparr>"

definition log_Identify :: string where
  "log_Identify = ''log''"

definition log_error_event :: "string \<Rightarrow> blob \<Rightarrow> event" where
  "log_error_event err msg =
     error_event log_Identify
       [(''error'', IString err), (''context'', IString msg),
        (''message'', IString ''failed to parse log - disregarding'')]
       ''internal smartgateway log handler error''"

text \<open>The \<open>err\<close> that \<open>Handle\<close> returns is the outer one, which the \<open>if\<close> statement shadows.\<close>

definition log_Handle ::
  "(blob \<Rightarrow> string + log_fields) \<Rightarrow> time_parser \<Rightarrow> log_handler handle" where
  "log_Handle json time_Parse l0 msg reportErrors =
     (let l = l0\<lparr>totalLogsReceived := totalLogsReceived l0 + 1\<rparr>
      in go_bind (parse_log json time_Parse (lhConfig l) msg) (\<lambda>res.
           case res of
             Inr ev \<Rightarrow> Inr (l, [Publish_Event ev], None)
           | Inl err \<Rightarrow>
               Inr (l, if reportErrors then [Publish_Event (log_error_event err msg)] else [], None)))"

text \<open>\<open>ParseConfig\<close> gives the configuration it leaves behind and its error.\<close>

definition log_Config ::
  "(log_config \<Rightarrow> log_config \<times> string option) \<Rightarrow> log_handler \<Rightarrow> log_handler \<times> string option" where
  "log_Config ParseConfig l =
     (let (cf, err) = ParseConfig default_log_config in (l\<lparr>lhConfig := cf\<rparr>, err))"

definition log_Run_tick :: "log_handler \<Rightarrow> metric list" where
  "log_Run_tick l = [self_metric ''sg_total_logs_received'' (totalLogsReceived l)]"

section \<open>Lemmas\<close>

lemma severity_loop_find:
  "k + n \<le> 9 \<Longrightarrow>
     severity_loop n (int k) tokens =
       Inr (map_option int (find (\<lambda>i. word_matches (syslog_names ! i) tokens) [k..<k + n]))"
proof (induction n arbitrary: k)
  case 0
  then show ?case by simp
next
  case (Suc n)
  then have k: "k < 9" by simp
  then have "syslog_String (int k) = Inr (syslog_names ! k)"
    unfolding syslog_String_def by (intro slice_get_nat) (simp add: syslog_names_def)
  moreover have "[k..<k + Suc n] = k # [Suc k..<Suc k + n]" by (simp add: upt_rec)
  moreover have "int k + 1 = int (Suc k)" by simp
  ultimately show ?case using Suc.IH [of "Suc k"] Suc.prems by (simp only: severity_loop.simps) simp
qed

lemma fromMessage_total: "\<exists>res. fromMessage msg rs = Inr res"
  using severity_loop_find [of 0 8] by (auto simp: fromMessage_def syslog_UNKNOWN_def split: option.split)

lemma GetSeverity_total:
  "lookup_string fs (MessageField cf) = Some msg \<Longrightarrow> \<exists>rs. GetSeverityFromLog fs cf = Inr rs"
  using fromMessage_total by (fastforce simp: GetSeverityFromLog_def Let_def go_bind_eq_Inr_iff)

lemma ToEventSeverity_panics: "(\<exists>p. ToEventSeverity rs = Inl p) \<longleftrightarrow> rs < 0 \<or> 8 < rs"
  by (auto simp: ToEventSeverity_def slice_get_def)

text \<open>The fields of a log record that is complete, and its time.\<close>

definition complete_log ::
  "time_parser \<Rightarrow> log_config \<Rightarrow> log_fields \<Rightarrow> (string \<times> string \<times> go_time) option" where
  "complete_log tp cf fs =
     (case (lookup_string fs (MessageField cf), lookup_string fs (HostnameField cf),
            lookup_string fs (TimestampField cf)) of
        (Some msg, Some host, Some ts) \<Rightarrow>
          (case TimeFromFormat tp ts of Inr t \<Rightarrow> Some (msg, host, t) | Inl e \<Rightarrow> None)
      | _ \<Rightarrow> None)"

definition log_event :: "log_config \<Rightarrow> log_fields \<Rightarrow> string \<times> string \<times> go_time \<Rightarrow> event_severity \<Rightarrow> event" where
  "log_event cf fs mht sev =
     (case mht of (msg, host, t) \<Rightarrow>
        \<lparr>eIndex = log_index (IndexPrefix cf) host t, eTime = f64_of_int (unix_seconds t), eType = LOG,
         ePublisher = host, eSeverity = sev,
         eLabels = AList.delete (TimestampField cf) (AList.delete (MessageField cf) fs),
         eAnnotations = [], eMessage = msg\<rparr>)"

lemma parse_log_incomplete:
  assumes "json b = Inr fs" and "complete_log tp cf fs = None"
  shows "\<exists>e. parse_log json tp cf b = Inr (Inl e)"
proof (cases "lookup_string fs (MessageField cf)")
  case None
  with assms show ?thesis by (simp add: parse_log_def)
next
  case (Some msg)
  with GetSeverity_total obtain rs where "GetSeverityFromLog fs cf = Inr rs" by blast
  with Some assms show ?thesis
    by (simp add: parse_log_def complete_log_def split: option.splits sum.splits)
qed

lemma parse_log_complete:
  assumes "json b = Inr fs" and "complete_log tp cf fs = Some mht"
  shows "parse_log json tp cf b =
    go_bind (go_bind (GetSeverityFromLog fs cf) ToEventSeverity) (\<lambda>sev. Inr (Inr (log_event cf fs mht sev)))"
proof -
  from assms(2) obtain msg where "lookup_string fs (MessageField cf) = Some msg"
    by (auto simp: complete_log_def split: option.splits)
  moreover from this GetSeverity_total obtain rs where "GetSeverityFromLog fs cf = Inr rs" by blast
  ultimately show ?thesis
    using assms by (auto simp: parse_log_def complete_log_def log_event_def Let_def split: option.splits sum.splits)
qed

lemma log_Handle_eq:
  "log_Handle json tp l b r =
     (case parse_log json tp (lhConfig l) b of
        Inl p \<Rightarrow> Inl p
      | Inr res \<Rightarrow>
          Inr (l\<lparr>totalLogsReceived := totalLogsReceived l + 1\<rparr>,
               (case res of Inr ev \<Rightarrow> [Publish_Event ev]
                | Inl err \<Rightarrow> if r then [Publish_Event (log_error_event err b)] else []), None))"
  by (simp add: log_Handle_def Let_def split: sum.split)

interpretation logh: handler "log_Handle json tp" log_Identify "\<lambda>_. True" totalLogsReceived
  for json tp
proof unfold_locales
  fix s b r s' outs err
  assume h: "log_Handle json tp s b r = Inr (s', outs, err)"
  then obtain res where p: "parse_log json tp (lhConfig s) b = Inr res"
    by (auto simp: log_Handle_eq split: sum.splits)
  with h show "totalLogsReceived s' = totalLogsReceived s + 1"
    by (auto simp: log_Handle_eq)
  have "eType ev \<noteq> ERROR" if "res = Inr ev" for ev
  proof (cases "json b")
    case (Inl e)
    with p that show ?thesis by (simp add: parse_log_def)
  next
    case (Inr fs)
    from p that have ev: "parse_log json tp (lhConfig s) b = Inr (Inr ev)" by simp
    show ?thesis
    proof (cases "complete_log tp (lhConfig s) fs")
      case None
      from parse_log_incomplete [where json = json and b = b, OF Inr None] ev show ?thesis by simp
    next
      case (Some mht)
      from trans [OF parse_log_complete [where json = json and b = b, OF Inr Some, symmetric] ev]
      show ?thesis by (cases mht) (auto simp: go_bind_eq_Inr_iff log_event_def)
    qed
  qed
  with h p show "list_all (output_ok log_Identify r) outs"
    by (auto simp: log_Handle_eq log_error_event_def split: sum.splits)
qed simp

section \<open>Properties\<close>

definition ex_log_config :: log_config where
  "ex_log_config =
     \<lparr>MessageField = ''m'', TimestampField = ''t'', HostnameField = ''h'', SeverityField = ''s'',
      CorrectSeverity = False, IndexPrefix = ''sglogs''\<rparr>"

definition ex_log_fields :: "string \<Rightarrow> log_fields" where
  "ex_log_fields sev =
     [(''m'', IString ''disk full''), (''t'', IString ''now''), (''h'', IString ''host-1''), (''s'', IString sev)]"

definition ex_log_parser :: time_parser where
  "ex_log_parser l s = Some \<lparr>unix_seconds = 1583503267, nanoseconds = 0, zone_offset = 0\<rparr>"

text \<open>
  C25: \<open>Handle\<close> panics exactly if the record is complete and its severity is a number outside
  0 to 8, which nothing checks before it is used as an index.
\<close>

theorem log_handle_panics_iff:
  "(\<exists>p. log_Handle json tp l b r = Inl p) \<longleftrightarrow>
     (\<exists>fs rs. json b = Inr fs \<and> complete_log tp (lhConfig l) fs \<noteq> None
        \<and> GetSeverityFromLog fs (lhConfig l) = Inr rs \<and> (rs < 0 \<or> 8 < rs))"
proof (cases "json b")
  case (Inl e)
  then show ?thesis by (simp add: log_Handle_def Let_def parse_log_def)
next
  case (Inr fs)
  have "(\<exists>p. log_Handle json tp l b r = Inl p) \<longleftrightarrow> (\<exists>p. parse_log json tp (lhConfig l) b = Inl p)"
    by (cases "parse_log json tp (lhConfig l) b") (simp_all add: log_Handle_eq)
  also have "\<dots> \<longleftrightarrow> (\<exists>rs. complete_log tp (lhConfig l) fs \<noteq> None
        \<and> GetSeverityFromLog fs (lhConfig l) = Inr rs \<and> (rs < 0 \<or> 8 < rs))"
  proof (cases "complete_log tp (lhConfig l) fs")
    case None
    with parse_log_incomplete [where json = json and b = b, OF Inr None] show ?thesis by auto
  next
    case (Some mht)
    then obtain msg where "lookup_string fs (MessageField (lhConfig l)) = Some msg"
      by (auto simp: complete_log_def split: option.splits)
    with GetSeverity_total obtain rs where "GetSeverityFromLog fs (lhConfig l) = Inr rs" by blast
    with Some ToEventSeverity_panics [of rs] show ?thesis
      by (simp add: parse_log_complete [where json = json and b = b, OF Inr Some] go_bind_eq_Inl_iff)
  qed
  finally show ?thesis using Inr by simp
qed

text \<open>
  C26: If it does not panic, \<open>Handle\<close> publishes one event: for a complete record the \<open>LOG\<close>
  event of its message, host, day and severity, labelled with all fields but message and time
  stamp; otherwise an error event, if errors are reported, and nothing if not.  It returns no
  error in any case.
\<close>

theorem log_handle_result:
  assumes "log_Handle json tp l b r = Inr (l', outs, err)"
  shows "err = None \<and> l' = l\<lparr>totalLogsReceived := totalLogsReceived l + 1\<rparr>
     \<and> (case json b of
          Inl e \<Rightarrow> outs = (if r then [Publish_Event (log_error_event e b)] else [])
        | Inr fs \<Rightarrow>
            (case complete_log tp (lhConfig l) fs of
               None \<Rightarrow> \<exists>e. outs = (if r then [Publish_Event (log_error_event e b)] else [])
             | Some mht \<Rightarrow> \<exists>sev. outs = [Publish_Event (log_event (lhConfig l) fs mht sev)]
                 \<and> go_bind (GetSeverityFromLog fs (lhConfig l)) ToEventSeverity = Inr sev))"
proof (cases "json b")
  case (Inl e)
  with assms show ?thesis by (auto simp: log_Handle_eq parse_log_def)
next
  case (Inr fs)
  let ?cf = "lhConfig l"
  show ?thesis
  proof (cases "complete_log tp ?cf fs")
    case None
    from parse_log_incomplete [where json = json and b = b, OF Inr None] obtain e where "parse_log json tp ?cf b = Inr (Inl e)" by blast
    with assms Inr None show ?thesis by (auto simp: log_Handle_eq)
  next
    case (Some mht)
    note p = parse_log_complete [where json = json and b = b, OF Inr Some]
    with assms obtain sev where sev: "go_bind (GetSeverityFromLog fs ?cf) ToEventSeverity = Inr sev"
      by (cases "go_bind (GetSeverityFromLog fs ?cf) ToEventSeverity") (simp_all add: log_Handle_eq)
    with p assms Inr Some show ?thesis by (auto simp: log_Handle_eq)
  qed
qed

theorem log_handle_result_witness:
  "\<exists>l' ev. log_Handle (\<lambda>_. Inr (ex_log_fields ''3'')) ex_log_parser (log_New\<lparr>lhConfig := ex_log_config\<rparr>) ''x'' True
            = Inr (l', [Publish_Event ev], None)
         \<and> eSeverity ev = CRITICAL \<and> map fst (eLabels ev) = [''h'', ''s''] \<and> ePublisher ev = ''host-1''"
proof -
  let ?l = "log_New\<lparr>lhConfig := ex_log_config\<rparr>" and ?json = "\<lambda>_. Inr (ex_log_fields ''3'')"
  have cf: "lhConfig ?l = ex_log_config" by (simp add: log_New_def)
  have a: "atoi ''3'' = Some 3" by code_simp
  have sev: "GetSeverityFromLog (ex_log_fields ''3'') ex_log_config = Inr 3"
    by (simp add: GetSeverityFromLog_def ex_log_fields_def ex_log_config_def lookup_string_def a)
  have c: "complete_log ex_log_parser ex_log_config (ex_log_fields ''3'')
      = Some (''disk full'', ''host-1'', \<lparr>unix_seconds = 1583503267, nanoseconds = 0, zone_offset = 0\<rparr>)"
    by (simp add: complete_log_def ex_log_fields_def ex_log_config_def lookup_string_def ex_log_parser_def
        TimeFromFormat_def log_layouts_def)
  have "\<not> (\<exists>p. log_Handle ?json ex_log_parser ?l ''x'' True = Inl p)"
    by (simp add: log_Handle_eq cf parse_log_complete [where json = "\<lambda>_. Inr (ex_log_fields ''3'')" and b = "''x''", OF refl c] sev ToEventSeverity_def slice_get_def)
  then obtain l' outs err where h: "log_Handle ?json ex_log_parser ?l ''x'' True = Inr (l', outs, err)"
    by (cases "log_Handle ?json ex_log_parser ?l ''x'' True") auto
  from log_handle_result [OF h] have "err = None" and
    "outs = [Publish_Event (log_event ex_log_config (ex_log_fields ''3'')
       (''disk full'', ''host-1'', \<lparr>unix_seconds = 1583503267, nanoseconds = 0, zone_offset = 0\<rparr>) CRITICAL)]"
    unfolding cf by (auto simp: c sev ToEventSeverity_def slice_get_def)
  with h show ?thesis by (simp add: log_event_def ex_log_fields_def ex_log_config_def)
qed

text \<open>
  The severity read from a message is the most severe one whose name occurs, in any case
  and also as a part of a word, in one of the first ten parts of the message (the tenth is the
  whole rest); without one the severity is left as it was.  It never panics.
\<close>

theorem severity_from_message:
  "fromMessage msg rs =
     Inr (case find (\<lambda>i. word_matches (syslog_names ! i) (str_split_n '' '' 10 msg)) [0..<8] of
            Some i \<Rightarrow> (True, int i)
          | None \<Rightarrow> (False, rs))"
  using severity_loop_find [of 0 8 "str_split_n '' '' 10 msg"]
  by (simp add: fromMessage_def syslog_UNKNOWN_def corrTokenCount_def split: option.split)

end
