(* ===== verification/GoTimeParse.thy ===== *)
theory GoTimeParse
  imports GoTime GoStrings
begin

text \<open>
  Go's \<open>time.Parse\<close> for the layouts that sg-core uses: the layout is cut into the elements it
  contains, and the value is read element by element.  Only the elements that occur in these
  layouts are modelled.
\<close>

section \<open>Layouts\<close>

datatype layout_std =
    Long_Year
  | Short_Month
  | Zero_Month
  | Week_Day
  | Under_Day
  | Zero_Day
  | Hour24
  | Zero_Minute
  | Zero_Second
  | ISO8601_Colon_TZ
  | Frac_Second0 nat
  | Frac_Second9

definition starts_with_lower :: "string \<Rightarrow> bool" where
  "starts_with_lower s =
     (case s of [] \<Rightarrow> False | c # _ \<Rightarrow> 97 \<le> (of_char c :: nat) \<and> (of_char c :: nat) \<le> 122)"

definition starts_with_digit :: "string \<Rightarrow> bool" where
  "starts_with_digit s = (case s of [] \<Rightarrow> False | c # _ \<Rightarrow> is_digit c)"

text \<open>The element a layout starts with, and its length.\<close>

definition std_at :: "string \<Rightarrow> (layout_std \<times> nat) option" where
  "std_at s =
     (if has_prefix s ''2006'' then Some (Long_Year, 4)
      else if has_prefix s ''Jan'' \<and> \<not> has_prefix s ''January'' \<and> \<not> starts_with_lower (drop 3 s)
      then Some (Short_Month, 3)
      else if has_prefix s ''Mon'' \<and> \<not> has_prefix s ''Monday'' \<and> \<not> starts_with_lower (drop 3 s)
      then Some (Week_Day, 3)
      else if has_prefix s ''_2'' \<and> \<not> has_prefix s ''_2006'' then Some (Under_Day, 2)
      else if has_prefix s ''01'' then Some (Zero_Month, 2)
      else if has_prefix s ''02'' then Some (Zero_Day, 2)
      else if has_prefix s ''04'' then Some (Zero_Minute, 2)
      else if has_prefix s ''05'' then Some (Zero_Second, 2)
      else if has_prefix s ''15'' then Some (Hour24, 2)
      else if has_prefix s ''Z07:00'' \<and> \<not> has_prefix s ''Z07:00:00'' then Some (ISO8601_Colon_TZ, 6)
      else (case s of
              c # d # r \<Rightarrow>
                if c \<in> {CHR ''.'', CHR '',''} \<and> d \<in> {CHR ''0'', CHR ''9''}
                then (let n = length (takeWhile (\<lambda>x. x = d) (d # r))
                      in if starts_with_digit (drop n (d # r)) then None
                         else Some (if d = CHR ''9'' then Frac_Second9 else Frac_Second0 n, Suc n))
                else None
            | _ \<Rightarrow> None))"

lemma std_at_pos: "std_at s = Some (std, n) \<Longrightarrow> 0 < n \<and> s \<noteq> []"
  by (cases s) (auto simp: std_at_def has_prefix_def Let_def split: if_splits list.splits)

text \<open>The elements of a layout, each with the text in front of it, and the text at the end.\<close>

function layout_chunks :: "string \<Rightarrow> string \<Rightarrow> (string \<times> layout_std) list \<times> string" where
  "layout_chunks prefix s =
     (case std_at s of
        Some (std, n) \<Rightarrow> (let (cs, rest) = layout_chunks [] (drop n s) in ((prefix, std) # cs, rest))
      | None \<Rightarrow> (case s of [] \<Rightarrow> ([], prefix) | c # r \<Rightarrow> layout_chunks (prefix @ [c]) r))"
  by pat_completeness auto
termination
  by (relation "measure (\<lambda>(prefix, s). length s)") (auto dest: std_at_pos)

declare layout_chunks.simps [simp del]

section \<open>Reading a value\<close>

record parsed_time =
  ptYear :: int
  ptMonth :: int
  ptDay :: int
  ptHour :: int
  ptMin :: int
  ptSec :: int
  ptNsec :: int
  ptUTC :: bool
  ptOffset :: "int option"

definition parsed_init :: parsed_time where
  "parsed_init =
     \<lparr>ptYear = 0, ptMonth = - 1, ptDay = - 1, ptHour = 0, ptMin = 0, ptSec = 0, ptNsec = 0, ptUTC = False,
      ptOffset = None\<rparr>"

text \<open>\<open>skip\<close>: the text in front of an element; blanks stand for any number of blanks.\<close>

definition cutspace :: "string \<Rightarrow> string" where
  "cutspace s = dropWhile (\<lambda>c. c = CHR '' '') s"

function skip_prefix :: "string \<Rightarrow> string \<Rightarrow> string option" where
  "skip_prefix [] v = Some v"
| "skip_prefix (p # ps) v =
     (if p = CHR '' '' then
        (if v \<noteq> [] \<and> hd v \<noteq> CHR '' '' then None else skip_prefix (cutspace ps) (cutspace v))
      else (case v of c # cs \<Rightarrow> if c = p then skip_prefix ps cs else None | [] \<Rightarrow> None))"
  by pat_completeness auto
termination
  by (relation "measure (\<lambda>(p, v). length p)") (auto simp: cutspace_def le_imp_less_Suc length_dropWhile_le)

definition getnum :: "bool \<Rightarrow> string \<Rightarrow> (int \<times> string) option" where
  "getnum fixed s =
     (case s of
        a # r \<Rightarrow>
          if \<not> is_digit a then None
          else (case r of
                  b # r' \<Rightarrow>
                    if is_digit b then Some (int (10 * digit_val a + digit_val b), r')
                    else if fixed then None else Some (int (digit_val a), r)
                | [] \<Rightarrow> if fixed then None else Some (int (digit_val a), []))
      | [] \<Rightarrow> None)"

definition time_atoi :: "string \<Rightarrow> int option" where
  "time_atoi s =
     (let signed = (case s of c # _ \<Rightarrow> c = CHR ''-'' \<or> c = CHR ''+'' | [] \<Rightarrow> False);
          ds = (if signed then tl s else s);
          x = int (nat_of_digits ds 0)
      in if \<not> list_all is_digit ds then None else Some (if signed \<and> hd s = CHR ''-'' then - x else x))"

definition comma_or_period :: "char \<Rightarrow> bool" where
  "comma_or_period c \<longleftrightarrow> c = CHR ''.'' \<or> c = CHR '',''"

text \<open>\<open>parseNanoseconds\<close>: at most nine digits count.\<close>

definition parse_nanoseconds :: "string \<Rightarrow> nat \<Rightarrow> int option" where
  "parse_nanoseconds v nbytes =
     (case v of
        [] \<Rightarrow> None
      | c # r \<Rightarrow>
          if \<not> comma_or_period c then None
          else (let n = min nbytes 10
                in case time_atoi (take (n - 1) r) of
                     None \<Rightarrow> None
                   | Some ns \<Rightarrow> if ns < 0 then None else Some (ns * 10 ^ (10 - n))))"

text \<open>A fraction of a second: the separator and at least one digit; its length in the value.\<close>

definition frac_length :: "string \<Rightarrow> nat" where
  "frac_length v = (case v of c # r \<Rightarrow> 1 + length (takeWhile is_digit r) | [] \<Rightarrow> 0)"

definition has_frac :: "string \<Rightarrow> bool" where
  "has_frac v = (case v of c # d # _ \<Rightarrow> comma_or_period c \<and> is_digit d | _ \<Rightarrow> False)"

text \<open>\<open>lookup\<close> in a table of names, without regard to case.\<close>

definition same_letter :: "char \<Rightarrow> char \<Rightarrow> bool" where
  "same_letter a b \<longleftrightarrow>
     a = b \<or> char_lower a = char_lower b \<and> 97 \<le> (of_char (char_lower a) :: nat) \<and> (of_char (char_lower a) :: nat) \<le> 122"

fun lookup_name :: "string list \<Rightarrow> int \<Rightarrow> string \<Rightarrow> (int \<times> string) option" where
  "lookup_name [] i v = None"
| "lookup_name (n # ns) i v =
     (if length n \<le> length v \<and> list_all2 same_letter (take (length n) v) n then Some (i, drop (length n) v)
      else lookup_name ns (i + 1) v)"

definition short_months :: "string list" where
  "short_months = [''Jan'', ''Feb'', ''Mar'', ''Apr'', ''May'', ''Jun'', ''Jul'', ''Aug'', ''Sep'', ''Oct'', ''Nov'', ''Dec'']"

definition short_days :: "string list" where
  "short_days = [''Sun'', ''Mon'', ''Tue'', ''Wed'', ''Thu'', ''Fri'', ''Sat'']"

text \<open>The zone \<open>Z\<close>, or a sign, hours and minutes.\<close>

definition parse_zone :: "string \<Rightarrow> parsed_time \<Rightarrow> (parsed_time \<times> string) option" where
  "parse_zone v t =
     (if v \<noteq> [] \<and> hd v = CHR ''Z'' then Some (t\<lparr>ptUTC := True\<rparr>, tl v)
      else if length v < 6 \<or> v ! 3 \<noteq> CHR '':'' then None
      else (case (getnum True (take 2 (drop 1 v)), getnum True (take 2 (drop 4 v))) of
              (Some (hr, _), Some (mm, _)) \<Rightarrow>
                (let off = (hr * 60 + mm) * 60
                 in if hr > 24 \<or> mm > 60 then None
                    else if v ! 0 = CHR ''+'' then Some (t\<lparr>ptOffset := Some off\<rparr>, drop 6 v)
                    else if v ! 0 = CHR ''-'' then Some (t\<lparr>ptOffset := Some (- off)\<rparr>, drop 6 v)
                    else None)
            | _ \<Rightarrow> None))"

text \<open>
  One element; \<open>following\<close> is the next one of the layout.  A fraction behind the seconds is read
  even if the layout has none.
\<close>

definition parse_std ::
  "layout_std \<Rightarrow> layout_std option \<Rightarrow> string \<Rightarrow> parsed_time \<Rightarrow> (parsed_time \<times> string) option" where
  "parse_std std following v t =
     (case std of
        Long_Year \<Rightarrow>
          if length v < 4 \<or> \<not> starts_with_digit v then None
          else map_option (\<lambda>y. (t\<lparr>ptYear := y\<rparr>, drop 4 v)) (time_atoi (take 4 v))
      | Short_Month \<Rightarrow> map_option (\<lambda>(i, v'). (t\<lparr>ptMonth := i + 1\<rparr>, v')) (lookup_name short_months 0 v)
      | Zero_Month \<Rightarrow>
          (case getnum True v of
             None \<Rightarrow> None
           | Some (m, v') \<Rightarrow> if m \<le> 0 \<or> 12 < m then None else Some (t\<lparr>ptMonth := m\<rparr>, v'))
      | Week_Day \<Rightarrow> map_option (\<lambda>(i, v'). (t, v')) (lookup_name short_days 0 v)
      | Under_Day \<Rightarrow>
          map_option (\<lambda>(d, v'). (t\<lparr>ptDay := d\<rparr>, v'))
            (getnum False (if v \<noteq> [] \<and> hd v = CHR '' '' then tl v else v))
      | Zero_Day \<Rightarrow> map_option (\<lambda>(d, v'). (t\<lparr>ptDay := d\<rparr>, v')) (getnum True v)
      | Hour24 \<Rightarrow>
          (case getnum False v of
             None \<Rightarrow> None
           | Some (h, v') \<Rightarrow> if 24 \<le> h then None else Some (t\<lparr>ptHour := h\<rparr>, v'))
      | Zero_Minute \<Rightarrow>
          (case getnum True v of
             None \<Rightarrow> None
           | Some (m, v') \<Rightarrow> if 60 \<le> m then None else Some (t\<lparr>ptMin := m\<rparr>, v'))
      | Zero_Second \<Rightarrow>
          (case getnum True v of
             None \<Rightarrow> None
           | Some (s, v') \<Rightarrow>
               if 60 \<le> s then None
               else if has_frac v'
                 \<and> (case following of Some (Frac_Second0 n) \<Rightarrow> False | Some Frac_Second9 \<Rightarrow> False | _ \<Rightarrow> True)
               then map_option (\<lambda>ns. (t\<lparr>ptSec := s, ptNsec := ns\<rparr>, drop (frac_length v') v'))
                      (parse_nanoseconds v' (frac_length v'))
               else Some (t\<lparr>ptSec := s\<rparr>, v'))
      | ISO8601_Colon_TZ \<Rightarrow> parse_zone v t
      | Frac_Second0 n \<Rightarrow>
          if length v < 1 + n then None
          else map_option (\<lambda>ns. (t\<lparr>ptNsec := ns\<rparr>, drop (1 + n) v)) (parse_nanoseconds v (1 + n))
      | Frac_Second9 \<Rightarrow>
          if \<not> has_frac v then Some (t, v)
          else map_option (\<lambda>ns. (t\<lparr>ptNsec := ns\<rparr>, drop (frac_length v) v)) (parse_nanoseconds v (frac_length v)))"

text \<open>All elements; after the last one, the rest of the layout must be the rest of the value.\<close>

fun parse_chunks ::
  "(string \<times> layout_std) list \<Rightarrow> string \<Rightarrow> string \<Rightarrow> parsed_time \<Rightarrow> parsed_time option" where
  "parse_chunks [] end_text v t =
     (case skip_prefix end_text v of Some [] \<Rightarrow> Some t | _ \<Rightarrow> None)"
| "parse_chunks ((prefix, std) # cs) end_text v t =
     (case skip_prefix prefix v of
        None \<Rightarrow> None
      | Some v' \<Rightarrow>
          (case parse_std std (case cs of [] \<Rightarrow> None | (_, s) # _ \<Rightarrow> Some s) v' t of
             None \<Rightarrow> None
           | Some (t', v'') \<Rightarrow> parse_chunks cs end_text v'' t'))"

section \<open>Dates\<close>

definition is_leap :: "int \<Rightarrow> bool" where
  "is_leap year \<longleftrightarrow> year mod 4 = 0 \<and> (year mod 100 \<noteq> 0 \<or> year mod 400 = 0)"

definition days_in :: "int \<Rightarrow> int \<Rightarrow> int" where
  "days_in month year =
     (if month = 2 then (if is_leap year then 29 else 28)
      else if month \<in> {4, 6, 9, 11} then 30 else 31)"

text \<open>Days since the beginning of the year 1, before a year and before a month.\<close>

definition days_before_year :: "int \<Rightarrow> int" where
  "days_before_year y = 365 * (y - 1) + (y - 1) div 4 - (y - 1) div 100 + (y - 1) div 400"

definition days_before_month :: "int \<Rightarrow> int \<Rightarrow> int" where
  "days_before_month month year =
     [0, 31, 59, 90, 120, 151, 181, 212, 243, 273, 304, 334] ! nat (month - 1)
     + (if is_leap year \<and> month > 2 then 1 else 0)"

text \<open>The day of a date, counted from 1970-01-01, and its seconds.\<close>

definition days_of_date :: "int \<Rightarrow> int \<Rightarrow> int \<Rightarrow> int" where
  "days_of_date year month day =
     days_before_year year + days_before_month month year + (day - 1) - days_before_year 1970"

definition civil_seconds :: "int \<Rightarrow> int \<Rightarrow> int \<Rightarrow> int \<Rightarrow> int \<Rightarrow> int \<Rightarrow> int" where
  "civil_seconds year month day hour mins sec =
     86400 * days_of_date year month day + 3600 * hour + 60 * mins + sec"

text \<open>The end of \<open>parse\<close>: the day is checked, and the zone subtracted.\<close>

definition finish_time :: "parsed_time \<Rightarrow> go_time option" where
  "finish_time t =
     (let month = (if ptMonth t < 0 then 1 else ptMonth t);
          day = (if ptDay t < 0 then 1 else ptDay t);
          secs = civil_seconds (ptYear t) month day (ptHour t) (ptMin t) (ptSec t);
          off = (if ptUTC t then 0 else case ptOffset t of Some z \<Rightarrow> z | None \<Rightarrow> 0)
      in if day < 1 \<or> day > days_in month (ptYear t) then None
         else Some \<lparr>unix_seconds = secs - off, nanoseconds = ptNsec t, zone_offset = off\<rparr>)"

definition time_Parse :: time_parser where
  "time_Parse layout v =
     (let (cs, end_text) = layout_chunks [] layout
      in case parse_chunks cs end_text v parsed_init of
           None \<Rightarrow> None
         | Some t \<Rightarrow> finish_time t)"

section \<open>The layouts of sg-core\<close>

definition date_chunks :: "char \<Rightarrow> (string \<times> layout_std) list" where
  "date_chunks sep =
     [([], Long_Year), (''-'', Zero_Month), (''-'', Zero_Day), ([sep], Hour24), ('':'', Zero_Minute)]"

lemma RFC3339_chunks:
  "layout_chunks [] RFC3339 =
     (date_chunks CHR ''T'' @ [('':'', Zero_Second), ([], ISO8601_Colon_TZ)], [])"
  by code_simp

lemma RFC3339Nano_chunks:
  "layout_chunks [] RFC3339Nano =
     (date_chunks CHR ''T'' @ [('':'', Zero_Second), ([], Frac_Second9), ([], ISO8601_Colon_TZ)], [])"
  by code_simp

lemma ANSIC_chunks:
  "layout_chunks [] ANSIC =
     ([([], Week_Day), ('' '', Short_Month), ('' '', Under_Day), ('' '', Hour24), ('':'', Zero_Minute),
       ('':'', Zero_Second), ('' '', Long_Year)], [])"
  by code_simp

lemma T_chunks:
  "layout_chunks [] ''2006-01-02T15:04:05.999999'' =
     (date_chunks CHR ''T'' @ [('':'', Zero_Second), ([], Frac_Second9)], [])"
  by code_simp

lemma blank_chunks:
  "layout_chunks [] ''2006-01-02 15:04:05.999999'' =
     (date_chunks CHR '' '' @ [('':'', Zero_Second), ([], Frac_Second9)], [])"
  by code_simp

lemmas layout_chunks_of = RFC3339_chunks RFC3339Nano_chunks ANSIC_chunks T_chunks blank_chunks

section \<open>Stamps\<close>

definition two :: "nat \<Rightarrow> string" where
  "two n = [char_of (48 + n div 10), char_of (48 + n mod 10)]"

definition four :: "nat \<Rightarrow> string" where
  "four n = two (n div 100) @ two (n mod 100)"

record stamp =
  stYear :: nat
  stMonth :: nat
  stDay :: nat
  stHour :: nat
  stMin :: nat
  stSec :: nat
  stFrac :: string

definition stamp_ok :: "stamp \<Rightarrow> bool" where
  "stamp_ok t \<longleftrightarrow>
     stYear t < 10000 \<and> 1 \<le> stMonth t \<and> stMonth t \<le> 12 \<and> 1 \<le> stDay t
     \<and> int (stDay t) \<le> days_in (int (stMonth t)) (int (stYear t)) \<and> stHour t < 24 \<and> stMin t < 60
     \<and> stSec t < 60 \<and> list_all is_digit (stFrac t) \<and> length (stFrac t) \<le> 9"

definition stamp_seconds :: "stamp \<Rightarrow> int" where
  "stamp_seconds t =
     civil_seconds (int (stYear t)) (int (stMonth t)) (int (stDay t)) (int (stHour t)) (int (stMin t))
       (int (stSec t))"

lemma days_in_bound: "days_in m y \<le> 31"
  by (simp add: days_in_def)

lemma stamp_day_bound: "stamp_ok t \<Longrightarrow> stDay t < 100"
  using days_in_bound [of "int (stMonth t)" "int (stYear t)"] by (simp add: stamp_ok_def)

lemma getnum_two [simp]: "n < 100 \<Longrightarrow> getnum fixed (two n @ r) = Some (int n, r)"
  by (simp add: getnum_def two_def)

lemma time_atoi_digits:
  "list_all is_digit s \<Longrightarrow> s \<noteq> [] \<Longrightarrow> time_atoi s = Some (int (nat_of_digits s 0))"
  by (cases s) (auto simp: time_atoi_def Let_def)

lemma two_digits [simp]: "n < 100 \<Longrightarrow> list_all is_digit (two n)" "two n \<noteq> []" "length (two n) = 2"
  by (simp_all add: two_def)

lemma nat_of_digits_four: "n < 10000 \<Longrightarrow> nat_of_digits (four n) 0 = n"
  by (simp add: four_def two_def)

lemma length_four [simp]: "length (four n) = 4"
  by (simp add: four_def)

lemma time_atoi_four [simp]: "n < 10000 \<Longrightarrow> time_atoi (four n) = Some (int n)"
  by (subst time_atoi_digits) (simp_all add: four_def nat_of_digits_four [unfolded four_def])

lemma starts_with_digit_four [simp]: "n < 10000 \<Longrightarrow> starts_with_digit (four n @ r)"
  by (simp add: starts_with_digit_def four_def two_def)

lemma skip_sep [simp]:
  assumes "n < 100"
  shows "skip_prefix [c] (c # two n @ r) = Some (two n @ r)"
proof -
  have "n div 10 < 10" using assms by simp
  hence "is_digit (char_of (48 + n div 10))" by (rule is_digit_char_of)
  moreover have "\<not> is_digit CHR '' ''" by (simp add: is_digit_def)
  ultimately have "char_of (48 + n div 10) \<noteq> CHR '' ''" by metis
  thus ?thesis by (simp add: two_def cutspace_def)
qed

declare skip_prefix.simps(2) [simp del]

lemma skip_other: "c \<noteq> CHR '' '' \<Longrightarrow> d \<noteq> c \<Longrightarrow> skip_prefix [c] (d # v) = None"
  by (simp add: skip_prefix.simps)

lemma parse_date:
  assumes "stamp_ok t"
  shows "parse_chunks (date_chunks sep @ (p, std) # cs) e
           (four (stYear t) @ ''-'' @ two (stMonth t) @ ''-'' @ two (stDay t) @ [sep] @ two (stHour t) @ '':''
             @ two (stMin t) @ rest) parsed_init
         = parse_chunks ((p, std) # cs) e rest
             (parsed_init\<lparr>ptYear := int (stYear t), ptMonth := int (stMonth t), ptDay := int (stDay t),
                ptHour := int (stHour t), ptMin := int (stMin t)\<rparr>)"
  using assms stamp_day_bound [OF assms]
  by (simp add: date_chunks_def parse_std_def stamp_ok_def del: parse_chunks.simps(1))

section \<open>Fractions and zones\<close>

definition frac_text :: "string \<Rightarrow> string" where
  "frac_text fr = (if fr = [] then [] else ''.'' @ fr)"

definition frac_nanos :: "string \<Rightarrow> int" where
  "frac_nanos fr = int (nat_of_digits fr 0) * 10 ^ (9 - length fr)"

datatype stamp_zone = No_Zone | Zulu | East nat nat | West nat nat

fun zone_text :: "stamp_zone \<Rightarrow> string" where
  "zone_text No_Zone = []"
| "zone_text Zulu = ''Z''"
| "zone_text (East h m) = ''+'' @ two h @ '':'' @ two m"
| "zone_text (West h m) = ''-'' @ two h @ '':'' @ two m"

fun zone_ok :: "stamp_zone \<Rightarrow> bool" where
  "zone_ok (East h m) \<longleftrightarrow> h < 24 \<and> m < 60"
| "zone_ok (West h m) \<longleftrightarrow> h < 24 \<and> m < 60"
| "zone_ok z \<longleftrightarrow> True"

fun zone_seconds :: "stamp_zone \<Rightarrow> int" where
  "zone_seconds (East h m) = 3600 * int h + 60 * int m"
| "zone_seconds (West h m) = - (3600 * int h + 60 * int m)"
| "zone_seconds z = 0"

lemma zone_text_start:
  "takeWhile is_digit (zone_text z) = []" "\<not> has_frac (zone_text z)"
  by (cases z; simp add: has_frac_def comma_or_period_def is_digit_def two_def)+

lemma frac_read:
  assumes "list_all is_digit fr" and "fr \<noteq> []" and "length fr \<le> 9"
  shows "has_frac (frac_text fr @ zone_text z)"
    and "frac_length (frac_text fr @ zone_text z) = Suc (length fr)"
    and "parse_nanoseconds (frac_text fr @ zone_text z) (Suc (length fr)) = Some (frac_nanos fr)"
    and "drop (Suc (length fr)) (frac_text fr @ zone_text z) = zone_text z"
proof -
  have tw: "takeWhile is_digit (fr @ zone_text z) = fr"
    using assms(1) zone_text_start(1) [of z] by (simp add: list_all_iff)
  show "has_frac (frac_text fr @ zone_text z)"
    using assms by (cases fr) (simp_all add: has_frac_def frac_text_def comma_or_period_def)
  show "frac_length (frac_text fr @ zone_text z) = Suc (length fr)"
    using assms(2) tw by (simp add: frac_length_def frac_text_def)
  show "parse_nanoseconds (frac_text fr @ zone_text z) (Suc (length fr)) = Some (frac_nanos fr)"
    using assms
    by (simp add: parse_nanoseconds_def frac_text_def comma_or_period_def time_atoi_digits frac_nanos_def Let_def)
  show "drop (Suc (length fr)) (frac_text fr @ zone_text z) = zone_text z"
    using assms(2) by (simp add: frac_text_def)
qed

definition clock :: "stamp \<Rightarrow> parsed_time" where
  "clock t =
     parsed_init\<lparr>ptYear := int (stYear t), ptMonth := int (stMonth t), ptDay := int (stDay t),
       ptHour := int (stHour t), ptMin := int (stMin t), ptSec := int (stSec t),
       ptNsec := frac_nanos (stFrac t)\<rparr>"

definition iso_text :: "char \<Rightarrow> stamp \<Rightarrow> stamp_zone \<Rightarrow> string" where
  "iso_text sep t z =
     four (stYear t) @ ''-'' @ two (stMonth t) @ ''-'' @ two (stDay t) @ [sep] @ two (stHour t) @ '':''
     @ two (stMin t) @ '':'' @ two (stSec t) @ frac_text (stFrac t) @ zone_text z"

lemma frac_nanos_Nil [simp]: "frac_nanos [] = 0"
  by (simp add: frac_nanos_def)

lemma skip_colon [simp]: "skip_prefix '':'' (CHR '':'' # v) = Some v"
  by (simp add: skip_prefix.simps)

lemma read_seconds_frac:
  assumes "stamp_ok t"
  shows "parse_chunks (date_chunks sep @ [('':'', Zero_Second), ([], Frac_Second9)]) [] (iso_text sep t z) parsed_init
         = (if zone_text z = [] then Some (clock t) else None)"
proof (cases "stFrac t = []")
  case True
  thus ?thesis
    using assms zone_text_start [of z] unfolding iso_text_def parse_date [OF assms]
    by (auto simp: parse_std_def stamp_ok_def clock_def frac_text_def parsed_init_def split: list.split)
next
  case False
  thus ?thesis
    using assms frac_read [of "stFrac t" z] unfolding iso_text_def parse_date [OF assms]
    by (auto simp: parse_std_def stamp_ok_def clock_def split: list.split)
qed

lemma read_seconds_zone:
  assumes "stamp_ok t"
  shows "parse_chunks (date_chunks sep @ [('':'', Zero_Second), ([], ISO8601_Colon_TZ)]) [] (iso_text sep t z)
           parsed_init
         = (case parse_zone (zone_text z) (clock t) of Some (t', []) \<Rightarrow> Some t' | _ \<Rightarrow> None)"
proof (cases "stFrac t = []")
  case True
  thus ?thesis
    using assms zone_text_start [of z] unfolding iso_text_def parse_date [OF assms]
    by (auto simp: parse_std_def stamp_ok_def clock_def frac_text_def parsed_init_def split: list.split option.split)
next
  case False
  thus ?thesis
    using assms frac_read [of "stFrac t" z] unfolding iso_text_def parse_date [OF assms]
    by (auto simp: parse_std_def stamp_ok_def clock_def split: list.split option.split)
qed

lemma getnum_two_end [simp]: "n < 100 \<Longrightarrow> getnum fixed (two n) = Some (int n, [])"
  using getnum_two [of n fixed "[]"] by simp

lemma parse_zone_sign:
  assumes "h < 24" and "m < 60"
  shows "parse_zone (c # two h @ CHR '':'' # two m) p =
           (if c = CHR ''Z'' then Some (p\<lparr>ptUTC := True\<rparr>, two h @ CHR '':'' # two m)
            else if c = CHR ''+'' then Some (p\<lparr>ptOffset := Some (3600 * int h + 60 * int m)\<rparr>, [])
            else if c = CHR ''-'' then Some (p\<lparr>ptOffset := Some (- (3600 * int h + 60 * int m))\<rparr>, [])
            else None)"
proof -
  have "(two h @ CHR '':'' # two m) ! 2 = CHR '':''" by (simp add: nth_append)
  moreover have "drop 3 (two h @ CHR '':'' # two m) = two m" by simp
  ultimately show ?thesis
    using assms by (simp add: parse_zone_def algebra_simps numeral_eq_Suc Let_def)
qed

lemma parse_zone_text:
  "zone_ok z \<Longrightarrow>
   (case parse_zone (zone_text z) p of Some (t', []) \<Rightarrow> Some t' | _ \<Rightarrow> None)
   = (case z of No_Zone \<Rightarrow> None | Zulu \<Rightarrow> Some (p\<lparr>ptUTC := True\<rparr>)
      | _ \<Rightarrow> Some (p\<lparr>ptOffset := Some (zone_seconds z)\<rparr>))"
  by (cases z) (simp_all add: parse_zone_sign, simp_all add: parse_zone_def)

section \<open>What the layouts accept\<close>

lemma finish_clock:
  assumes "stamp_ok t"
  shows "finish_time (clock t) = Some \<lparr>unix_seconds = stamp_seconds t, nanoseconds = frac_nanos (stFrac t),
           zone_offset = 0\<rparr>"
    and "finish_time (clock t\<lparr>ptUTC := True\<rparr>) = Some \<lparr>unix_seconds = stamp_seconds t,
           nanoseconds = frac_nanos (stFrac t), zone_offset = 0\<rparr>"
    and "finish_time (clock t\<lparr>ptOffset := Some off\<rparr>) = Some \<lparr>unix_seconds = stamp_seconds t - off,
           nanoseconds = frac_nanos (stFrac t), zone_offset = off\<rparr>"
  using assms
  by (simp_all add: finish_time_def clock_def parsed_init_def stamp_ok_def stamp_seconds_def Let_def)

lemma time_Parse_frac_T:
  "stamp_ok t \<Longrightarrow> time_Parse ''2006-01-02T15:04:05.999999'' (iso_text CHR ''T'' t z)
     = (if zone_text z = []
        then Some \<lparr>unix_seconds = stamp_seconds t, nanoseconds = frac_nanos (stFrac t), zone_offset = 0\<rparr>
        else None)"
  by (simp add: time_Parse_def T_chunks read_seconds_frac finish_clock)

lemma time_Parse_frac_blank:
  "stamp_ok t \<Longrightarrow> time_Parse ''2006-01-02 15:04:05.999999'' (iso_text CHR '' '' t z)
     = (if zone_text z = []
        then Some \<lparr>unix_seconds = stamp_seconds t, nanoseconds = frac_nanos (stFrac t), zone_offset = 0\<rparr>
        else None)"
  by (simp add: time_Parse_def blank_chunks read_seconds_frac finish_clock)

lemma time_Parse_RFC3339:
  "stamp_ok t \<Longrightarrow> zone_ok z \<Longrightarrow> time_Parse RFC3339 (iso_text CHR ''T'' t z)
     = (if z = No_Zone then None
        else Some \<lparr>unix_seconds = stamp_seconds t - zone_seconds z, nanoseconds = frac_nanos (stFrac t),
          zone_offset = zone_seconds z\<rparr>)"
  by (simp add: time_Parse_def RFC3339_chunks read_seconds_zone parse_zone_text finish_clock
      split: stamp_zone.split)

lemma parse_wrong_sep:
  assumes "stamp_ok t"
  shows "parse_chunks (date_chunks CHR ''T'' @ cs) e (iso_text CHR '' '' t z) parsed_init = None"
  using assms stamp_day_bound [OF assms]
  by (simp add: iso_text_def date_chunks_def parse_std_def stamp_ok_def skip_other)

lemma digit_no_letter: "is_digit d \<Longrightarrow> 65 \<le> (of_char c :: nat) \<Longrightarrow> \<not> same_letter d c"
  by (auto simp: same_letter_def is_digit_def char_lower_def)

lemma parse_ANSIC_digit:
  assumes "stYear t < 10000"
  shows "time_Parse ANSIC (iso_text sep t z) = None"
proof -
  define d :: char where "d = char_of (48 + stYear t div 100 div 10)"
  have "stYear t div 100 div 10 < 10" using assms by simp
  hence "is_digit d" unfolding d_def by (rule is_digit_char_of)
  hence "lookup_name short_days 0 (d # r) = None" for r
    by (simp add: short_days_def digit_no_letter)
  moreover have "\<exists>r. iso_text sep t z = d # r"
    by (simp add: iso_text_def four_def two_def d_def)
  ultimately show ?thesis
    by (auto simp: time_Parse_def ANSIC_chunks parse_std_def)
qed

lemma iso_blank_not_T:
  assumes "stamp_ok t"
  shows "time_Parse ''2006-01-02T15:04:05.999999'' (iso_text CHR '' '' t z) = None"
    and "time_Parse RFC3339 (iso_text CHR '' '' t z) = None"
    and "time_Parse RFC3339Nano (iso_text CHR '' '' t z) = None"
  using assms
  by (simp_all add: time_Parse_def T_chunks RFC3339_chunks RFC3339Nano_chunks parse_wrong_sep)

text \<open>
  C39: Every ISO time stamp is read as the second it names: with \<open>T\<close> between date and time, with or
  without a fraction, as UTC if it has no zone and less the offset of its zone otherwise; with a
  blank there if it has no zone.  With a blank and a zone (\<open>2020-03-06 14:13:30+00:00\<close>) no layout
  accepts it and it becomes the epoch 0.
\<close>

theorem iso_stamps_to_epoch:
  assumes "stamp_ok t" and "zone_ok z"
  shows "EpochFromFormat time_Parse (iso_text CHR ''T'' t z) = stamp_seconds t - zone_seconds z
    \<and> EpochFromFormat time_Parse (iso_text CHR '' '' t z) = (if z = No_Zone then stamp_seconds t else 0)"
proof -
  have zone: "zone_text z = [] \<longleftrightarrow> z = No_Zone" by (cases z) simp_all
  have "EpochFromFormat time_Parse (iso_text CHR ''T'' t z) = stamp_seconds t - zone_seconds z"
    using assms zone by (simp add: EpochFromFormat_def event_layouts_def time_Parse_frac_T time_Parse_RFC3339)
  moreover have "stYear t < 10000" using assms(1) by (simp add: stamp_ok_def)
  ultimately show ?thesis
    using assms zone
    by (simp add: EpochFromFormat_def event_layouts_def iso_blank_not_T parse_ANSIC_digit time_Parse_frac_blank)
qed

definition ex_stamp :: stamp where
  "ex_stamp = \<lparr>stYear = 2020, stMonth = 3, stDay = 6, stHour = 14, stMin = 13, stSec = 30, stFrac = ''057411''\<rparr>"

lemma ex_stamp_ok: "stamp_ok ex_stamp" "stamp_seconds ex_stamp = 1583504010"
  by code_simp+

lemma ex_stamp_text: "iso_text CHR '' '' ex_stamp No_Zone = ''2020-03-06 14:13:30.057411''"
  by (simp add: iso_text_def ex_stamp_def four_def two_def frac_text_def char_of_def bit_0)

lemma iso_stamps_to_epoch_witness:
  "EpochFromFormat time_Parse ''2020-03-06 14:13:30.057411'' = 1583504010"
  using iso_stamps_to_epoch [of ex_stamp No_Zone] ex_stamp_ok by (simp add: ex_stamp_text)

end
