(* ===== verification/GoCalendar.thy ===== *)
theory GoCalendar
  imports GoTimeParse
begin

text \<open>
  The two directions of the calendar agree: the date of the day that \<open>time.Parse\<close> computes for a
  date (\<open>days_of_date\<close>) is that date (\<open>date_of_days\<close>, which \<open>t.Date()\<close> uses).
\<close>

section \<open>Years that begin in March\<close>

text \<open>A date as the year that begins in March, the month in it, and the day of this year.\<close>

definition march_year :: "int \<Rightarrow> int \<Rightarrow> int" where
  "march_year year month = (if month > 2 then year else year - 1)"

definition march_month :: "int \<Rightarrow> int" where
  "march_month month = (if month > 2 then month - 3 else month + 9)"

definition days_before_march_year :: "int \<Rightarrow> int" where
  "days_before_march_year y = 365 * y + y div 4 - y div 100 + y div 400"

lemma pred_div:
  fixes y n :: int
  assumes "0 < n"
  shows "(y - 1) div n = y div n - (if y mod n = 0 then 1 else 0)"
proof (cases "y mod n = 0")
  case True
  have "y = n * (y div n) + y mod n" by simp
  with True have y: "y - 1 = n * (y div n - 1) + (n - 1)" by (simp add: algebra_simps)
  from int_div_pos_eq [OF y] assms True show ?thesis by simp
next
  case False
  have "y = n * (y div n) + y mod n" by simp
  then have "y - 1 = n * (y div n) + (y mod n - 1)" by linarith
  moreover have "0 \<le> y mod n - 1" using False pos_mod_sign [OF assms, of y] by linarith
  moreover have "y mod n - 1 < n" using pos_mod_bound [OF assms, of y] by linarith
  ultimately show ?thesis using False by (simp only: int_div_pos_eq if_False)
qed

lemma leap_days_aux:
  fixes a b c :: int
  assumes "r \<Longrightarrow> q" and "q \<Longrightarrow> p"
  shows "a - b + c - ((a - (if p then 1 else 0)) - (b - (if q then 1 else 0)) + (c - (if r then 1 else 0)))
           = (if p \<and> (\<not> q \<or> r) then 1 else 0)"
  using assms by auto

lemma leap_days:
  "y div 4 - y div 100 + y div 400 - ((y - 1) div 4 - (y - 1) div 100 + (y - 1) div 400)
     = (if is_leap y then 1 else 0)"
proof -
  have "y mod 100 = 0" if "y mod 400 = 0"
    using that dvd_trans [of 100 400 y] by (simp add: dvd_eq_mod_eq_0)
  moreover have "y mod 4 = 0" if "y mod 100 = 0"
    using that dvd_trans [of 4 100 y] by (simp add: dvd_eq_mod_eq_0)
  moreover have
    "(y - 1) div 4 = y div 4 - (if y mod 4 = 0 then 1 else 0)"
    "(y - 1) div 100 = y div 100 - (if y mod 100 = 0 then 1 else 0)"
    "(y - 1) div 400 = y div 400 - (if y mod 400 = 0 then 1 else 0)"
    by (rule pred_div, simp)+
  ultimately show ?thesis unfolding is_leap_def by (simp only: leap_days_aux)
qed

lemma month_cases:
  assumes "1 \<le> (m :: int)" and "m \<le> 12"
  obtains "m = 1" | "m = 2" | "m = 3" | "m = 4" | "m = 5" | "m = 6" | "m = 7" | "m = 8" | "m = 9"
    | "m = 10" | "m = 11" | "m = 12"
proof -
  have "m \<in> {1..12}" using assms by simp
  also have "{1..12} = {1, 2, 3, 4, 5, 6, 7, 8, 9, 10, 11, 12 :: int}" by code_simp
  finally show thesis using that by blast
qed

lemma days_before_march_year_step:
  "days_before_march_year y = days_before_march_year (y - 1) + 365 + (if is_leap y then 1 else 0)"
  unfolding leap_days [of y, symmetric] by (simp add: days_before_march_year_def algebra_simps)

lemma days_of_date_march:
  assumes "1 \<le> m" and "m \<le> 12"
  shows "days_of_date y m d + 719468 =
           days_before_march_year (march_year y m) + (153 * march_month m + 2) div 5 + (d - 1)"
proof -
  have "days_of_date y m d + 719468 = days_before_year y + days_before_month m y + 306 + (d - 1)"
    by (simp add: days_of_date_def days_before_year_def)
  also have "days_before_year y = days_before_march_year (y - 1)"
    by (simp add: days_before_year_def days_before_march_year_def)
  also have "days_before_march_year (y - 1) + days_before_month m y + 306 =
      days_before_march_year (march_year y m) + (153 * march_month m + 2) div 5"
    using assms
    by (cases rule: month_cases)
       (simp_all add: days_before_month_def march_year_def march_month_def days_before_march_year_step [of y])
  finally show ?thesis by simp
qed

text \<open>The day of a year that begins in March, and its length.\<close>

definition march_day :: "int \<Rightarrow> int \<Rightarrow> int" where
  "march_day m d = (153 * march_month m + 2) div 5 + (d - 1)"

lemma march_day_range:
  assumes "1 \<le> m" and "m \<le> 12" and "1 \<le> d" and "d \<le> days_in m y"
  shows "0 \<le> march_day m d \<and> march_day m d \<le> (if is_leap (march_year y m + 1) then 365 else 364)"
  using assms(1,2,3,4)
  by (cases rule: month_cases)
     (auto simp: march_day_def march_month_def march_year_def days_in_def split: if_splits)

lemma march_day_month:
  assumes "1 \<le> m" and "m \<le> 12" and "1 \<le> d" and "d \<le> days_in m y"
  shows "(5 * march_day m d + 2) div 153 = march_month m"
proof -
  have "d \<le> 31" using assms(4) days_in_bound [of m y] by linarith
  have "march_month m * 153 \<le> 5 * march_day m d + 2 \<and> 5 * march_day m d + 2 < (march_month m + 1) * 153"
    using assms
    by (cases rule: month_cases)
       (auto simp: march_day_def march_month_def days_in_def split: if_splits)
  then show ?thesis by (intro int_div_pos_eq [of _ _ _ "5 * march_day m d + 2 - march_month m * 153"]) auto
qed

section \<open>The year of a day\<close>

text \<open>The day of an era of 400 years determines the year, which begins in March, in the era.\<close>

lemma year_of_era:
  fixes r doy :: int
  assumes r: "0 \<le> r" "r < 400" and doy: "0 \<le> doy" "doy \<le> (if is_leap (r + 1) then 365 else 364)"
  defines "doe \<equiv> 365 * r + r div 4 - r div 100 + doy"
  shows "0 \<le> doe \<and> doe < 146097
     \<and> (doe - doe div 1460 + doe div 36524 - doe div 146096) div 365 = r"
proof -
  define c s where "c = r div 100" and "s = r mod 100"
  define k j where "k = s div 4" and "j = s mod 4"
  have s: "s = 4 * k + j" "0 \<le> j" "j \<le> 3" by (simp_all add: k_def j_def)
  have rs: "r = 100 * c + s" "0 \<le> s" "s \<le> 99" by (simp_all add: c_def s_def)
  have c: "0 \<le> c" "c \<le> 3" using r by (simp_all add: c_def)
  have k: "0 \<le> k" "k \<le> 24" using rs s by linarith+
  have "r = 4 * (25 * c + k) + j" using rs s by simp
  from int_div_pos_eq [OF this] s have r4: "r div 4 = 25 * c + k" by simp
  have doe: "doe = 36524 * c + 1461 * k + 365 * j + doy"
    using rs s r4 by (simp add: doe_def c_def [symmetric])
  have j_cases: "j = 0 \<or> j = 1 \<or> j = 2 \<or> j = 3" using s by linarith
  have c_cases: "c = 0 \<or> c = 1 \<or> c = 2 \<or> c = 3" using c by linarith
  have leap: "j = 3 \<and> (k < 24 \<or> c = 3)" if leap: "is_leap (r + 1)"
  proof -
    have "r + 1 = (j + 1) + 4 * (25 * c + k)" using rs s by simp
    then have "(r + 1) mod 4 = (j + 1) mod 4" by (simp only: mod_mult_self2)
    with leap j_cases have "j = 3" by (auto simp: is_leap_def)
    moreover have "c = 3" if "k = 24"
    proof -
      have "r + 1 = 100 * (c + 1)" using \<open>j = 3\<close> that rs s by simp
      with leap have "100 * (c + 1) mod 400 = 0" unfolding is_leap_def by simp
      with c_cases show ?thesis by auto
    qed
    ultimately show ?thesis using k by linarith
  qed
  have doy_leap: "doy \<le> 364 \<or> doy = 365 \<and> j = 3 \<and> (k < 24 \<or> c = 3)"
    using doy leap by (cases "is_leap (r + 1)") auto
  define w where "w = 1461 * k + 365 * j + doy"
  have w: "0 \<le> w" "w < 36524 \<or> w = 36524 \<and> c = 3 \<and> k = 24 \<and> j = 3"
    using doy_leap doy k s by (auto simp: w_def)
  have doe_w: "doe = 36524 * c + w" using doe by (simp add: w_def)
  show ?thesis
  proof (cases "w < 36524")
    case False
    then have "doe = 146096" "r = 399" using w doe_w rs s by auto
    then show ?thesis by simp
  next
    case True
    from int_div_pos_eq [OF doe_w w(1) True] have d1: "doe div 36524 = c" .
    have range: "0 \<le> doe" "doe < 146096" using doe_w w(1) True c by linarith+
    define u where "u = 24 * c + k + 365 * j + doy"
    define x where "x = (if u < 1460 then 0 else 1 :: int)"
    have u: "0 \<le> u" "u < 2920" using c k s doy doy_leap by (auto simp: u_def)
    have "doe = 1460 * (25 * c + k + x) + (u - 1460 * x)" using doe by (simp add: u_def)
    from int_div_pos_eq [OF this] u have d2: "doe div 1460 = 25 * c + k + x"
      by (auto simp: x_def split: if_splits)
    have "0 \<le> doy - x \<and> doy - x < 365"
      using doy_leap doy c k s by (auto simp: x_def u_def split: if_splits)
    moreover have "doe - doe div 1460 + doe div 36524 - doe div 146096 = 365 * r + (doy - x)"
      using range d1 d2 doe rs s by (simp add: div_pos_pos_trivial)
    ultimately have "(doe - doe div 1460 + doe div 36524 - doe div 146096) div 365 = r"
      using int_div_pos_eq [of _ 365 r "doy - x"] by simp
    with range show ?thesis by simp
  qed
qed

section \<open>Dates of days\<close>

text \<open>A date of the calendar.\<close>

definition valid_date :: "int \<Rightarrow> int \<Rightarrow> int \<Rightarrow> bool" where
  "valid_date y m d \<longleftrightarrow> 1 \<le> m \<and> m \<le> 12 \<and> 1 \<le> d \<and> d \<le> days_in m y"

lemma is_leap_era: "is_leap (400 * e + y) = is_leap y"
proof -
  have "(400 * e + y) mod 4 = y mod 4" "(400 * e + y) mod 100 = y mod 100" "(400 * e + y) mod 400 = y mod 400"
    using mod_mult_self2 [of y 4 "100 * e"] mod_mult_self2 [of y 100 "4 * e"] mod_mult_self2 [of y 400 e]
    by (simp_all add: add.commute)
  then show ?thesis by (simp add: is_leap_def)
qed

lemma days_before_march_year_era:
  "days_before_march_year (400 * e + r) = 146097 * e + (365 * r + r div 4 - r div 100 + r div 400)"
proof -
  have "(400 * e + r) div 4 = 100 * e + r div 4" "(400 * e + r) div 100 = 4 * e + r div 100"
    "(400 * e + r) div 400 = e + r div 400"
    using div_mult_self2 [of 4 r "100 * e"] div_mult_self2 [of 100 r "4 * e"] div_mult_self2 [of 400 r e]
    by (simp_all add: add.commute)
  then show ?thesis by (simp add: days_before_march_year_def)
qed

lemma date_of_days_of_date:
  assumes "valid_date y m d"
  shows "date_of_days (days_of_date y m d) = (y, m, d)"
proof -
  have md: "1 \<le> m" "m \<le> 12" "1 \<le> d" "d \<le> days_in m y" using assms by (simp_all add: valid_date_def)
  define Y where "Y = march_year y m"
  define e r where "e = Y div 400" and "r = Y mod 400"
  have Y: "Y = 400 * e + r" and r: "0 \<le> r" "r < 400" by (simp_all add: e_def r_def)
  define doy where "doy = march_day m d"
  define doe where "doe = 365 * r + r div 4 - r div 100 + doy"
  have "is_leap (march_year y m + 1) = is_leap (r + 1)"
    using is_leap_era [of e "r + 1"] Y by (simp add: Y_def add.assoc)
  with march_day_range [OF md] have doy: "0 \<le> doy" "doy \<le> (if is_leap (r + 1) then 365 else 364)"
    by (simp_all add: doy_def)
  note era = year_of_era [OF r doy, folded doe_def]
  have "days_of_date y m d + 719468 = days_before_march_year Y + doy"
    using days_of_date_march [OF md(1,2)] by (simp add: Y_def doy_def march_day_def)
  also have "\<dots> = 146097 * e + doe"
    unfolding Y days_before_march_year_era doe_def using r by (simp add: div_pos_pos_trivial)
  finally have z: "days_of_date y m d + 719468 = 146097 * e + doe" .
  from int_div_pos_eq [OF z] int_mod_pos_eq [OF z] era
  have z_era: "(days_of_date y m d + 719468) div 146097 = e" "(days_of_date y m d + 719468) mod 146097 = doe"
    by simp_all
  have mp: "(5 * doy + 2) div 153 = march_month m" using march_day_month [OF md] by (simp add: doy_def)
  have doy_eq: "doe - (365 * r + r div 4 - r div 100) = doy" by (simp add: doe_def)
  from era have yoe: "(doe - doe div 1460 + doe div 36524 - doe div 146096) div 365 = r" by blast
  have "date_of_days (days_of_date y m d) =
      (let d' = doy - (153 * march_month m + 2) div 5 + 1;
           m' = (if march_month m < 10 then march_month m + 3 else march_month m - 9);
           y' = r + 400 * e + (if m' \<le> 2 then 1 else 0)
       in (y', m', d'))"
    by (simp only: date_of_days_def Let_def z_era yoe doy_eq mp)
  moreover have "doy - (153 * march_month m + 2) div 5 + 1 = d" by (simp add: doy_def march_day_def)
  moreover have "(if march_month m < 10 then march_month m + 3 else march_month m - 9) = m"
    using md by (simp add: march_month_def)
  moreover have "r + 400 * e + (if m \<le> 2 then 1 else 0) = y"
    using Y by (simp add: Y_def march_year_def split: if_splits)
  ultimately show ?thesis by (simp only: Let_def)
qed

section \<open>The date of a stamp\<close>

lemma stamp_date_valid: "stamp_ok t \<Longrightarrow> valid_date (int (stYear t)) (int (stMonth t)) (int (stDay t))"
  by (simp add: stamp_ok_def valid_date_def)

lemma stamp_seconds_day:
  assumes "stamp_ok t"
  shows "stamp_seconds t div 86400 = days_of_date (int (stYear t)) (int (stMonth t)) (int (stDay t))"
proof -
  have "stamp_seconds t = 86400 * days_of_date (int (stYear t)) (int (stMonth t)) (int (stDay t))
      + (3600 * int (stHour t) + 60 * int (stMin t) + int (stSec t))"
    by (simp add: stamp_seconds_def civil_seconds_def)
  from int_div_pos_eq [OF this] assms show ?thesis by (simp add: stamp_ok_def)
qed

text \<open>Whatever its zone, a parsed stamp has the date that is written in it.\<close>

lemma Date_of_stamp:
  assumes "stamp_ok t" and "unix_seconds g + zone_offset g = stamp_seconds t"
  shows "Date g = (int (stYear t), int (stMonth t), int (stDay t))"
  using assms by (simp add: Date_def stamp_seconds_day date_of_days_of_date stamp_date_valid)

end
