(* ===== verification/LogTime.thy ===== *)
theory LogTime
  imports GoCalendar
begin

text \<open>
  The time stamps of logs (\<open>plugins/handler/logs/pkg/lib/time.go\<close>).  Its layouts ask for zeros where
  those of the events handler ask for nines: a stamp without a zone must have six digits after the
  second.
\<close>

lemma log_T_chunks:
  "layout_chunks [] ''2006-01-02T15:04:05.000000'' =
     (date_chunks CHR ''T'' @ [('':'', Zero_Second), ([], Frac_Second0 6)], [])"
  by code_simp

lemma log_blank_chunks:
  "layout_chunks [] ''2006-01-02 15:04:05.000000'' =
     (date_chunks CHR '' '' @ [('':'', Zero_Second), ([], Frac_Second0 6)], [])"
  by code_simp

lemma zone_text_no_digit:
  "zone_text z = c # r \<Longrightarrow> \<not> is_digit c \<and> \<not> comma_or_period c"
  by (cases z) (auto simp: is_digit_def comma_or_period_def)

text \<open>The fraction of six digits, in front of a zone.\<close>

lemma read_six_digits:
  assumes "list_all is_digit fr" and "length fr \<le> 9"
  shows "(case parse_std (Frac_Second0 6) None (frac_text fr @ zone_text z) p of
            Some (p', []) \<Rightarrow> Some p' | _ \<Rightarrow> None)
         = (if length fr = 6 \<and> zone_text z = [] then Some (p\<lparr>ptNsec := frac_nanos fr\<rparr>) else None)"
proof (cases "fr = []")
  case True
  then show ?thesis
    using zone_text_no_digit [of z]
    by (cases "zone_text z") (auto simp: parse_std_def frac_text_def parse_nanoseconds_def)
next
  case False
  then obtain d ds where fr: "fr = d # ds" by (cases fr) auto
  then have d: "d \<noteq> CHR ''-''" "d \<noteq> CHR ''+''" using assms(1) by auto
  show ?thesis
  proof (cases "6 \<le> length fr")
    case True
    then have t: "take 6 (fr @ zone_text z) = take 6 fr" by simp
    have "list_all is_digit (take 6 fr)" using assms(1) by (auto simp: list_all_iff dest: in_set_takeD)
    moreover have "take 6 fr \<noteq> []" using fr by simp
    ultimately have "time_atoi (take 6 fr) = Some (int (nat_of_digits (take 6 fr) 0))" by (rule time_atoi_digits)
    with t True False fr show ?thesis
      by (auto simp: parse_std_def frac_text_def parse_nanoseconds_def comma_or_period_def frac_nanos_def Let_def
          split: list.split)
  next
    case False
    have "parse_nanoseconds (frac_text fr @ zone_text z) 7 = None" if "7 \<le> length (frac_text fr @ zone_text z)"
    proof -
      from that False fr obtain c r where z: "zone_text z = c # r" by (cases "zone_text z") (auto simp: frac_text_def)
      then have "c \<in> set (take 6 (fr @ zone_text z))" using False
        by (auto simp: take_Cons' numeral_eq_Suc)
      then have "\<not> list_all is_digit (take 6 (fr @ zone_text z))"
        using zone_text_no_digit [OF z] by (auto simp: list_all_iff)
      then show ?thesis using d fr
        by (auto simp: parse_nanoseconds_def frac_text_def comma_or_period_def time_atoi_def Let_def)
    qed
    with False show ?thesis by (auto simp: parse_std_def)
  qed
qed

lemma zone_text_Nil: "zone_text z = [] \<longleftrightarrow> z = No_Zone"
  by (cases z) simp_all

lemma read_seconds_six:
  assumes "stamp_ok t"
  shows "parse_chunks (date_chunks sep @ [('':'', Zero_Second), ([], Frac_Second0 6)]) [] (iso_text sep t z) parsed_init
         = (if length (stFrac t) = 6 \<and> z = No_Zone then Some (clock t) else None)"
proof -
  have sec: "stSec t < 100" "stSec t < 60" and fr: "list_all is_digit (stFrac t)" "length (stFrac t) \<le> 9"
    using assms by (simp_all add: stamp_ok_def)
  let ?p = "parsed_init\<lparr>ptYear := int (stYear t), ptMonth := int (stMonth t), ptDay := int (stDay t),
    ptHour := int (stHour t), ptMin := int (stMin t)\<rparr>"
  have "parse_chunks (date_chunks sep @ [('':'', Zero_Second), ([], Frac_Second0 6)]) [] (iso_text sep t z) parsed_init
      = parse_chunks [([], Frac_Second0 6)] [] (frac_text (stFrac t) @ zone_text z) (?p\<lparr>ptSec := int (stSec t)\<rparr>)"
    unfolding iso_text_def parse_date [OF assms] using sec by (simp add: parse_std_def [of Zero_Second])
  also have "\<dots> = (case parse_std (Frac_Second0 6) None (frac_text (stFrac t) @ zone_text z)
                        (?p\<lparr>ptSec := int (stSec t)\<rparr>) of
                      Some (p', []) \<Rightarrow> Some p' | _ \<Rightarrow> None)"
    by (simp split: option.split list.split)
  also have "\<dots> = (if length (stFrac t) = 6 \<and> z = No_Zone then Some (clock t) else None)"
    unfolding read_six_digits [OF fr] zone_text_Nil by (simp add: clock_def)
  finally show ?thesis .
qed

lemma read_seconds_nano_zone:
  assumes "stamp_ok t"
  shows "parse_chunks (date_chunks sep @ [('':'', Zero_Second), ([], Frac_Second9), ([], ISO8601_Colon_TZ)]) []
           (iso_text sep t No_Zone) parsed_init = None"
proof (cases "stFrac t = []")
  case True
  then show ?thesis
    using assms unfolding iso_text_def parse_date [OF assms]
    by (auto simp: parse_std_def stamp_ok_def frac_text_def has_frac_def parse_zone_def split: list.split option.split)
next
  case False
  then show ?thesis
    using assms frac_read [of "stFrac t" No_Zone] unfolding iso_text_def parse_date [OF assms]
    by (auto simp: parse_std_def stamp_ok_def parse_zone_def split: list.split option.split)
qed

lemma iso_T_not_blank:
  assumes "stamp_ok t"
  shows "parse_chunks (date_chunks CHR '' '' @ cs) e (iso_text CHR ''T'' t z) parsed_init = None"
  using assms stamp_day_bound [OF assms]
  by (simp add: iso_text_def date_chunks_def parse_std_def stamp_ok_def skip_prefix.simps)

lemma log_time_of_stamp:
  assumes "stamp_ok t" and "zone_ok z"
  shows "TimeFromFormat time_Parse (iso_text CHR ''T'' t z) =
    (if z = No_Zone \<and> length (stFrac t) \<noteq> 6 then Inl ''unable to parse timestamp''
     else Inr \<lparr>unix_seconds = stamp_seconds t - zone_seconds z, nanoseconds = frac_nanos (stFrac t),
               zone_offset = zone_seconds z\<rparr>)"
proof -
  have first: "time_Parse ''2006-01-02T15:04:05.000000'' (iso_text CHR ''T'' t z) =
      (if length (stFrac t) = 6 \<and> z = No_Zone
       then Some \<lparr>unix_seconds = stamp_seconds t, nanoseconds = frac_nanos (stFrac t), zone_offset = 0\<rparr> else None)"
    using assms(1) by (simp add: time_Parse_def log_T_chunks read_seconds_six finish_clock)
  have nano: "time_Parse RFC3339Nano (iso_text CHR ''T'' t No_Zone) = None"
    using assms(1) by (simp add: time_Parse_def RFC3339Nano_chunks read_seconds_nano_zone)
  have last: "time_Parse ''2006-01-02 15:04:05.000000'' (iso_text CHR ''T'' t z) = None"
    using assms(1) by (simp add: time_Parse_def log_blank_chunks iso_T_not_blank)
  have "stYear t < 10000" using assms(1) by (simp add: stamp_ok_def)
  from parse_ANSIC_digit [OF this] first nano last time_Parse_RFC3339 [OF assms]
  show ?thesis by (auto simp: TimeFromFormat_def log_layouts_def)
qed

text \<open>
  C40: The logs handler reads a stamp with \<open>T\<close> as the second it names, less the offset of its zone;
  without a zone it does so only if the stamp has exactly six digits after the second, and rejects
  every other, which the events handler reads.
\<close>

theorem log_stamps_accepted:
  assumes "stamp_ok t" and "zone_ok z"
  shows "TimeFromFormat time_Parse (iso_text CHR ''T'' t z) =
    (if z = No_Zone \<and> length (stFrac t) \<noteq> 6 then Inl ''unable to parse timestamp''
     else Inr \<lparr>unix_seconds = stamp_seconds t - zone_seconds z, nanoseconds = frac_nanos (stFrac t),
               zone_offset = zone_seconds z\<rparr>)"
  using assms by (rule log_time_of_stamp)

theorem log_stamps_accepted_witness:
  "TimeFromFormat time_Parse (iso_text CHR ''T'' ex_stamp Zulu) =
     Inr \<lparr>unix_seconds = 1583504010, nanoseconds = 57411000, zone_offset = 0\<rparr>
   \<and> TimeFromFormat time_Parse (iso_text CHR ''T'' (ex_stamp\<lparr>stFrac := []\<rparr>) No_Zone) =
       Inl ''unable to parse timestamp''"
proof -
  have "stamp_ok (ex_stamp\<lparr>stFrac := []\<rparr>)" using ex_stamp_ok(1) by (simp add: stamp_ok_def)
  moreover have "stamp_seconds (ex_stamp\<lparr>stFrac := []\<rparr>) = stamp_seconds ex_stamp" by (simp add: stamp_seconds_def)
  moreover have "frac_nanos (stFrac ex_stamp) = 57411000"
    by (simp add: frac_nanos_def ex_stamp_def digit_val_def)
  ultimately show ?thesis
    using log_stamps_accepted [of ex_stamp Zulu] log_stamps_accepted [of "ex_stamp\<lparr>stFrac := []\<rparr>" No_Zone]
      ex_stamp_ok by simp
qed

end
