(* ===== verification/EsClient.thy ===== *)
theory EsClient
  imports GoStrings
begin

text \<open>
  The Elasticsearch client (\<open>plugins/application/elasticsearch/pkg/lib/client.go\<close>) on top of
  the official library: what it asks of the server and what it makes of the answers.  The
  connection is a parameter: it takes a request and the state of the world to an answer and
  a new state.
\<close>

section \<open>Requests\<close>

datatype es_request =
    Req_Exists "string list"
  | Req_Delete "string list"
  | Req_Create string
  | Req_Index string string
  | Req_Bulk string

text \<open>
  An answer is the library's error or a response: status, body, and the error that reading
  the body ends with, if any.
\<close>

type_synonym es_response = "int \<times> string \<times> string option"

type_synonym 'w es_conn = "es_request \<Rightarrow> 'w \<Rightarrow> (string + es_response) \<times> 'w"

definition StatusOK :: int where "StatusOK = 200"
definition StatusCreated :: int where "StatusCreated = 201"
definition StatusNotFound :: int where "StatusNotFound = 404"

definition discard_error :: "string option \<Rightarrow> string option" where
  "discard_error e = map_option (\<lambda>e. ''failed to discard response body: '' @ e) e"

section \<open>Indices\<close>

definition IndicesExists ::
  "'w es_conn \<Rightarrow> string list \<Rightarrow> 'w \<Rightarrow> (bool \<times> string option) \<times> 'w" where
  "IndicesExists conn indices w =
     (case conn (Req_Exists indices) w of
        (Inl err, w') \<Rightarrow> ((False, Some err), w')
      | (Inr (status, body, rerr), w') \<Rightarrow>
          (case discard_error rerr of
             Some e \<Rightarrow> ((False, Some e), w')
           | None \<Rightarrow>
               if status = StatusOK then ((True, None), w')
               else if status = StatusNotFound then ((False, None), w')
               else ((False, Some (''failed to check for indices ['' @ join '','' indices @ '']: ''
                                   @ itoa status)), w')))"

definition IndicesDelete :: "'w es_conn \<Rightarrow> string list \<Rightarrow> 'w \<Rightarrow> string option \<times> 'w" where
  "IndicesDelete conn indices w =
     (case conn (Req_Delete indices) w of
        (Inl err, w') \<Rightarrow> (Some err, w')
      | (Inr (status, body, rerr), w') \<Rightarrow>
          if status \<noteq> StatusOK \<and> status \<noteq> StatusNotFound
          then (Some (''failed to delete indices ['' @ itoa status @ '']: '' @ body), w')
          else (discard_error rerr, w'))"

text \<open>An index that exists already ends the loop, as if all were done.\<close>

fun IndicesCreate :: "'w es_conn \<Rightarrow> string list \<Rightarrow> 'w \<Rightarrow> string option \<times> 'w" where
  "IndicesCreate conn [] w = (None, w)"
| "IndicesCreate conn (index # indices) w =
     (case conn (Req_Create index) w of
        (Inl err, w') \<Rightarrow> (Some err, w')
      | (Inr (status, body, rerr), w') \<Rightarrow>
          if status \<noteq> StatusOK then
            (if str_contains body ''resource_already_exists_exception'' then (None, w')
             else (Some (''failed to create index ['' @ itoa status @ '']: '' @ body), w'))
          else (case discard_error rerr of
                  Some e \<Rightarrow> (Some e, w')
                | None \<Rightarrow> IndicesCreate conn indices w'))"

section \<open>Documents\<close>

text \<open>\<open>ids\<close> are the identifiers that \<open>generateDocumentID\<close> makes, in order.\<close>

definition bulk_header :: "string \<Rightarrow> string \<Rightarrow> string" where
  "bulk_header index i =
     ''{'' @ [quote] @ ''index'' @ [quote] @ '':{'' @ [quote] @ ''_index'' @ [quote] @ '':'' @ [quote] @ index
     @ [quote] @ '','' @ [quote] @ ''_id'' @ [quote] @ '':'' @ [quote] @ i @ [quote] @ ''}}''"

fun bulk_lines :: "string \<Rightarrow> string list \<Rightarrow> string list \<Rightarrow> string list" where
  "bulk_lines index (i # ids) (doc # docs) = bulk_header index i # doc # bulk_lines index ids docs"
| "bulk_lines index ids docs = []"

fun bulk_body :: "string \<Rightarrow> string list \<Rightarrow> string list \<Rightarrow> string" where
  "bulk_body index (i # ids) (doc # docs) =
     bulk_header index i @ [newline] @ doc @ [newline] @ bulk_body index ids docs"
| "bulk_body index ids docs = []"

definition formatBulkRequest :: "string list \<Rightarrow> string \<Rightarrow> string list \<Rightarrow> string" where
  "formatBulkRequest ids index documents = bulk_body index ids documents @ [newline]"

definition index_answer :: "string \<Rightarrow> string + es_response \<Rightarrow> string option" where
  "index_answer what answer =
     (case answer of
        Inl err \<Rightarrow> Some err
      | Inr (status, body, rerr) \<Rightarrow>
          if status \<noteq> StatusOK \<and> status \<noteq> StatusCreated
          then Some (''failed to index '' @ what @ ''['' @ itoa status @ '']: '' @ body)
          else discard_error rerr)"

fun index_each :: "'w es_conn \<Rightarrow> string \<Rightarrow> string list \<Rightarrow> 'w \<Rightarrow> string option \<times> 'w" where
  "index_each conn index [] w = (None, w)"
| "index_each conn index (doc # docs) w =
     (let (answer, w') = conn (Req_Index index doc) w
      in case index_answer ''document'' answer of
           Some e \<Rightarrow> (Some e, w')
         | None \<Rightarrow> index_each conn index docs w')"

definition Index :: "'w es_conn \<Rightarrow> string list \<Rightarrow> string \<Rightarrow> string list \<Rightarrow> bool \<Rightarrow> 'w \<Rightarrow> string option \<times> 'w" where
  "Index conn ids index documents bulk w =
     (if \<not> bulk then index_each conn index documents w
      else (let (answer, w') = conn (Req_Bulk (formatBulkRequest ids index documents)) w
            in (index_answer ''document(s)'' answer, w')))"

section \<open>Lemmas\<close>

lemma bulk_lines_split:
  assumes "length ids = length docs" and "\<forall>l \<in> set (bulk_lines index ids docs). newline \<notin> set l"
  shows "str_split [newline] (bulk_body index ids docs @ rest) =
           bulk_lines index ids docs @ str_split [newline] rest"
  using assms
proof (induction index ids docs rule: bulk_lines.induct)
  case (1 index i ids doc docs)
  then show ?case by (simp add: str_split_single_append)
qed simp_all

lemma str_split_Nil: "str_split [c] [] = [[]]"
  by (simp add: str_split.simps [of "[c]" "[]"])

lemma bulk_header_clean:
  "newline \<notin> set index \<Longrightarrow> newline \<notin> set i \<Longrightarrow> newline \<notin> set (bulk_header index i)"
  by (simp add: bulk_header_def newline_def quote_def)

lemma bulk_lines_clean:
  "newline \<notin> set index \<Longrightarrow> \<forall>i \<in> set ids. newline \<notin> set i \<Longrightarrow> \<forall>d \<in> set docs. newline \<notin> set d \<Longrightarrow>
     \<forall>l \<in> set (bulk_lines index ids docs). newline \<notin> set l"
  by (induction index ids docs rule: bulk_lines.induct) (simp_all add: bulk_header_clean)

section \<open>Properties\<close>

text \<open>A server that keeps the list of the requests it got, and refuses some of them.\<close>

definition ex_conn :: "(es_request \<Rightarrow> int \<times> string) \<Rightarrow> es_request list es_conn" where
  "ex_conn status r w = (case status r of (n, body) \<Rightarrow> (Inr (n, body, None), w @ [r]))"

text \<open>
  C27: A bulk request can be read back: if neither the index, the identifiers nor the documents
  contain a line break, its lines are, for every document in order, the action line with the
  index and an identifier and then the document itself, followed by one empty line.
\<close>

theorem bulk_request_readable:
  assumes "length ids = length docs" and "newline \<notin> set index"
    and "\<forall>i \<in> set ids. newline \<notin> set i" and "\<forall>d \<in> set docs. newline \<notin> set d"
  shows "str_split [newline] (formatBulkRequest ids index docs) = bulk_lines index ids docs @ [[], []]"
proof -
  have "str_split [newline] ([] @ newline # []) = [[], []]"
    by (subst str_split_single_append) (simp_all add: str_split_Nil)
  with bulk_lines_split [OF assms(1) bulk_lines_clean [OF assms(2-4)], of "[newline]"]
  show ?thesis by (simp add: formatBulkRequest_def)
qed

theorem bulk_request_readable_witness:
  "str_split [newline] (formatBulkRequest [''1'', ''2''] ''ix'' [''a'', ''b'']) =
     [bulk_header ''ix'' ''1'', ''a'', bulk_header ''ix'' ''2'', ''b'', [], []]"
  using bulk_request_readable [of "[''1'', ''2'']" "[''a'', ''b'']" "''ix''"] by (simp add: newline_def)

text \<open>
  \<open>IndicesCreate\<close> stops at the first index that exists already, without an error: the
  indices after it are not created.
\<close>

theorem indices_create_stops_at_existing:
  assumes "conn (Req_Create index) w = (Inr (status, body, rerr), w')" and "status \<noteq> StatusOK"
    and "str_contains body ''resource_already_exists_exception''"
  shows "IndicesCreate conn (index # indices) w = (None, w')"
  using assms by simp

theorem indices_create_stops_at_existing_witness:
  "IndicesCreate (ex_conn (\<lambda>r. if r = Req_Create ''a'' then (400, ''resource_already_exists_exception'') else (200, [])))
     [''a'', ''b''] [] = (None, [Req_Create ''a''])"
proof -
  have "str_contains ''resource_already_exists_exception'' ''resource_already_exists_exception''" by code_simp
  then show ?thesis
    using indices_create_stops_at_existing [of
      "ex_conn (\<lambda>r. if r = Req_Create ''a'' then (400, ''resource_already_exists_exception'') else (200, []))"
      "''a''" "[]" 400 "''resource_already_exists_exception''" None "[Req_Create ''a'']" "[''b'']"]
    by (simp add: ex_conn_def StatusOK_def)
qed

end
