(* ===== verification/Elasticsearch.thy ===== *)
theory Elasticsearch
  imports Data GoTime EsClient
begin

text \<open>
  The Elasticsearch application (\<open>plugins/application/elasticsearch/main.go\<close>,
  \<open>pkg/lib/config.go\<close>): events are formatted as records, buffered per index, and sent in
  batches to the index workers through a channel, or flushed by a timer.  The JSON encoder
  and the map functions of \<open>apputils\<close> are parameters.
\<close>

section \<open>Configuration and state\<close>

record es_config =
  HostURL :: string
  UseTLS :: bool
  TLSServerName :: string
  TLSClientCert :: string
  TLSClientKey :: string
  TLSCaCert :: string
  UseBasicAuth :: bool
  User :: string
  Password :: string
  BufferSize :: int64
  BulkIndex :: bool
  ResetIndices :: "string list option"
  IndexWorkers :: int64
  BufferTimeout :: int64

definition default_es_config :: es_config where
  "default_es_config =
     \<lparr>HostURL = [], UseTLS = False, TLSServerName = [], TLSClientCert = [], TLSClientKey = [],
      TLSCaCert = [], UseBasicAuth = False, User = [], Password = [], BufferSize = 1,
      BulkIndex = False, ResetIndices = None, IndexWorkers = 3, BufferTimeout = 5\<rparr>"

text \<open>A batch: the index and the records for it.\<close>

type_synonym es_index = "string \<times> string list"

text \<open>
  \<open>sending\<close> are the batches whose goroutine is at the send to the channel \<open>dump\<close>, which holds
  up to 512.  \<open>indexed\<close> is the history of the batches for which the client's \<open>Index\<close> returned no
  error, \<open>disregarded\<close> of those for which it did: they are logged and dropped.
\<close>

record es =
  es_configuration :: es_config
  es_buffer :: "(string, string list) gomap"
  sending :: "es_index list"
  dump :: "es_index list"
  indexed :: "es_index list"
  disregarded :: "es_index list"

definition dump_capacity :: nat where
  "dump_capacity = 512"

definition es_New :: "es_config \<Rightarrow> es" where
  "es_New cf = \<lparr>es_configuration = cf, es_buffer = [], sending = [], dump = [], indexed = [],
     disregarded = []\<rparr>"

section \<open>Formatting\<close>

text \<open>
  \<open>time.Unix\<close> normalises the nanoseconds; the fraction is subtracted from the whole seconds.
  The zone is the local one, \<open>local\<close> its offset.  \<open>format\<close> is \<open>Format(time.RFC3339)\<close>.
\<close>

definition time_Unix :: "(int \<Rightarrow> int) \<Rightarrow> int \<Rightarrow> int \<Rightarrow> go_time" where
  "time_Unix local sec nsec =
     (let s = sec + nsec div 1000000000
      in \<lparr>unix_seconds = s, nanoseconds = nsec mod 1000000000, zone_offset = local s\<rparr>)"

definition epoch_time :: "(int \<Rightarrow> int) \<Rightarrow> float64 \<Rightarrow> go_time" where
  "epoch_time local epoch =
     (let whole = int64_of_f64 epoch
      in time_Unix local whole (int64_of_f64 ((f64_of_int whole - epoch) * 1000000000)))"

definition timeFromEpoch :: "(go_time \<Rightarrow> string) \<Rightarrow> (int \<Rightarrow> int) \<Rightarrow> go_time \<Rightarrow> float64 \<Rightarrow> string" where
  "timeFromEpoch format local now epoch =
     (if epoch = 0 then format now else format (epoch_time local epoch))"

record es_record =
  EventType :: string
  Generated :: string
  Severity :: string
  Labels :: "(string, ivalue) gomap"
  Annotations :: "(string, ivalue) gomap"

record es_log =
  Timestamp :: string
  LogLabels :: "(string, string) gomap"
  LogMessage :: string

definition formatRecord :: "(float64 \<Rightarrow> string) \<Rightarrow> (es_record \<Rightarrow> string + string) \<Rightarrow> event \<Rightarrow> (string + string) go" where
  "formatRecord time marshal e =
     go_bind (event_type_String (eType e)) (\<lambda>et.
     go_bind (event_severity_String (eSeverity e)) (\<lambda>sev.
       Inr (marshal \<lparr>EventType = et, Generated = time (eTime e), Severity = sev, Labels = eLabels e,
                     Annotations = eAnnotations e\<rparr>)))"

text \<open>\<open>merge\<close> is \<open>MergeMaps\<close>, \<open>assimilate\<close> the strings \<open>AssimilateMap\<close> finds in a map.\<close>

definition formatLog ::
  "(float64 \<Rightarrow> string)
     \<Rightarrow> ((string, ivalue) gomap \<Rightarrow> (string, ivalue) gomap \<Rightarrow> (string, ivalue) gomap)
     \<Rightarrow> ((string, ivalue) gomap \<Rightarrow> (string, string) gomap)
     \<Rightarrow> (es_log \<Rightarrow> string + string) \<Rightarrow> event \<Rightarrow> (string + string) go" where
  "formatLog time merge assimilate marshal e =
     (let dest = assimilate (merge (eAnnotations e) (eLabels e))
      in go_bind (event_severity_String (eSeverity e)) (\<lambda>sev.
           Inr (marshal \<lparr>Timestamp = time (eTime e), LogLabels = AList.update ''severity'' sev dest,
                         LogMessage = eMessage e\<rparr>)))"

text \<open>The record of an event, if its type is one the application stores and it can be encoded.\<close>

definition es_format ::
  "(event \<Rightarrow> (string + string) go) \<Rightarrow> (event \<Rightarrow> (string + string) go) \<Rightarrow> event \<Rightarrow> string option go" where
  "es_format record_of log_of e =
     (case eType e of
        EVENT \<Rightarrow> go_bind (record_of e) (\<lambda>res. Inr (case res of Inl err \<Rightarrow> None | Inr r \<Rightarrow> Some r))
      | LOG \<Rightarrow> go_bind (log_of e) (\<lambda>res. Inr (case res of Inl err \<Rightarrow> None | Inr r \<Rightarrow> Some r))
      | _ \<Rightarrow> Inr None)"

section \<open>Buffering\<close>

text \<open>The second half of \<open>ReceiveEvent\<close>: a full batch goes to the channel.\<close>

definition es_store :: "string \<Rightarrow> string \<Rightarrow> es \<Rightarrow> es" where
  "es_store index record es =
     (if BufferSize (es_configuration es) > 1 then
        (let old = (case map_of (es_buffer es) index of None \<Rightarrow> [] | Some rs \<Rightarrow> rs);
             recs = old @ [record]
         in if int (length recs) < BufferSize (es_configuration es)
            then es\<lparr>es_buffer := AList.update index recs (es_buffer es)\<rparr>
            else es\<lparr>es_buffer := AList.delete index (es_buffer es),
                    sending := sending es @ [(index, recs)]\<rparr>)
      else es\<lparr>sending := sending es @ [(index, [record])]\<rparr>)"

definition es_ReceiveEvent :: "(event \<Rightarrow> string option go) \<Rightarrow> event \<Rightarrow> es \<Rightarrow> es go" where
  "es_ReceiveEvent fmt e es =
     go_bind (fmt e) (\<lambda>r. Inr (case r of None \<Rightarrow> es | Some record \<Rightarrow> es_store (eIndex e) record es))"

text \<open>
  A tick of the flusher hands every buffered batch to the client and empties the buffer, whatever the
  client returns; \<open>res\<close> are the errors of these calls.
\<close>

definition es_flush :: "(es_index \<Rightarrow> string option) \<Rightarrow> es \<Rightarrow> es" where
  "es_flush res es =
     es\<lparr>es_buffer := [],
        indexed := indexed es @ filter (\<lambda>b. res b = None) (es_buffer es),
        disregarded := disregarded es @ filter (\<lambda>b. res b \<noteq> None) (es_buffer es)\<rparr>"

text \<open>An index worker takes a batch; \<open>err\<close> is what the client's \<open>Index\<close> returns for it.\<close>

definition es_work :: "string option \<Rightarrow> es \<Rightarrow> es" where
  "es_work err es =
     (case dump es of
        [] \<Rightarrow> es
      | d # ds \<Rightarrow>
          (case err of
             None \<Rightarrow> es\<lparr>dump := ds, indexed := indexed es @ [d]\<rparr>
           | Some e \<Rightarrow> es\<lparr>dump := ds, disregarded := disregarded es @ [d]\<rparr>))"

text \<open>The errors that the client's \<open>Index\<close> can return for a batch, on a connection.\<close>

definition client_answers :: "'w es_conn \<Rightarrow> es_config \<Rightarrow> es_index \<Rightarrow> string option \<Rightarrow> bool" where
  "client_answers conn cf b err \<longleftrightarrow>
     (\<exists>ids w. fst (Index conn ids (fst b) (snd b) (BulkIndex cf) w) = err)"

text \<open>
  Runs, with the events received so far: a received event, a goroutine's send to the channel
  when there is room, an index worker, the flusher.  \<open>answers\<close> tells what the client may return.
\<close>

inductive es_run ::
  "(event \<Rightarrow> string option go) \<Rightarrow> (es_index \<Rightarrow> string option \<Rightarrow> bool) \<Rightarrow> es_config \<Rightarrow> event list \<Rightarrow> es \<Rightarrow> bool"
  for fmt answers cf where
  start: "es_run fmt answers cf [] (es_New cf)"
| receive: "es_run fmt answers cf evs es \<Longrightarrow> es_ReceiveEvent fmt e es = Inr es' \<Longrightarrow>
     es_run fmt answers cf (evs @ [e]) es'"
| send: "es_run fmt answers cf evs es \<Longrightarrow> sending es = pre @ d # post \<Longrightarrow> length (dump es) < dump_capacity \<Longrightarrow>
     es_run fmt answers cf evs (es\<lparr>sending := pre @ post, dump := dump es @ [d]\<rparr>)"
| work: "es_run fmt answers cf evs es \<Longrightarrow> 0 < IndexWorkers cf \<Longrightarrow> dump es = d # ds \<Longrightarrow> answers d err \<Longrightarrow>
     es_run fmt answers cf evs (es_work err es)"
| flush: "es_run fmt answers cf evs es \<Longrightarrow> list_all (\<lambda>b. answers b (res b)) (es_buffer es) \<Longrightarrow>
     es_run fmt answers cf evs (es_flush res es)"

section \<open>Lemmas\<close>

text \<open>
  The records of batches, with their index; all that the application holds, has indexed or has dropped.
\<close>

definition records_of :: "es_index list \<Rightarrow> (string \<times> string) multiset" where
  "records_of bs = (\<Sum>(i, rs) \<in># mset bs. image_mset (Pair i) (mset rs))"

definition all_records :: "es \<Rightarrow> (string \<times> string) multiset" where
  "all_records es =
     records_of (indexed es) + records_of (disregarded es) + records_of (dump es) + records_of (sending es)
     + records_of (es_buffer es)"

fun stored_records :: "(event \<Rightarrow> string option go) \<Rightarrow> event list \<Rightarrow> (string \<times> string) multiset" where
  "stored_records fmt [] = {#}"
| "stored_records fmt (e # evs) =
     (case fmt e of Inr (Some r) \<Rightarrow> {#(eIndex e, r)#} | _ \<Rightarrow> {#}) + stored_records fmt evs"

lemma records_of_simps [simp]:
  "records_of [] = {#}"
  "records_of ((i, rs) # bs) = image_mset (Pair i) (mset rs) + records_of bs"
  "records_of (bs @ bs') = records_of bs + records_of bs'"
  by (simp_all add: records_of_def)

lemma records_of_filter: "records_of (filter P bs) + records_of (filter (\<lambda>b. \<not> P b) bs) = records_of bs"
  by (induction bs) (auto simp: add_ac)

lemma stored_records_append [simp]:
  "stored_records fmt (evs @ evs') = stored_records fmt evs + stored_records fmt evs'"
  by (induction evs) (simp_all add: add.assoc split: sum.split option.split)

lemma records_of_update:
  "gomap_wf m \<Longrightarrow>
     records_of (AList.update i (rs @ [r]) m) =
       (if map_of m i = Some rs then records_of m + {#(i, r)#}
        else if map_of m i = None then records_of m + image_mset (Pair i) (mset (rs @ [r]))
        else records_of (AList.update i (rs @ [r]) m))"
  by (induction m) (auto simp: gomap_wf_def split: if_splits)

lemma records_of_delete:
  "gomap_wf m \<Longrightarrow> map_of m i = Some rs \<Longrightarrow>
     records_of m = records_of (AList.delete i m) + image_mset (Pair i) (mset rs)"
proof (induction m)
  case Nil
  then show ?case by simp
next
  case (Cons x m)
  obtain j ss where x: "x = (j, ss)" by force
  show ?case
  proof (cases "i = j")
    case True
    with Cons.prems(1) x have "AList.delete i m = m" by (simp add: gomap_wf_def)
    with True Cons.prems x show ?thesis by simp
  next
    case False
    with Cons x show ?thesis by (simp add: gomap_wf_def)
  qed
qed

definition es_inv :: "es_config \<Rightarrow> es \<Rightarrow> bool" where
  "es_inv cf es \<longleftrightarrow>
     es_configuration es = cf \<and> gomap_wf (es_buffer es)
     \<and> (\<forall>(i, rs) \<in> set (es_buffer es). rs \<noteq> [] \<and> int (length rs) < BufferSize cf)
     \<and> (BufferSize cf \<le> 1 \<longrightarrow> es_buffer es = [])
     \<and> (\<forall>(i, rs) \<in> set (dump es @ sending es). int (length rs) = max 1 (BufferSize cf))
     \<and> (\<forall>(i, rs) \<in> set (indexed es @ disregarded es). rs \<noteq> [] \<and> int (length rs) \<le> max 1 (BufferSize cf))
     \<and> length (dump es) \<le> dump_capacity"

lemma es_store_records:
  assumes "gomap_wf (es_buffer es)"
  shows "all_records (es_store i r es) = all_records es + {#(i, r)#}"
proof (cases "map_of (es_buffer es) i")
  case None
  then have "AList.delete i (es_buffer es) = es_buffer es"
    by (simp add: map_of_eq_None_iff)
  with records_of_update [OF assms, of i "[]" r] None show ?thesis
    by (simp add: es_store_def all_records_def Let_def)
next
  case (Some rs)
  from records_of_delete [OF assms Some] records_of_update [OF assms, of i rs r] Some
  show ?thesis by (simp add: es_store_def all_records_def Let_def)
qed

lemma es_store_inv:
  assumes inv: "es_inv cf es"
  shows "es_inv cf (es_store i r es)"
proof -
  have upd: "set (AList.update i v m) \<subseteq> insert (i, v) (set m)" for v and m :: "(string, string list) gomap"
    by (induction m) auto
  have del: "set (AList.delete i m) \<subseteq> set m" for m :: "(string, string list) gomap"
    by (induction m) auto
  have old: "int (length (case map_of (es_buffer es) i of None \<Rightarrow> [] | Some rs \<Rightarrow> rs)) < max 1 (BufferSize cf)"
    using inv by (auto simp: es_inv_def split: option.split dest!: map_of_SomeD)
  show ?thesis
    using inv old upd [of "_ @ [r]" "es_buffer es"] del [of "es_buffer es"]
    by (fastforce simp: es_store_def es_inv_def Let_def)
qed

lemma es_run_inv: "es_run fmt answers cf evs es \<Longrightarrow> es_inv cf es"
proof (induction rule: es_run.induct)
  case start
  then show ?case by (simp add: es_inv_def es_New_def)
next
  case (receive evs es e es')
  then obtain res where "es' = (case res of None \<Rightarrow> es | Some record \<Rightarrow> es_store (eIndex e) record es)"
    by (auto simp: es_ReceiveEvent_def go_bind_eq_Inr_iff)
  with receive.IH es_store_inv show ?case by (simp split: option.split)
next
  case (send evs es pre d post)
  then show ?case by (auto simp: es_inv_def)
next
  case (work evs es d ds err)
  then show ?case by (cases err) (auto simp: es_inv_def es_work_def)
next
  case (flush evs es res)
  then show ?case by (fastforce simp: es_inv_def es_flush_def)
qed

lemma es_run_conserves:
  assumes "es_run fmt answers cf evs es"
  shows "all_records es = stored_records fmt evs"
  using assms
proof (induction rule: es_run.induct)
  case start
  then show ?case by (simp add: es_New_def all_records_def)
next
  case (receive evs es e es')
  then obtain res where res: "fmt e = Inr res"
    and es': "es' = (case res of None \<Rightarrow> es | Some record \<Rightarrow> es_store (eIndex e) record es)"
    by (auto simp: es_ReceiveEvent_def go_bind_eq_Inr_iff)
  have "gomap_wf (es_buffer es)" using es_run_inv [OF receive.hyps(1)] by (simp add: es_inv_def)
  from es_store_records [OF this] receive.IH res es' show ?case by (simp split: option.split)
next
  case (send evs es pre d post)
  then show ?case by (cases d) (simp add: all_records_def add_ac)
next
  case (work evs es d ds err)
  then show ?case by (cases err; cases d) (simp_all add: all_records_def es_work_def add_ac)
next
  case (flush evs es res)
  from records_of_filter [of "\<lambda>b. res b = None" "es_buffer es"] flush.IH show ?case
    by (simp add: all_records_def es_flush_def add_ac)
qed

text \<open>What was indexed the client accepted, and what was dropped it refused.\<close>

lemma es_run_answers:
  assumes "es_run fmt answers cf evs es"
  shows "list_all (\<lambda>b. answers b None) (indexed es)
    \<and> list_all (\<lambda>b. \<exists>err. answers b (Some err)) (disregarded es)"
  using assms
proof (induction rule: es_run.induct)
  case (receive evs es e es')
  then show ?case
    by (auto simp: es_ReceiveEvent_def es_store_def go_bind_eq_Inr_iff Let_def split: option.splits if_splits)
next
  case (work evs es d ds err)
  then show ?case by (cases err) (auto simp: es_work_def)
next
  case (flush evs es res)
  then have "answers b (res b)" if "b \<in> set (es_buffer es)" for b using that by (simp add: list_all_iff)
  then have "answers b None" if "b \<in> set (es_buffer es)" "res b = None" for b using that by metis
  moreover have "\<exists>err. answers b (Some err)" if "b \<in> set (es_buffer es)" "res b \<noteq> None" for b
    using that \<open>\<And>b. b \<in> set (es_buffer es) \<Longrightarrow> answers b (res b)\<close> by (metis not_None_eq)
  ultimately show ?case using flush.IH unfolding es_flush_def list_all_iff by simp blast
qed (simp_all add: es_New_def)

section \<open>Properties\<close>

definition ex_es_event :: "string \<Rightarrow> event" where
  "ex_es_event msg =
     \<lparr>eIndex = ''ix'', eTime = 0, eType = LOG, ePublisher = [], eSeverity = INFO, eLabels = [],
      eAnnotations = [], eMessage = msg\<rparr>"

definition ex_es_format :: "event \<Rightarrow> string option go" where
  "ex_es_format e = Inr (Some (eMessage e))"

definition ex_es :: "int64 \<Rightarrow> es" where
  "ex_es n = es_store ''ix'' ''b'' (es_store ''ix'' ''a'' (es_New (default_es_config\<lparr>BufferSize := n\<rparr>)))"

lemma ex_es_run:
  "es_run ex_es_format answers (default_es_config\<lparr>BufferSize := n\<rparr>) [ex_es_event ''a'', ex_es_event ''b''] (ex_es n)"
proof -
  let ?cf = "default_es_config\<lparr>BufferSize := n\<rparr>"
  have "es_run ex_es_format answers ?cf ([] @ [ex_es_event ''a'']) (es_store ''ix'' ''a'' (es_New ?cf))"
    by (rule es_run.receive [OF es_run.start]) (simp add: es_ReceiveEvent_def ex_es_format_def ex_es_event_def)
  then have "es_run ex_es_format answers ?cf (([] @ [ex_es_event ''a'']) @ [ex_es_event ''b'']) (ex_es n)"
    by (rule es_run.receive) (simp add: es_ReceiveEvent_def ex_es_format_def ex_es_event_def ex_es_def)
  then show ?thesis by simp
qed

text \<open>
  No record is duplicated or forgotten: at any moment, the records indexed, those dropped after an
  error of the client, those in the channel, those waiting to be sent and those still buffered are together
  exactly the records of the events received, each with the index of its event.
\<close>

theorem es_conserves_records:
  assumes "es_run fmt answers cf evs es"
  shows "all_records es = stored_records fmt evs"
  using assms by (rule es_run_conserves)

theorem es_conserves_records_witness:
  "all_records (ex_es 2) = {#(''ix'', ''a''), (''ix'', ''b'')#}"
  using es_conserves_records [OF ex_es_run [where answers = "\<lambda>b err. True"]] by (simp add: ex_es_format_def ex_es_event_def)

text \<open>
  C14: The buffer of an index is never empty and never full: it holds less than the configured
  number of records, and nothing is buffered at all if that number is at most 1.  Every batch
  sent to the workers has exactly the configured size (1 if that is smaller), every batch
  given to the client at most that, and the channel never holds more than its capacity.
\<close>

theorem es_buffers_bounded:
  assumes "es_run fmt answers cf evs es"
  shows "(\<forall>(i, rs) \<in> set (es_buffer es). rs \<noteq> [] \<and> int (length rs) < BufferSize cf)
     \<and> (BufferSize cf \<le> 1 \<longrightarrow> es_buffer es = [])
     \<and> (\<forall>(i, rs) \<in> set (dump es @ sending es). int (length rs) = max 1 (BufferSize cf))
     \<and> (\<forall>(i, rs) \<in> set (indexed es @ disregarded es). rs \<noteq> [] \<and> int (length rs) \<le> max 1 (BufferSize cf))
     \<and> length (dump es) \<le> dump_capacity"
  using es_run_inv [OF assms] unfolding es_inv_def by blast

theorem es_buffers_bounded_witness:
  "sending (ex_es 2) = [(''ix'', [''a'', ''b''])] \<and> es_buffer (ex_es 2) = []
   \<and> list_all (\<lambda>(i, rs). int (length rs) = 2) (dump (ex_es 2) @ sending (ex_es 2))"
  using es_buffers_bounded [OF ex_es_run [of "\<lambda>b err. True" 2]]
  by (simp add: list_all_iff ex_es_def es_store_def es_New_def default_es_config_def)

text \<open>
  The time stamp of a record is too early when the time of the event has a fraction: the
  fraction is subtracted instead of added, so that for a positive time with a fraction of at
  least a nanosecond the printed second is the one before.
\<close>

theorem fractional_time_is_too_early:
  assumes "0 < epoch" and "epoch < 2 ^ 52" and "1 \<le> (epoch - of_int \<lfloor>epoch\<rfloor>) * 1000000000"
  shows "unix_seconds (epoch_time local epoch) = \<lfloor>epoch\<rfloor> - 1"
proof -
  let ?w = "\<lfloor>epoch\<rfloor>"
  let ?x = "(of_int ?w - epoch) * 1000000000"
  have w: "0 \<le> ?w" "?w < 2 ^ 52" using assms(1,2) by (simp_all add: floor_less_iff)
  then have "is_int64 ?w" by (simp add: is_int64_def)
  then have "int64_of_f64 epoch = ?w" using assms(1) by (simp add: int64_of_f64_def wrap64_id)
  moreover have "f64_of_int ?w = of_int ?w" using w by (intro f64_of_int_exact) simp
  moreover have "int64_of_f64 ?x = \<lceil>?x\<rceil>"
  proof -
    have "?x < 0" and "- 1000000000 < ?x" using assms(3) by (simp_all, linarith)
    then have "- 1000000000 \<le> \<lceil>?x\<rceil>" and "\<lceil>?x\<rceil> \<le> 0" by linarith+
    moreover have "is_int64 i" if "- 1000000000 \<le> i" and "i \<le> 0" for i
      using that by (simp add: is_int64_def)
    ultimately have "is_int64 \<lceil>?x\<rceil>" by blast
    with \<open>?x < 0\<close> show ?thesis by (simp add: int64_of_f64_def wrap64_id)
  qed
  moreover have "\<lceil>?x\<rceil> div 1000000000 = - 1"
  proof -
    have "?x \<le> - 1" and "- 1000000000 < ?x" using assms(3) by (simp_all add: algebra_simps, linarith)
    then have "\<lceil>?x\<rceil> \<le> - 1" and "- 1000000000 \<le> \<lceil>?x\<rceil>" by linarith+
    moreover have "i div 1000000000 = - 1" if "i \<le> - 1" and "- 1000000000 \<le> i" for i :: int
      using that by simp
    ultimately show ?thesis by blast
  qed
  ultimately show ?thesis by (simp add: epoch_time_def time_Unix_def Let_def)
qed

theorem fractional_time_is_too_early_witness:
  "unix_seconds (epoch_time (\<lambda>_. 0) (15 / 10)) = 0"
  using fractional_time_is_too_early [of "15 / 10" "\<lambda>_. 0"] by simp

end
