(* ===== verification/LogPipeline.thy ===== *)
theory LogPipeline
  imports Logs LogTime MetricBus Elasticsearch
begin

text \<open>
  From a transport's log messages to the records in Elasticsearch: the logs handler, the event bus
  and the Elasticsearch application put together.
\<close>

section \<open>Events\<close>

fun events_of :: "published list \<Rightarrow> event list" where
  "events_of [] = []"
| "events_of (Publish_Metric m # outs) = events_of outs"
| "events_of (Publish_Event e # outs) = e # events_of outs"

lemma events_of_append [simp]: "events_of (as @ bs) = events_of as @ events_of bs"
  by (induction as rule: events_of.induct) simp_all

lemma events_of_map [simp]: "events_of (map Publish_Event es) = es"
  by (induction es) simp_all

section \<open>A log with an ISO time stamp\<close>

text \<open>What a log says: its message, the host, and the stamp with its zone.\<close>

record log_info =
  liMessage :: string
  liHost :: string
  liStamp :: stamp
  liZone :: stamp_zone

text \<open>The fields of a log record say this, with a stamp that the handler reads.\<close>

definition log_says :: "log_config \<Rightarrow> log_fields \<Rightarrow> log_info \<Rightarrow> bool" where
  "log_says cf fs i \<longleftrightarrow>
     lookup_string fs (MessageField cf) = Some (liMessage i)
     \<and> lookup_string fs (HostnameField cf) = Some (liHost i)
     \<and> lookup_string fs (TimestampField cf) = Some (iso_text CHR ''T'' (liStamp i) (liZone i))
     \<and> stamp_ok (liStamp i) \<and> zone_ok (liZone i)
     \<and> (liZone i = No_Zone \<longrightarrow> length (stFrac (liStamp i)) = 6)"

text \<open>The index of a log, from the digits of its stamp, and its second.\<close>

definition stamp_index :: "string \<Rightarrow> log_info \<Rightarrow> string" where
  "stamp_index prefix i =
     prefix @ ''-'' @ replace_all ''-'' ''_'' (liHost i) @ ''.'' @ itoa (int (stYear (liStamp i))) @ ''.''
     @ itoa_pad2 (int (stMonth (liStamp i))) @ ''.'' @ itoa_pad2 (int (stDay (liStamp i)))"

definition info_seconds :: "log_info \<Rightarrow> int" where
  "info_seconds i = stamp_seconds (liStamp i) - zone_seconds (liZone i)"

text \<open>The event of a log, up to its severity and labels.\<close>

definition event_says :: "log_config \<Rightarrow> event \<Rightarrow> log_info \<Rightarrow> bool" where
  "event_says cf e i \<longleftrightarrow>
     eType e = LOG \<and> eMessage e = liMessage i \<and> ePublisher e = liHost i
     \<and> eTime e = f64_of_int (info_seconds i) \<and> eIndex e = stamp_index (IndexPrefix cf) i"

lemma TimeFromFormat_info:
  assumes "log_says cf fs i"
  shows "TimeFromFormat time_Parse (iso_text CHR ''T'' (liStamp i) (liZone i)) =
    Inr \<lparr>unix_seconds = info_seconds i, nanoseconds = frac_nanos (stFrac (liStamp i)),
         zone_offset = zone_seconds (liZone i)\<rparr>"
  using assms log_time_of_stamp [of "liStamp i" "liZone i"]
  by (auto simp: log_says_def info_seconds_def)

lemma log_event_says:
  assumes "json b = Inr fs" and "log_says (lhConfig l) fs i"
    and "log_Handle json time_Parse l b r = Inr (l', outs, err)"
  shows "\<exists>e. outs = [Publish_Event e] \<and> event_says (lhConfig l) e i \<and> lhConfig l' = lhConfig l"
proof -
  let ?cf = "lhConfig l"
  let ?g = "\<lparr>unix_seconds = info_seconds i, nanoseconds = frac_nanos (stFrac (liStamp i)),
             zone_offset = zone_seconds (liZone i)\<rparr>"
  have c: "complete_log time_Parse ?cf fs = Some (liMessage i, liHost i, ?g)"
    using assms(2) TimeFromFormat_info [OF assms(2)] by (simp add: complete_log_def log_says_def)
  from parse_log_complete [where json = json and b = b, OF assms(1) c] assms(3) obtain sev where
    "outs = [Publish_Event (log_event ?cf fs (liMessage i, liHost i, ?g) sev)]" "lhConfig l' = ?cf"
    by (cases "go_bind (GetSeverityFromLog fs ?cf) ToEventSeverity") (auto simp: log_Handle_eq)
  moreover have "Date ?g = (int (stYear (liStamp i)), int (stMonth (liStamp i)), int (stDay (liStamp i)))"
    using assms(2) by (intro Date_of_stamp) (simp_all add: log_says_def info_seconds_def)
  ultimately show ?thesis
    by (auto simp: event_says_def log_event_def log_index_def stamp_index_def)
qed

lemma log_events_say:
  assumes "handle_all (log_Handle json time_Parse) l bs r = Inr (l', outs)"
    and "list_all2 (\<lambda>b i. \<exists>fs. json b = Inr fs \<and> log_says (lhConfig l) fs i) bs infos"
  shows "list_all2 (event_says (lhConfig l)) (events_of outs) infos"
  using assms
proof (induction bs arbitrary: l outs infos)
  case Nil
  then show ?case by simp
next
  case (Cons b bs)
  then obtain i infos' where inf: "infos = i # infos'" by (auto simp: list_all2_Cons1)
  from Cons.prems(1) obtain l1 o1 err o2 where h: "log_Handle json time_Parse l b r = Inr (l1, o1, err)"
    and hs: "handle_all (log_Handle json time_Parse) l1 bs r = Inr (l', o2)" and o: "outs = o1 @ o2"
    by (rule handle_all_ConsE)
  from Cons.prems(2) inf obtain fs where "json b = Inr fs" "log_says (lhConfig l) fs i" by auto
  from log_event_says [where json = json and b = b, OF this h] obtain e where
    e: "o1 = [Publish_Event e]" "event_says (lhConfig l) e i" "lhConfig l1 = lhConfig l" by blast
  from Cons.IH [OF hs, of infos'] Cons.prems(2) inf e(3)
  have "list_all2 (event_says (lhConfig l)) (events_of o2) infos'" by simp
  with e o inf show ?case by simp
qed

section \<open>Records\<close>

text \<open>
  The time stamp that the application gives an event of a whole second: that second, which is
  small enough for a float in every date, or the current time if it is the second 0.
\<close>

definition second_text :: "(go_time \<Rightarrow> string) \<Rightarrow> (int \<Rightarrow> int) \<Rightarrow> go_time \<Rightarrow> int \<Rightarrow> string" where
  "second_text format local now s =
     (if s = 0 then format now
      else format \<lparr>unix_seconds = s, nanoseconds = 0, zone_offset = local s\<rparr>)"

lemma timeFromEpoch_second:
  assumes "\<bar>s\<bar> < 2 ^ 53"
  shows "timeFromEpoch format local now (f64_of_int s) = second_text format local now s"
proof -
  have f: "f64_of_int s = of_int s" using assms by (intro f64_of_int_exact) simp
  have "int64_of_f64 (of_int s) = s"
    using assms by (simp add: int64_of_f64_def wrap64_id is_int64_def abs_if split: if_splits)
  moreover have "int64_of_f64 0 = 0" by (simp add: int64_of_f64_def wrap64_id is_int64_def)
  ultimately show ?thesis
    unfolding f by (simp add: timeFromEpoch_def second_text_def epoch_time_def time_Unix_def f Let_def)
qed

lemma int_div_le_self:
  assumes "0 \<le> a" and "0 < (n :: int)"
  shows "a div n \<le> a"
proof -
  have "a div n \<le> a div 1" using assms by (intro zdiv_mono2) simp_all
  then show ?thesis by simp
qed

lemma days_of_date_bound:
  assumes "0 \<le> y" and "y < 10000" and "1 \<le> m" and "m \<le> 12" and "1 \<le> d" and "d < 100"
  shows "\<bar>days_of_date y m d\<bar> < 10000000"
proof -
  have q: "- 1 \<le> (y - 1) div n \<and> (y - 1) div n < 10000" if "0 < n" for n :: int
  proof -
    have "(- 1) div n \<le> (y - 1) div n" using assms(1) that by (intro zdiv_mono1) simp_all
    moreover have "(- 1) div n \<ge> - 1" using that by (simp add: div_eq_minus1)
    moreover have "(y - 1) div n \<le> 9999"
    proof (cases "y = 0")
      case True
      then show ?thesis using that by (simp add: div_eq_minus1)
    next
      case False
      then have "(y - 1) div n \<le> y - 1" using assms(1) that by (intro int_div_le_self) simp_all
      then show ?thesis using assms(2) by simp
    qed
    ultimately show ?thesis by simp
  qed
  have "\<bar>days_before_year y\<bar> < 5000000"
    using q [of 4] q [of 100] q [of 400] assms(1,2) unfolding days_before_year_def by simp
  moreover have "0 \<le> days_before_month m y \<and> days_before_month m y \<le> 366"
    using assms(3,4) by (cases rule: month_cases) (simp_all add: days_before_month_def)
  moreover have "days_before_year 1970 = 719162" by (simp add: days_before_year_def)
  ultimately show ?thesis using assms(5,6) unfolding days_of_date_def by linarith
qed

lemma info_seconds_bound:
  assumes "stamp_ok (liStamp i)" and "zone_ok (liZone i)"
  shows "\<bar>info_seconds i\<bar> < 2 ^ 53"
proof -
  let ?t = "liStamp i"
  have "\<bar>days_of_date (int (stYear ?t)) (int (stMonth ?t)) (int (stDay ?t))\<bar> < 10000000"
    using assms(1) stamp_day_bound [OF assms(1)] by (intro days_of_date_bound) (simp_all add: stamp_ok_def)
  moreover have "\<bar>zone_seconds (liZone i)\<bar> < 100000" using assms(2) by (cases "liZone i") auto
  moreover have "int (stHour ?t) < 24" "int (stMin ?t) < 60" "int (stSec ?t) < 60"
    using assms(1) by (simp_all add: stamp_ok_def)
  moreover have "(2 :: int) ^ 53 = 9007199254740992" by simp
  ultimately show ?thesis
    unfolding info_seconds_def stamp_seconds_def civil_seconds_def by linarith
qed

text \<open>The record of a log in its index: the time and the message, and some labels.\<close>

definition record_says ::
  "(es_log \<Rightarrow> string) \<Rightarrow> (int \<Rightarrow> string) \<Rightarrow> log_config \<Rightarrow> log_info \<Rightarrow> string \<times> string \<Rightarrow> bool" where
  "record_says enc second cf i rec \<longleftrightarrow>
     (\<exists>labels. rec = (stamp_index (IndexPrefix cf) i,
        enc \<lparr>Timestamp = second (info_seconds i), LogLabels = labels, LogMessage = liMessage i\<rparr>))"

lemma stored_record_says:
  assumes "event_says cf e i" and "stamp_ok (liStamp i)" and "zone_ok (liZone i)"
  shows "\<exists>rec. stored_records (es_format ro
           (formatLog (timeFromEpoch format local now) merge assimilate (\<lambda>lg. Inr (enc lg)))) [e] = {#rec#}
         \<and> record_says enc (second_text format local now) cf i rec"
proof -
  obtain s where "event_severity_String (eSeverity e) = Inr s"
    using severity_String_total [of "eSeverity e"] by blast
  with assms timeFromEpoch_second [OF info_seconds_bound [OF assms(2,3)]] show ?thesis
    by (auto simp: es_format_def formatLog_def event_says_def record_says_def Let_def)
qed

lemma stored_records_say:
  assumes "list_all2 (event_says cf) evs infos"
    and "list_all (\<lambda>i. stamp_ok (liStamp i) \<and> zone_ok (liZone i)) infos"
  shows "\<exists>recs. stored_records (es_format ro
           (formatLog (timeFromEpoch format local now) merge assimilate (\<lambda>lg. Inr (enc lg)))) evs = mset recs
         \<and> list_all2 (record_says enc (second_text format local now) cf) infos recs"
  using assms
proof (induction evs infos rule: list_all2_induct)
  case Nil
  then show ?case by simp
next
  case (Cons e evs i infos)
  let ?stored = "stored_records (es_format ro
     (formatLog (timeFromEpoch format local now) merge assimilate (\<lambda>lg. Inr (enc lg))))"
  from Cons obtain recs where recs: "?stored evs = mset recs"
    "list_all2 (record_says enc (second_text format local now) cf) infos recs" by auto
  from Cons.prems have "stamp_ok (liStamp i)" "zone_ok (liZone i)" by simp_all
  from stored_record_says [OF Cons.hyps(1) this] obtain rec where
    rec: "?stored [e] = {#rec#}" "record_says enc (second_text format local now) cf i rec" by blast
  have "?stored (e # evs) = ?stored [e] + ?stored evs"
    using stored_records_append [of _ "[e]" evs] by simp
  with recs rec show ?case by (intro exI [of _ "rec # recs"]) simp
qed

lemma stored_records_mset:
  "mset evs = mset evs' \<Longrightarrow> stored_records fmt evs = stored_records fmt evs'"
proof -
  have "stored_records fmt es = (\<Sum>e \<in># mset es. stored_records fmt [e])" for es
    by (induction es) simp_all
  then show "mset evs = mset evs' \<Longrightarrow> ?thesis" by metis
qed

section \<open>Properties\<close>

text \<open>
  C4: Logs whose stamps the handler reads, handled one after the other and carried by the bus in
  any order, lead to one record each, and nothing else does: the record of a log is for the index of
  its host and of the day that its stamp names, in the zone of the stamp, and has its message and the
  second it names, the current time if that is the epoch itself.  Each record is in one of five
  places: in a batch for which the client's \<open>Index\<close> returned no error, in one for which it did and
  which was dropped, in the channel, waiting to be sent, or buffered.
\<close>

theorem logs_reach_elasticsearch:
  assumes "handle_all (log_Handle json time_Parse) l bs r = Inr (l', outs)"
    and "list_all2 (\<lambda>b i. \<exists>fs. json b = Inr fs \<and> log_says (lhConfig l) fs i) bs infos"
    and "bus_reachable bl rfs [events_of outs] eb" and "bus_finished eb" and "j < length rfs"
    and "es_run (es_format ro (formatLog (timeFromEpoch format local now) merge assimilate (\<lambda>lg. Inr (enc lg))))
           (client_answers conn ecf) ecf (deliveries eb j) es"
  shows "\<exists>recs. records_of (indexed es) + records_of (disregarded es) + records_of (dump es)
           + records_of (sending es) + records_of (es_buffer es) = mset recs
         \<and> list_all2 (record_says enc (second_text format local now) (lhConfig l)) infos recs
         \<and> list_all (\<lambda>(index, rs). \<exists>ids w. fst (Index conn ids index rs (BulkIndex ecf) w) = None) (indexed es)
         \<and> list_all (\<lambda>(index, rs). \<exists>ids w. fst (Index conn ids index rs (BulkIndex ecf) w) \<noteq> None) (disregarded es)"
proof -
  have ok: "list_all (\<lambda>i. stamp_ok (liStamp i) \<and> zone_ok (liZone i)) infos"
    using assms(2) by (induction rule: list_all2_induct) (auto simp: log_says_def)
  have "mset (deliveries eb j) = mset (events_of outs)"
    using deliveries_all [OF assms(3-5)] by simp
  with es_run_conserves [OF assms(6)] stored_records_mset
    stored_records_say [OF log_events_say [OF assms(1,2)] ok, of ro format local now merge assimilate enc]
  obtain recs where "all_records es = mset recs"
    "list_all2 (record_says enc (second_text format local now) (lhConfig l)) infos recs" by metis
  moreover from es_run_answers [OF assms(6)] have
    "list_all (\<lambda>(index, rs). \<exists>ids w. fst (Index conn ids index rs (BulkIndex ecf) w) = None) (indexed es)"
    "list_all (\<lambda>(index, rs). \<exists>ids w. fst (Index conn ids index rs (BulkIndex ecf) w) \<noteq> None) (disregarded es)"
    by (fastforce simp: client_answers_def list_all_iff)+
  ultimately show ?thesis unfolding all_records_def by blast
qed

definition ex_log_info :: log_info where
  "ex_log_info = \<lparr>liMessage = ''disk full'', liHost = ''host-1'', liStamp = ex_stamp, liZone = Zulu\<rparr>"

definition ex_stamped_fields :: log_fields where
  "ex_stamped_fields =
     [(''m'', IString ''disk full''), (''t'', IString (iso_text CHR ''T'' ex_stamp Zulu)),
      (''h'', IString ''host-1''), (''s'', IString ''3'')]"

definition ex_record_format :: "event \<Rightarrow> string option go" where
  "ex_record_format = es_format (\<lambda>_. Inr (Inr []))
     (formatLog (timeFromEpoch (\<lambda>t. itoa (unix_seconds t mod 60)) (\<lambda>_. 0) \<lparr>unix_seconds = 0, nanoseconds = 0, zone_offset = 0\<rparr>)
        (\<lambda>a b. b) (\<lambda>_. []) (\<lambda>lg. Inr (Timestamp lg @ '' '' @ LogMessage lg)))"

lemma ex_log_says: "log_says ex_log_config ex_stamped_fields ex_log_info"
  using ex_stamp_ok(1)
  by (simp add: log_says_def ex_log_config_def ex_stamped_fields_def ex_log_info_def lookup_string_def)

lemma ex_log_handled:
  "\<exists>l' ev. handle_all (log_Handle (\<lambda>_. Inr ex_stamped_fields) time_Parse)
     (log_New\<lparr>lhConfig := ex_log_config\<rparr>) [''x''] True = Inr (l', [Publish_Event ev])"
proof -
  let ?json = "\<lambda>_. Inr ex_stamped_fields" and ?l = "log_New\<lparr>lhConfig := ex_log_config\<rparr>"
  have cf: "lhConfig ?l = ex_log_config" by (simp add: log_New_def)
  have c: "complete_log time_Parse ex_log_config ex_stamped_fields \<noteq> None"
    using TimeFromFormat_info [OF ex_log_says]
    by (simp add: complete_log_def ex_log_info_def ex_log_config_def ex_stamped_fields_def lookup_string_def)
  then obtain mht where c: "complete_log time_Parse ex_log_config ex_stamped_fields = Some mht" by blast
  have a: "atoi ''3'' = Some 3" by code_simp
  have "GetSeverityFromLog ex_stamped_fields ex_log_config = Inr 3"
    by (simp add: GetSeverityFromLog_def ex_stamped_fields_def ex_log_config_def lookup_string_def a)
  then have "parse_log ?json time_Parse (lhConfig ?l) ''x'' =
      Inr (Inr (log_event ex_log_config ex_stamped_fields mht CRITICAL))"
    unfolding cf parse_log_complete [where json = ?json and b = "''x''", OF refl c]
    by (simp add: ToEventSeverity_def slice_get_def)
  then show ?thesis by (simp add: log_Handle_eq)
qed

text \<open>A server that answers every request with 200.\<close>

definition ex_es_conn :: "unit es_conn" where
  "ex_es_conn r w = (Inr (StatusOK, [], None), w)"

theorem logs_reach_elasticsearch_witness:
  "\<exists>(eb :: (unit, event) bus) es.
     es_run ex_record_format (client_answers ex_es_conn default_es_config) default_es_config (deliveries eb 0) es
     \<and> length (deliveries eb 0) = 1
     \<and> records_of (sending es) = {#(''sglogs-host_1.2020.03.06'', ''30 disk full'')#}"
proof -
  obtain l' ev where h: "handle_all (log_Handle (\<lambda>_. Inr ex_stamped_fields) time_Parse)
      (log_New\<lparr>lhConfig := ex_log_config\<rparr>) [''x''] True = Inr (l', [Publish_Event ev])"
    using ex_log_handled by blast
  have cf: "lhConfig (log_New\<lparr>lhConfig := ex_log_config\<rparr>) = ex_log_config" by (simp add: log_New_def)
  have li: "list_all2 (\<lambda>b i. \<exists>fs. (\<lambda>_. Inr ex_stamped_fields) b = (Inr fs :: string + log_fields)
      \<and> log_says (lhConfig (log_New\<lparr>lhConfig := ex_log_config\<rparr>)) fs i) [''x''] [ex_log_info]"
    unfolding cf using ex_log_says by simp
  obtain eb :: "(unit, event) bus" where eb: "bus_reachable no_wait [()] [events_of [Publish_Event ev]] eb"
      "bus_finished eb" "deliveries eb 0 = [ev]"
    using deliveries_any [of "[ev]" "[[ev]]" 0 "[()]"] by auto
  have tot: "\<exists>es. es_ReceiveEvent ex_record_format ev (es_New default_es_config) = Inr es"
    using severity_String_total [of "eSeverity ev"]
    by (auto simp: es_ReceiveEvent_def ex_record_format_def es_format_def formatLog_def go_bind_eq_Inr_iff Let_def
        split: event_type.splits)
  then obtain es where es: "es_ReceiveEvent ex_record_format ev (es_New default_es_config) = Inr es" by blast
  then have others: "indexed es = []" "disregarded es = []" "dump es = []" "es_buffer es = []"
  proof -
    from es obtain res where "es = (case res of None \<Rightarrow> es_New default_es_config
        | Some r \<Rightarrow> es_store (eIndex ev) r (es_New default_es_config))"
      unfolding es_ReceiveEvent_def go_bind_eq_Inr_iff by blast
    then show "indexed es = []" "disregarded es = []" "dump es = []" "es_buffer es = []"
      by (cases res; simp add: es_store_def es_New_def default_es_config_def)+
  qed
  from es_run.receive [OF es_run.start es]
  have run: "es_run ex_record_format (client_answers ex_es_conn default_es_config) default_es_config
      (deliveries eb 0) es" by (simp add: eb(3))
  obtain recs where recs: "records_of (sending es) = mset recs"
    "list_all2 (record_says (\<lambda>lg. Timestamp lg @ '' '' @ LogMessage lg)
       (second_text (\<lambda>t. itoa (unix_seconds t mod 60)) (\<lambda>_. 0) \<lparr>unix_seconds = 0, nanoseconds = 0, zone_offset = 0\<rparr>)
       ex_log_config) [ex_log_info] recs"
    using logs_reach_elasticsearch [OF h li eb(1,2) _ run [unfolded ex_record_format_def]]
    unfolding cf others by auto
  have "replace_all ''-'' ''_'' ''host-1'' = ''host_1''" by code_simp
  moreover have "itoa 2020 = ''2020''" "itoa_pad2 3 = ''03''" "itoa_pad2 6 = ''06''" by code_simp+
  ultimately have "stamp_index (IndexPrefix ex_log_config) ex_log_info = ''sglogs-host_1.2020.03.06''"
    by (simp add: stamp_index_def ex_log_config_def ex_log_info_def ex_stamp_def)
  moreover have "itoa 30 = ''30''" by code_simp
  moreover have "info_seconds ex_log_info = 1583504010"
    using ex_stamp_ok(2) by (simp add: info_seconds_def ex_log_info_def)
  ultimately have "records_of (sending es) = {#(''sglogs-host_1.2020.03.06'', ''30 disk full'')#}"
    using recs by (auto simp: list_all2_Cons1 record_says_def second_text_def ex_log_info_def)
  with run eb(3) show ?thesis by (intro exI [of _ eb] exI [of _ es]) simp
qed

end
