(* ===== verification/Socket.thy ===== *)
theory Socket
  imports Handler
begin

text \<open>
  The socket transport (\<open>plugins/transport/socket/main.go\<close>): the length-prefixed framing of
  messages on a TCP stream, the receive loop with its reassembly of messages split across
  reads and its growing datagram buffer, and the configuration checks.  The bytes are the
  characters of a string; the header of a message is a little-endian \<open>int64\<close>.
\<close>

section \<open>Byte order\<close>

fun le_uint :: "blob \<Rightarrow> int" where
  "le_uint [] = 0"
| "le_uint (c # cs) = of_char c + 256 * le_uint cs"

definition le_int64 :: "blob \<Rightarrow> int64" where
  "le_int64 bs = wrap64 (le_uint bs)"

text \<open>The sender's side of the framing, which sg-core itself does not contain.\<close>

fun le_bytes :: "nat \<Rightarrow> nat \<Rightarrow> blob" where
  "le_bytes 0 n = []"
| "le_bytes (Suc k) n = char_of (n mod 256) # le_bytes k (n div 256)"

definition msgLengthSize :: int64 where
  "msgLengthSize = 8"

definition frame :: "blob \<Rightarrow> blob" where
  "frame m = le_bytes 8 (length m) @ m"

lemma length_le_bytes [simp]: "length (le_bytes k n) = k"
  by (induction k arbitrary: n) simp_all

lemma le_bytes_eq_Nil [simp]: "le_bytes k n = [] \<longleftrightarrow> k = 0"
  by (cases k) simp_all

lemma le_uint_le_bytes: "n < 256 ^ k \<Longrightarrow> le_uint (le_bytes k n) = int n"
proof (induction k arbitrary: n)
  case 0
  then show ?case by simp
next
  case (Suc k)
  then have "n div 256 < 256 ^ k" by (simp add: less_mult_imp_div_less mult.commute)
  with Suc.IH have "le_uint (le_bytes k (n div 256)) = int (n div 256)" by blast
  moreover have "(of_char (char_of n :: char) :: int) = int n mod 256"
    by (metis of_char_of of_nat_of_char zmod_int of_nat_numeral)
  ultimately show ?case by (simp add: zdiv_int)
qed

lemma le_int64_le_bytes: "n < 2 ^ 63 \<Longrightarrow> le_int64 (le_bytes 8 n) = int n"
  by (simp add: le_int64_def le_uint_le_bytes wrap64_id is_int64_def)

section \<open>Splitting a buffer into messages\<close>

text \<open>
  \<open>reader.Seek\<close> followed by \<open>binary.Read\<close> of an \<open>int64\<close> from the first \<open>n\<close> bytes: a negative
  position and a short read are errors.
\<close>

definition read_length :: "blob \<Rightarrow> int64 \<Rightarrow> string + int64" where
  "read_length reader pos =
     (if pos < 0 then Inl ''bytes.Reader.Seek: negative position''
      else let rest = drop (nat pos) reader
           in if rest = [] then Inl ''EOF''
              else if length rest < 8 then Inl ''unexpected EOF''
              else Inr (le_int64 (take 8 rest)))"

text \<open>
  The loop ends: after a message was cut out, the position is a valid \<open>int64\<close> and larger.
\<close>

lemma write_tcp_progress:
  assumes "0 \<le> pos" and "is_int64 pos" and "0 \<le> wrap64 (pos + 8)"
    and "wrap64 (pos + 8) \<le> wrap64 (wrap64 (pos + 8) + len)"
  shows "pos < wrap64 (pos + wrap64 (8 + len))"
proof -
  have "pos + 8 < 2 ^ 63"
  proof (rule ccontr)
    assume "\<not> pos + 8 < 2 ^ 63"
    with assms(2) have "wrap64 (pos + 8) = pos + 8 - 2 ^ 64"
      by (intro wrap64_overflow) (simp_all add: is_int64_def)
    with assms(2,3) show False by (simp add: is_int64_def)
  qed
  with assms(1) have "wrap64 (pos + 8) = pos + 8" by (intro wrap64_id) (simp add: is_int64_def)
  with assms(4) show ?thesis by (simp add: wrap64_add_wrap64 add.assoc)
qed

text \<open>
  The loop of \<open>WriteTCPMsg\<close>, with the messages handed to \<open>w\<close>, the position reached and the
  error.  All sums are \<open>int64\<close> sums.
\<close>

function write_tcp_loop ::
  "blob \<Rightarrow> int64 \<Rightarrow> int64 \<Rightarrow> (blob list \<times> int64 \<times> string option) go" where
  "write_tcp_loop buf n pos =
     (if wrap64 (pos + msgLengthSize) < n then
        case read_length (take (nat n) buf) pos of
          Inl err \<Rightarrow> Inr ([], pos, Some err)
        | Inr len \<Rightarrow>
            (if wrap64 (wrap64 (pos + msgLengthSize) + len) > n
                \<or> wrap64 (wrap64 (pos + msgLengthSize) + len) < 0
             then Inr ([], pos, None)
             else case slice_range buf (wrap64 (pos + msgLengthSize))
                         (wrap64 (wrap64 (pos + msgLengthSize) + len)) of
                    Inl p \<Rightarrow> Inl p
                  | Inr msg \<Rightarrow>
                      (case write_tcp_loop buf n (wrap64 (pos + wrap64 (msgLengthSize + len))) of
                         Inl p \<Rightarrow> Inl p
                       | Inr (msgs, pos', err) \<Rightarrow> Inr (msg # msgs, pos', err)))
      else Inr ([], pos, None))"
  by pat_completeness auto

termination
proof (relation "measures [\<lambda>(buf, n, pos). if is_int64 pos then 0 else 1,
                           \<lambda>(buf, n, pos). nat (2 ^ 63 - pos)]", goal_cases)
  case 1
  show ?case by simp
next
  case (2 buf n pos len msg)
  from 2(2) have "0 \<le> pos" by (auto simp: read_length_def split: if_splits)
  with 2 write_tcp_progress [of pos len] wrap64_range [of "pos + wrap64 (8 + len)"]
  show ?case by (auto simp: msgLengthSize_def slice_range_eq_Inr_iff is_int64_def)
qed

declare write_tcp_loop.simps [simp del]

definition WriteTCPMsg ::
  "blob \<Rightarrow> int64 \<Rightarrow> (blob list \<times> int64 \<times> string option) go" where
  "WriteTCPMsg msgBuffer n =
     go_bind (slice_range msgBuffer 0 n) (\<lambda>_. write_tcp_loop msgBuffer n 0)"

section \<open>What the splitting means\<close>

text \<open>
  The specification: as long as more than the eight header bytes are there and the message
  they announce is complete, it is cut off; the bytes that remain are kept.
\<close>

function parse_frames :: "blob \<Rightarrow> blob list \<times> blob" where
  "parse_frames bs =
     (if 8 < length bs \<and> 0 \<le> le_int64 (take 8 bs)
         \<and> 8 + nat (le_int64 (take 8 bs)) \<le> length bs
      then (let len = nat (le_int64 (take 8 bs)); (ms, r) = parse_frames (drop (8 + len) bs)
            in (take len (drop 8 bs) # ms, r))
      else ([], bs))"
  by pat_completeness auto
termination
  by (relation "measure length") auto

declare parse_frames.simps [simp del]

text \<open>No message header met while splitting \<open>bs\<close> announces a negative length.\<close>

function headers_ok :: "blob \<Rightarrow> bool" where
  "headers_ok bs \<longleftrightarrow>
     (8 < length bs \<longrightarrow>
        0 \<le> le_int64 (take 8 bs)
        \<and> (8 + nat (le_int64 (take 8 bs)) \<le> length bs \<longrightarrow>
             headers_ok (drop (8 + nat (le_int64 (take 8 bs))) bs)))"
  by pat_completeness auto
termination
  by (relation "measure length") auto

declare headers_ok.simps [simp del]

lemma headers_ok_short: "length bs \<le> 8 \<Longrightarrow> headers_ok bs"
  by (subst headers_ok.simps) simp

lemma parse_frames_short: "length bs \<le> 8 \<Longrightarrow> parse_frames bs = ([], bs)"
  by (subst parse_frames.simps) simp

lemma headers_ok_frame:
  "length m < 2 ^ 63 \<Longrightarrow> headers_ok rest \<Longrightarrow> headers_ok (frame m @ rest)"
  by (simp add: frame_def headers_ok.simps [of "le_bytes 8 (length m) @ m @ rest"] le_int64_le_bytes)

lemma le_int64_range: "is_int64 (le_int64 bs)"
  by (simp add: le_int64_def wrap64_range)

lemma read_length_at:
  "8 < length bs \<Longrightarrow>
     read_length (pre @ bs) (int (length pre)) = Inr (le_int64 (take 8 bs))"
  by (auto simp: read_length_def Let_def)

text \<open>
  The loop, started at a position inside the buffer, does what the specification does to
  the bytes from there on.
\<close>

lemma write_tcp_loop_refines:
  assumes "length (pre @ bs) < 2 ^ 62" and "headers_ok bs" and "parse_frames bs = (ms, r)"
  shows "write_tcp_loop (pre @ bs) (int (length (pre @ bs))) (int (length pre))
           = Inr (ms, int (length (pre @ bs)) - int (length r), None)"
  using assms
proof (induction bs arbitrary: pre ms r rule: parse_frames.induct)
  case (1 bs)
  let ?n = "int (length (pre @ bs))" and ?pos = "int (length pre)"
  let ?len = "le_int64 (take 8 bs)"
  have pos8: "wrap64 (?pos + msgLengthSize) = ?pos + 8"
    using "1.prems"(1) by (simp add: msgLengthSize_def wrap64_id is_int64_def)
  show ?case
  proof (cases "8 < length bs")
    case False
    with "1.prems"(3) have "ms = []" "r = bs" by (simp_all add: parse_frames.simps [of bs])
    with False pos8 show ?thesis by (simp add: write_tcp_loop.simps [of _ _ ?pos])
  next
    case long: True
    with "1.prems"(2) have len0: "0 \<le> ?len" by (simp add: headers_ok.simps [of bs])
    have rd: "read_length (take (nat ?n) (pre @ bs)) ?pos = Inr ?len"
      using read_length_at [OF long] by simp
    let ?hi = "wrap64 (wrap64 (?pos + msgLengthSize) + ?len)"
    show ?thesis
    proof (cases "8 + nat ?len \<le> length bs")
      case False
      have "?hi > ?n \<or> ?hi < 0"
      proof (cases "?pos + 8 + ?len < 2 ^ 63")
        case True
        then have "?hi = ?pos + 8 + ?len"
          unfolding pos8 using len0 by (intro wrap64_id) (simp add: is_int64_def)
        with False len0 show ?thesis by simp
      next
        case big: False
        then have "?hi = ?pos + 8 + ?len - 2 ^ 64"
          unfolding pos8 using "1.prems"(1) le_int64_range [of "take 8 bs"]
          by (intro wrap64_overflow) (simp_all add: is_int64_def)
        with "1.prems"(1) le_int64_range [of "take 8 bs"] show ?thesis
          by (simp add: is_int64_def)
      qed
      with long False pos8 rd "1.prems"(3) len0 show ?thesis
        by (auto simp: write_tcp_loop.simps [of _ _ ?pos] parse_frames.simps [of bs])
    next
      case True
      let ?m = "take (nat ?len) (drop 8 bs)"
      let ?bs' = "drop (8 + nat ?len) bs"
      have hi: "?hi = ?pos + 8 + ?len"
        unfolding pos8 using True "1.prems"(1) len0
        by (intro wrap64_id) (simp add: is_int64_def)
      have next_pos: "wrap64 (?pos + wrap64 (msgLengthSize + ?len)) = int (length (pre @ take (8 + nat ?len) bs))"
        using hi True len0 by (simp add: wrap64_add_wrap64 add.assoc msgLengthSize_def)
      obtain ms' r' where p': "parse_frames ?bs' = (ms', r')" by force
      have "headers_ok ?bs'"
        using "1.prems"(2) long True by (simp add: headers_ok.simps [of bs])
      with "1.IH" [of "nat ?len" "pre @ take (8 + nat ?len) bs" ms' r'] long True len0 p' "1.prems"(1)
      have IH: "write_tcp_loop (pre @ bs) ?n (int (length (pre @ take (8 + nat ?len) bs)))
              = Inr (ms', ?n - int (length r'), None)"
        by simp
      have sl: "slice_range (pre @ bs) (?pos + 8) (?pos + 8 + ?len) = Inr ?m"
        using True len0 by (simp add: slice_range_def nat_add_distrib)
      have "ms = ?m # ms'" "r = r'"
        using "1.prems"(3) long True len0 p' by (simp_all add: parse_frames.simps [of bs])
      moreover have "write_tcp_loop (pre @ bs) ?n ?pos = Inr (?m # ms', ?n - int (length r'), None)"
        using long True len0 rd pos8 hi sl IH next_pos
        by (simp add: write_tcp_loop.simps [of _ _ ?pos])
      ultimately show ?thesis by simp
    qed
  qed
qed

section \<open>Incremental splitting\<close>

text \<open>
  A splitter that takes the complete messages off the front of a buffer and returns the
  rest may be fed a stream in pieces, each appended to the rest of the last call, provided
  more input never changes what was already cut off.
\<close>

locale stream_splitter =
  fixes parse :: "'b list \<Rightarrow> 'm list \<times> 'b list"
  assumes parse_append:
    "parse xs = (ms, r) \<Longrightarrow> parse (xs @ ys) = (ms @ fst (parse (r @ ys)), snd (parse (r @ ys)))"
begin

text \<open>Nothing more comes off the rest, until more input is there.\<close>

lemma parse_rest: "parse xs = (ms, r) \<Longrightarrow> parse r = ([], r)"
  using parse_append [of xs ms r "[]"] by (cases "parse r") auto

text \<open>However the stream is cut into pieces, the messages are those of the whole.\<close>

lemma parse_piecewise:
  assumes "parse xs = (ms, r)" and "(ms', r') = parse (r @ ys)"
  shows "(ms @ ms', r') = parse (xs @ ys)"
  using parse_append [OF assms(1), of ys] assms(2) [symmetric] by simp

end

lemma parse_frames_append:
  assumes "parse_frames xs = (ms, r)"
  shows "parse_frames (xs @ ys)
           = (ms @ fst (parse_frames (r @ ys)), snd (parse_frames (r @ ys)))"
  using assms
proof (induction xs arbitrary: ms r rule: parse_frames.induct)
  case (1 xs)
  let ?len = "nat (le_int64 (take 8 xs))"
  show ?case
  proof (cases "8 < length xs \<and> 0 \<le> le_int64 (take 8 xs) \<and> 8 + ?len \<le> length xs")
    case False
    with "1.prems" show ?thesis
      by (simp add: parse_frames.simps [of xs] split: if_splits)
  next
    case True
    obtain ms' r' where p': "parse_frames (drop (8 + ?len) xs) = (ms', r')" by force
    with "1.prems" True have "ms = take ?len (drop 8 xs) # ms'" "r = r'"
      by (simp_all add: parse_frames.simps [of xs])
    with "1.IH" [OF True refl p'] True show ?thesis
      by (simp add: parse_frames.simps [of "xs @ ys"] split_beta)
  qed
qed

interpretation framing: stream_splitter parse_frames
  by unfold_locales (rule parse_frames_append)

text \<open>The specification undoes the sender's framing.\<close>

lemma frame_not_Nil [simp]: "frame m \<noteq> []"
  by (simp add: frame_def)

lemma parse_frames_frame:
  assumes "length m < 2 ^ 63" and "m @ rest \<noteq> []"
  shows "parse_frames (frame m @ rest) = (m # fst (parse_frames rest), snd (parse_frames rest))"
proof -
  have "0 < length (m @ rest)" using assms(2) length_greater_0_conv by blast
  then show ?thesis using assms(1)
    by (simp add: parse_frames.simps [of "le_bytes 8 (length m) @ m @ rest"] frame_def le_int64_le_bytes split_beta)
qed

lemma parse_frames_Nil [simp]: "parse_frames [] = ([], [])"
  by (simp add: parse_frames_short)

lemma parse_frames_frames:
  "(\<And>m. m \<in> set ms \<Longrightarrow> m \<noteq> [] \<and> length m < 2 ^ 63) \<Longrightarrow>
     parse_frames (concat (map frame ms)) = (ms, [])"
  by (induction ms) (simp_all add: parse_frames_frame)

lemma headers_ok_frames:
  "(\<And>m. m \<in> set ms \<Longrightarrow> m \<noteq> [] \<and> length m < 2 ^ 63) \<Longrightarrow> headers_ok (concat (map frame ms))"
  by (induction ms) (simp_all add: headers_ok_short headers_ok_frame)

lemma headers_ok_append:
  assumes "headers_ok (xs @ ys)"
  shows "headers_ok xs \<and> headers_ok (snd (parse_frames xs) @ ys)"
  using assms
proof (induction xs rule: parse_frames.induct)
  case (1 xs)
  let ?len = "nat (le_int64 (take 8 xs))"
  show ?case
  proof (cases "8 < length xs \<and> 0 \<le> le_int64 (take 8 xs) \<and> 8 + ?len \<le> length xs")
    case False
    with "1.prems" show ?thesis
      by (auto simp: parse_frames.simps [of xs] headers_ok.simps [of xs] headers_ok.simps [of "xs @ ys"])
  next
    case True
    with "1.prems" have "headers_ok (drop (8 + ?len) xs @ ys)"
      by (simp add: headers_ok.simps [of "xs @ ys"])
    from "1.IH" [OF True refl this] True show ?thesis
      by (simp add: parse_frames.simps [of xs] headers_ok.simps [of xs] split_beta Let_def)
  qed
qed

section \<open>The receive loop\<close>

record sock_conf =
  sPath :: string
  sType :: string
  sSocketaddr :: string
  sDumpEnabled :: bool
  sDumpPath :: string

definition maxBufferSize :: int64 where "maxBufferSize = 65535"
definition maxBufferSizeUnix :: int64 where "maxBufferSizeUnix = 10485760"
definition maxBufferSizeTCP :: int64 where "maxBufferSizeTCP = 104857600"

definition getMaxBufferSize :: "sock_conf \<Rightarrow> int64" where
  "getMaxBufferSize c =
     (if sType c = ''udp'' then maxBufferSize
      else if sType c = ''tcp'' then maxBufferSizeTCP
      else maxBufferSizeUnix)"

text \<open>
  The locals of \<open>ReceiveData\<close> that live across iterations and the global message counter.
  The buffer's contents do not matter between reads, its size does.
\<close>

record receiver =
  currentBuffSize :: int64
  remainingMsg :: blob
  msgCount :: int64

text \<open>
  The result of \<open>pc.Read\<close>: an error, or the bytes read.  They come from what has arrived, bytes of a
  stream or one datagram, and are at most as many as the buffer holds; the rest of a stream is there
  for the next read, the rest of a datagram is lost.
\<close>

datatype read_result = Read_Error string | Read_Bytes blob

datatype arrival = Broken string | Arrived blob

fun conn_Read :: "sock_conf \<Rightarrow> int64 \<Rightarrow> arrival \<Rightarrow> read_result \<times> blob" where
  "conn_Read c n (Broken e) = (Read_Error e, [])"
| "conn_Read c n (Arrived d) =
     (Read_Bytes (take (nat n) d), if sType c = ''tcp'' then drop (nat n) d else [])"

text \<open>The effects of an iteration, in order.\<close>

datatype sock_effect =
    Deliver blob      \<comment> \<open>the call of the transport's write function\<close>
  | Dump blob         \<comment> \<open>written to the dump file\<close>
  | Signal_Done       \<comment> \<open>\<open>done <- true\<close>\<close>

definition delivered :: "sock_effect list \<Rightarrow> blob list" where
  "delivered es = concat (map (\<lambda>e. case e of Deliver m \<Rightarrow> [m] | _ \<Rightarrow> []) es)"

lemma delivered_simps [simp]:
  "delivered [] = []"
  "delivered (Deliver m # es) = m # delivered es"
  "delivered (Dump d # es) = delivered es"
  "delivered (Signal_Done # es) = delivered es"
  "delivered (es @ es') = delivered es @ delivered es'"
  "delivered (map Deliver ms) = ms"
  by (simp_all add: delivered_def) (induction ms, simp_all)

text \<open>Growing the buffer of a datagram socket that filled it.\<close>

definition grow_buffer :: "sock_conf \<Rightarrow> int64 \<Rightarrow> int64" where
  "grow_buffer c cur =
     (if cur < getMaxBufferSize c
      then let newSize = wrap64 (cur * 2)
           in if newSize > getMaxBufferSize c then getMaxBufferSize c else newSize
      else cur)"

text \<open>
  One iteration of \<open>ReceiveData\<close> after its read: the new locals, the effects, and whether the
  loop goes on.  A read fills the buffer if it gives as many bytes as the buffer holds.
\<close>

definition receive_step ::
  "sock_conf \<Rightarrow> receiver \<Rightarrow> read_result \<Rightarrow> (receiver \<times> sock_effect list \<times> bool) go" where
  "receive_step c s rr =
     (case rr of
        Read_Error e \<Rightarrow> Inr (s, if sType c \<noteq> ''tcp'' then [Signal_Done] else [], False)
      | Read_Bytes d \<Rightarrow>
          if d = [] then Inr (s, if sType c \<noteq> ''tcp'' then [Signal_Done] else [], False)
          else
            let data = remainingMsg s @ d;
                s1 = (if int (length d) = currentBuffSize s \<and> sType c \<noteq> ''tcp''
                      then s\<lparr>currentBuffSize := grow_buffer c (currentBuffSize s)\<rparr> else s);
                dumps = (if sDumpEnabled c then [Dump data, Dump [CHR 0x0A]] else [])
            in if sType c = ''tcp'' then
                 go_bind (WriteTCPMsg data (int (length data))) (\<lambda>(msgs, parsed, err).
                   let s2 = s1\<lparr>msgCount := wrap64 (msgCount s1 + int (length msgs))\<rparr>
                   in case err of
                        Some e \<Rightarrow> Inr (s2, dumps @ map Deliver msgs, False)
                      | None \<Rightarrow>
                          go_bind (slice_range data parsed (int (length data))) (\<lambda>rest.
                            Inr (s2\<lparr>remainingMsg := rest\<rparr>, dumps @ map Deliver msgs, True)))
               else Inr (s1\<lparr>remainingMsg := [], msgCount := wrap64 (msgCount s1 + 1)\<rparr>,
                         dumps @ [Deliver data], True))"

text \<open>
  \<open>ReceiveData\<close> on what arrives, up to the end of the loop or of what arrives.  An iteration that
  goes on has read something, so that less is left.
\<close>

lemma receive_step_goes_on:
  "receive_step c s rr = Inr (s', es, True) \<Longrightarrow> \<exists>d. rr = Read_Bytes d \<and> d \<noteq> []"
  by (cases rr) (auto simp: receive_step_def split: if_splits)

definition arrival_size :: "arrival \<Rightarrow> nat" where
  "arrival_size a = (case a of Broken e \<Rightarrow> 0 | Arrived d \<Rightarrow> length d)"

function receive_data ::
  "sock_conf \<Rightarrow> receiver \<Rightarrow> arrival list \<Rightarrow> (receiver \<times> sock_effect list \<times> bool) go" where
  "receive_data c s [] = Inr (s, [], True)"
| "receive_data c s (a # arrivals) =
     (case receive_step c s (fst (conn_Read c (currentBuffSize s) a)) of
        Inl p \<Rightarrow> Inl p
      | Inr (s', es, go_on) \<Rightarrow>
          if go_on then
            (let rest = snd (conn_Read c (currentBuffSize s) a)
             in case receive_data c s' (if rest = [] then arrivals else Arrived rest # arrivals) of
                  Inl p \<Rightarrow> Inl p
                | Inr (s'', es', go_on') \<Rightarrow> Inr (s'', es @ es', go_on'))
          else Inr (s', es, False))"
  by pat_completeness auto

termination
proof (relation "measure (\<lambda>(c, s, arrivals). sum_list (map (\<lambda>a. Suc (2 * arrival_size a)) arrivals))", goal_cases)
  case 1
  show ?case by simp
next
  case (2 c s a arrivals r s' x es go_on rest)
  then have "receive_step c s (fst (conn_Read c (currentBuffSize s) a)) = Inr (s', es, True)" by simp
  from receive_step_goes_on [OF this] obtain d where "a = Arrived d" "take (nat (currentBuffSize s)) d \<noteq> []"
    by (cases a) auto
  with 2(5) show ?case by (auto simp: arrival_size_def)
qed

definition new_receiver :: receiver where
  "new_receiver = \<lparr>currentBuffSize = maxBufferSize, remainingMsg = [], msgCount = 0\<rparr>"

text \<open>\<open>rate\<close>: the messages since the last call, and the new \<open>lastVal\<close>.\<close>

definition rate :: "int64 \<Rightarrow> int64 \<Rightarrow> int64 \<times> int64" where
  "rate cnt lastVal = (wrap64 (cnt - lastVal), cnt)"

lemma WriteTCPMsg_refines:
  assumes "length bs < 2 ^ 62" and "headers_ok bs" and "parse_frames bs = (ms, r)"
  shows "WriteTCPMsg bs (int (length bs)) = Inr (ms, int (length bs) - int (length r), None)"
  using write_tcp_loop_refines [of "[]" bs ms r] assms
  by (simp add: WriteTCPMsg_def slice_range_def)

lemma parse_frames_suffix:
  "parse_frames bs = (ms, r) \<Longrightarrow> drop (length bs - length r) bs = r \<and> length r \<le> length bs"
proof (induction bs arbitrary: ms r rule: parse_frames.induct)
  case (1 bs)
  let ?len = "nat (le_int64 (take 8 bs))"
  show ?case
  proof (cases "8 < length bs \<and> 0 \<le> le_int64 (take 8 bs) \<and> 8 + ?len \<le> length bs")
    case False
    with "1.prems" show ?thesis by (auto simp: parse_frames.simps [of bs])
  next
    case True
    obtain ms' r' where p': "parse_frames (drop (8 + ?len) bs) = (ms', r')" by force
    with "1.prems" True have "r = r'" by (simp add: parse_frames.simps [of bs])
    with "1.IH" [OF True refl p'] True show ?thesis
      by (auto simp: le_diff_conv2 add.commute)
  qed
qed

lemma slice_range_suffix:
  assumes "drop (length d - k) d = r" and "k \<le> length d"
  shows "slice_range d (int (length d) - int k) (int (length d)) = Inr r"
proof -
  have i: "nat (int (length d) - int k) = length d - k" by simp
  have j: "nat (int (length d) - (int (length d) - int k)) = k" by simp
  have "length r = k" using assms by auto
  then have "take k r = r" by simp
  with assms show ?thesis unfolding slice_range_def i j by simp
qed

lemma receive_step_tcp:
  assumes "sType c = ''tcp''" and "d \<noteq> []" and "length (remainingMsg s @ d) < 2 ^ 62"
    and "headers_ok (remainingMsg s @ d)" and "parse_frames (remainingMsg s @ d) = (ms, r)"
  shows "\<exists>es. receive_step c s (Read_Bytes d) =
            Inr (s\<lparr>remainingMsg := r, msgCount := wrap64 (msgCount s + int (length ms))\<rparr>, es, True)
          \<and> delivered es = ms"
proof -
  let ?data = "remainingMsg s @ d"
  from parse_frames_suffix [OF assms(5)]
  have "slice_range ?data (int (length ?data) - int (length r)) (int (length ?data)) = Inr r"
    by (intro slice_range_suffix) simp_all
  with WriteTCPMsg_refines [OF assms(3-5)] assms(1,2) show ?thesis
    by (auto simp: receive_step_def Let_def)
qed

lemma receive_data_tcp_parse:
  assumes "sType c = ''tcp''" and "[] \<notin> set cs" and "0 < currentBuffSize s"
    and "length (remainingMsg s @ concat cs) < 2 ^ 62"
    and "headers_ok (remainingMsg s @ concat cs)" and "parse_frames (remainingMsg s) = ([], remainingMsg s)"
  shows "\<exists>s' es. receive_data c s (map Arrived cs) = Inr (s', es, True)
           \<and> (delivered es, remainingMsg s') = parse_frames (remainingMsg s @ concat cs)
           \<and> msgCount s' = (if cs = [] then msgCount s
                            else wrap64 (msgCount s + int (length (delivered es))))"
  using assms(2-)
proof (induction "length (concat cs)" arbitrary: s cs rule: less_induct)
  case less
  show ?case
  proof (cases cs)
    case Nil
    with less.prems(5) show ?thesis by simp
  next
    case (Cons d ds)
    let ?t = "take (nat (currentBuffSize s)) d" and ?u = "drop (nat (currentBuffSize s)) d"
    define cs2 where "cs2 = (if ?u = [] then ds else ?u # ds)"
    have t: "?t \<noteq> []" using less.prems(1,2) Cons by auto
    have cs: "concat cs = ?t @ concat cs2" by (simp add: Cons cs2_def)
    obtain ms r where p: "parse_frames (remainingMsg s @ ?t) = (ms, r)" by force
    let ?s1 = "s\<lparr>remainingMsg := r, msgCount := wrap64 (msgCount s + int (length ms))\<rparr>"
    have hok: "headers_ok (remainingMsg s @ ?t) \<and> headers_ok (r @ concat cs2)"
      using headers_ok_append [of "remainingMsg s @ ?t" "concat cs2"] less.prems(4) p
      by (simp add: cs del: append_take_drop_id)
    obtain es where es: "receive_step c s (Read_Bytes ?t) = Inr (?s1, es, True)" "delivered es = ms"
      using receive_step_tcp [OF assms(1) t _ _ p] less.prems(3) hok by (auto simp: cs)
    have "length r \<le> length (remainingMsg s @ ?t)" using parse_frames_suffix [OF p] by simp
    then have len: "length (r @ concat cs2) < 2 ^ 62" using less.prems(3) by (simp add: cs)
    have shorter: "length (concat cs2) < length (concat cs)" using t by (simp add: cs)
    have "[] \<notin> set cs2" using less.prems(1) Cons by (auto simp: cs2_def)
    with less.hyps [OF shorter, of ?s1] less.prems(2) len hok framing.parse_rest [OF p] obtain s' es'
      where r: "receive_data c ?s1 (map Arrived cs2) = Inr (s', es', True)"
        and f: "(delivered es', remainingMsg s') = parse_frames (r @ concat cs2)"
        and n: "msgCount s' = (if cs2 = [] then msgCount ?s1
                               else wrap64 (msgCount ?s1 + int (length (delivered es'))))"
      by auto
    have "receive_data c s (map Arrived cs) = Inr (s', es @ es', True)"
      using r es assms(1) by (simp add: Cons cs2_def split: if_splits)
    moreover have "(delivered (es @ es'), remainingMsg s') = parse_frames (remainingMsg s @ concat cs)"
      using framing.parse_piecewise [OF p f] es(2) by (simp add: cs)
    moreover have "delivered es' = []" if "cs2 = []" using f framing.parse_rest [OF p] that by simp
    then have "msgCount s' = wrap64 (msgCount s + int (length (delivered (es @ es'))))"
      using n es(2) by (auto simp: wrap64_add_wrap64 add.assoc)
    ultimately show ?thesis using Cons by auto
  qed
qed

lemma receive_data_tcp:
  assumes "sType c = ''tcp''" and "[] \<notin> set cs"
    and "length (concat cs) < 2 ^ 62" and "headers_ok (concat cs)"
  shows "\<exists>s' es. receive_data c new_receiver (map Arrived cs) = Inr (s', es, True)
           \<and> delivered es = fst (parse_frames (concat cs))
           \<and> remainingMsg s' = snd (parse_frames (concat cs))
           \<and> msgCount s' = wrap64 (int (length (delivered es)))"
proof -
  obtain s' es where r: "receive_data c new_receiver (map Arrived cs) = Inr (s', es, True)"
    and f: "(delivered es, remainingMsg s') = parse_frames (concat cs)"
    and n: "msgCount s' = (if cs = [] then 0 else wrap64 (int (length (delivered es))))"
    using receive_data_tcp_parse [OF assms(1,2), of new_receiver] assms(3,4)
    by (auto simp: new_receiver_def maxBufferSize_def parse_frames_short)
  then show ?thesis by (cases "cs = []") (auto simp: prod_eq_iff wrap64_def parse_frames_short)
qed

text \<open>The bytes of one header that announces a negative length no larger than the header.\<close>

lemma WriteTCPMsg_negative:
  assumes "8 < length bs" and "length bs < 2 ^ 62"
    and "- 8 \<le> le_int64 (take 8 bs)" and "le_int64 (take 8 bs) < 0"
  shows "WriteTCPMsg bs (int (length bs)) = Inl Slice_Bounds_Out_Of_Range"
proof -
  have "wrap64 (8 + le_int64 (take 8 bs)) = 8 + le_int64 (take 8 bs)"
    using assms(3,4) by (intro wrap64_id) (simp add: is_int64_def)
  moreover have "wrap64 8 = 8" by (simp add: wrap64_def)
  moreover have "read_length bs 0 = Inr (le_int64 (take 8 bs))"
    using read_length_at [of bs "[]"] assms(1) by simp
  ultimately show ?thesis using assms
    by (simp add: WriteTCPMsg_def write_tcp_loop.simps [of _ _ 0] msgLengthSize_def
        slice_range_def)
qed

lemma grow_buffer_bounds:
  assumes "0 < cur" and "cur \<le> getMaxBufferSize c"
  shows "cur \<le> grow_buffer c cur \<and> grow_buffer c cur \<le> getMaxBufferSize c"
proof -
  have "getMaxBufferSize c \<le> 104857600"
    by (simp add: getMaxBufferSize_def maxBufferSize_def maxBufferSizeTCP_def maxBufferSizeUnix_def)
  with assms have "wrap64 (cur * 2) = cur * 2" by (intro wrap64_id) (simp add: is_int64_def)
  with assms show ?thesis by (simp add: grow_buffer_def Let_def)
qed

text \<open>
  The sizes of the buffer of a datagram socket: a datagram that fills it makes it twice as large for
  the next one, up to a limit.
\<close>

primrec buffer_sizes :: "nat \<Rightarrow> nat \<Rightarrow> blob list \<Rightarrow> nat list" where
  "buffer_sizes limit n [] = [n]"
| "buffer_sizes limit n (d # ds) =
     n # buffer_sizes limit (if n \<le> length d then min (2 * n) limit else n) ds"

lemma length_buffer_sizes [simp]: "length (buffer_sizes limit n ds) = Suc (length ds)"
  by (induction ds arbitrary: n) simp_all

lemma buffer_sizes_between:
  "n \<le> limit \<Longrightarrow> list_all (\<lambda>k. n \<le> k \<and> k \<le> limit) (buffer_sizes limit n ds)"
proof (induction ds arbitrary: n)
  case (Cons d ds)
  define n' where "n' = (if n \<le> length d then min (2 * n) limit else n)"
  have n': "n \<le> n'" "n' \<le> limit" using Cons.prems by (simp_all add: n'_def)
  have "list_all (\<lambda>k. n \<le> k \<and> k \<le> limit) (buffer_sizes limit n' ds)"
    using Cons.IH [OF n'(2)] n'(1) by (auto simp: list_all_iff)
  with Cons.prems show ?case by (simp add: n'_def)
qed simp

text \<open>What is cut to sizes of at least \<open>n\<close> keeps everything up to \<open>n\<close> whole.\<close>

lemma map2_take_whole:
  assumes "list_all ((\<le>) n) ks" and "length ds \<le> length ks"
  shows "list_all2 (\<lambda>d m. m = take (length m) d \<and> (length d \<le> n \<longrightarrow> m = d)) ds (map2 take ks ds)"
  using assms
proof (induction ds arbitrary: ks)
  case (Cons d ds)
  then show ?case by (cases ks) (auto simp: min_def)
qed simp

lemma grow_buffer_eq:
  assumes "0 < n" and "n \<le> nat (getMaxBufferSize c)"
  shows "grow_buffer c (int n) = int (min (2 * n) (nat (getMaxBufferSize c)))"
proof -
  have m: "0 < getMaxBufferSize c" "getMaxBufferSize c \<le> 104857600"
    by (simp_all add: getMaxBufferSize_def maxBufferSize_def maxBufferSizeTCP_def maxBufferSizeUnix_def)
  with assms have "wrap64 (int n * 2) = int n * 2" by (intro wrap64_id) (simp add: is_int64_def)
  with assms m show ?thesis by (auto simp: grow_buffer_def Let_def)
qed

lemma receive_step_datagram:
  assumes "sType c \<noteq> ''tcp''" and "remainingMsg s = []" and "d \<noteq> []" and "currentBuffSize s = int n"
    and "0 < n" and "n \<le> nat (getMaxBufferSize c)"
  shows "\<exists>es. receive_step c s (Read_Bytes (take n d)) =
           Inr (s\<lparr>currentBuffSize := int (if n \<le> length d then min (2 * n) (nat (getMaxBufferSize c)) else n),
                  msgCount := wrap64 (msgCount s + 1)\<rparr>, es, True)
         \<and> delivered es = [take n d]"
  using assms grow_buffer_eq [OF assms(5,6)] by (auto simp: receive_step_def Let_def)

lemma receive_data_datagram:
  assumes "sType c \<noteq> ''tcp''" and "remainingMsg s = []" and "[] \<notin> set ds" and "currentBuffSize s = int n"
    and "0 < n" and "n \<le> nat (getMaxBufferSize c)"
  shows "\<exists>s' es. receive_data c s (map Arrived ds) = Inr (s', es, True) \<and> remainingMsg s' = []
           \<and> delivered es = map2 take (buffer_sizes (nat (getMaxBufferSize c)) n ds) ds
           \<and> currentBuffSize s' = int (last (buffer_sizes (nat (getMaxBufferSize c)) n ds))"
  using assms(2-)
proof (induction ds arbitrary: s n)
  case Nil
  then show ?case by simp
next
  case (Cons d ds)
  let ?n = "if n \<le> length d then min (2 * n) (nat (getMaxBufferSize c)) else n"
  let ?s1 = "s\<lparr>currentBuffSize := int ?n, msgCount := wrap64 (msgCount s + 1)\<rparr>"
  have "d \<noteq> []" using Cons.prems(2) by auto
  from receive_step_datagram [OF assms(1) Cons.prems(1) this Cons.prems(3-5)] obtain es
    where es: "receive_step c s (Read_Bytes (take n d)) = Inr (?s1, es, True)" "delivered es = [take n d]"
    by blast
  have "0 < ?n" "?n \<le> nat (getMaxBufferSize c)" using Cons.prems(4,5) by auto
  with Cons.IH [of ?s1 ?n] Cons.prems(1,2) obtain s' es'
    where "receive_data c ?s1 (map Arrived ds) = Inr (s', es', True)" "remainingMsg s' = []"
      "delivered es' = map2 take (buffer_sizes (nat (getMaxBufferSize c)) ?n ds) ds"
      "currentBuffSize s' = int (last (buffer_sizes (nat (getMaxBufferSize c)) ?n ds))"
    by auto
  moreover have "buffer_sizes (nat (getMaxBufferSize c)) ?n ds \<noteq> []"
    by (metis length_buffer_sizes length_0_conv nat.distinct(1))
  ultimately show ?case using es assms(1) Cons.prems(3) by simp
qed

text \<open>Framed messages come out again, however the stream is cut.\<close>

lemma receive_data_frames:
  assumes "sType c = ''tcp''" and "[] \<notin> set ms"
    and "length (concat (map frame ms)) < 2 ^ 62"
    and "concat cs = concat (map frame ms)" and "[] \<notin> set cs"
  shows "\<exists>s' es. receive_data c new_receiver (map Arrived cs) = Inr (s', es, True)
           \<and> delivered es = ms \<and> remainingMsg s' = [] \<and> msgCount s' = int (length ms)"
proof -
  have len: "m \<noteq> [] \<and> length m < 2 ^ 63" if "m \<in> set ms" for m
  proof -
    have "length m \<le> length (concat (map frame ms))"
      using that by (induction ms) (auto simp: frame_def)
    with assms(2,3) that show ?thesis by auto
  qed
  have "length ms \<le> length (concat (map frame ms))"
    by (induction ms) (simp_all add: frame_def)
  then have "wrap64 (int (length ms)) = int (length ms)"
    using assms(3) by (intro wrap64_id) (simp add: is_int64_def)
  moreover have "headers_ok (concat cs)" using headers_ok_frames [OF len] assms(4) by simp
  moreover have "parse_frames (concat cs) = (ms, [])" using parse_frames_frames [OF len] assms(4) by simp
  ultimately show ?thesis using receive_data_tcp [OF assms(1,5)] assms(3,4) by fastforce
qed

section \<open>Configuration\<close>

text \<open>
  \<open>Config\<close>: \<open>parse\<close> stands for \<open>config.ParseConfig\<close> on the YAML blob (it overwrites the
  defaults it is given), \<open>open_file\<close> for \<open>os.OpenFile\<close> on the dump path, \<open>Some\<close> of an error
  when it fails.
\<close>

definition default_sock_conf :: sock_conf where
  "default_sock_conf =
     \<lparr>sPath = [], sType = ''unix'', sSocketaddr = [], sDumpEnabled = False,
      sDumpPath = ''/dev/stdout''\<rparr>"

definition socket_Config ::
  "(blob \<Rightarrow> sock_conf \<Rightarrow> string + sock_conf) \<Rightarrow> (string \<Rightarrow> string option) \<Rightarrow> blob
     \<Rightarrow> string + sock_conf" where
  "socket_Config parse open_file blob =
     (case parse blob default_sock_conf of
        Inl err \<Rightarrow> Inl err
      | Inr c0 \<Rightarrow>
          (case (if sDumpEnabled c0 then open_file (sDumpPath c0) else None) of
             Some err \<Rightarrow> Inl err
           | None \<Rightarrow>
               let c = c0\<lparr>sType := to_lower (sType c0)\<rparr>
               in if sType c \<noteq> ''unix'' \<and> sType c \<noteq> ''udp'' \<and> sType c \<noteq> ''tcp'' then
                    Inl (''unable to determine socket type from configuration file. Should be one of \"unix\", \"udp\" or \"tcp\", received: '' @ sType c)
                  else if sType c = ''unix'' \<and> sPath c = [] then
                    Inl ''the path configuration option is required when using unix socket type''
                  else if (sType c = ''udp'' \<or> sType c = ''tcp'') \<and> sSocketaddr c = [] then
                    Inl ''the socketaddr configuration option is required when using udp or tcp socket type''
                  else Inr c))"

section \<open>Properties\<close>

text \<open>
  C5: A TCP sender that frames non-empty messages has each of them delivered exactly once,
  whole and in order, however the network cuts the stream into reads; afterwards no bytes
  are left over and the message counter has counted them.
\<close>

theorem tcp_reassembly:
  assumes "sType c = ''tcp''" and "[] \<notin> set ms"
    and "length (concat (map frame ms)) < 2 ^ 62"
    and "concat cs = concat (map frame ms)" and "[] \<notin> set cs"
  shows "\<exists>s' es. receive_data c new_receiver (map Arrived cs) = Inr (s', es, True)
           \<and> delivered es = ms \<and> remainingMsg s' = [] \<and> msgCount s' = int (length ms)"
  using receive_data_frames [OF assms] .

theorem tcp_reassembly_witness:
  "\<exists>s' es. receive_data (default_sock_conf\<lparr>sType := ''tcp''\<rparr>) new_receiver
        (map Arrived [take 3 (frame ''abc''), drop 3 (frame ''abc'') @ take 9 (frame ''xy''), ''y''])
      = Inr (s', es, True)
     \<and> delivered es = [''abc'', ''xy''] \<and> remainingMsg s' = [] \<and> msgCount s' = int (length [''abc'', ''xy''])"
  by (rule tcp_reassembly) (simp, simp, simp add: frame_def, code_simp, code_simp)

text \<open>
  What a TCP connection delivers, and what it keeps for the next read, depends on the
  bytes received and not on where the reads end.
\<close>

theorem tcp_chunking_irrelevant:
  assumes "sType c = ''tcp''" and "[] \<notin> set cs" and "[] \<notin> set ds"
    and "concat cs = concat ds" and "length (concat cs) < 2 ^ 62" and "headers_ok (concat cs)"
  shows "\<exists>s es t es'. receive_data c new_receiver (map Arrived cs) = Inr (s, es, True)
           \<and> receive_data c new_receiver (map Arrived ds) = Inr (t, es', True)
           \<and> delivered es = delivered es' \<and> remainingMsg s = remainingMsg t
           \<and> msgCount s = msgCount t"
  using receive_data_tcp [OF assms(1,2)] receive_data_tcp [OF assms(1,3)] assms(4-6) by fastforce

theorem tcp_chunking_irrelevant_witness:
  "\<exists>s es t es'. receive_data (default_sock_conf\<lparr>sType := ''tcp''\<rparr>) new_receiver
        (map Arrived [frame ''ab'', ''x'']) = Inr (s, es, True)
     \<and> receive_data (default_sock_conf\<lparr>sType := ''tcp''\<rparr>) new_receiver
        (map Arrived [take 4 (frame ''ab''), drop 4 (frame ''ab'') @ ''x'']) = Inr (t, es', True)
     \<and> delivered es = delivered es' \<and> remainingMsg s = remainingMsg t \<and> msgCount s = msgCount t"
  by (rule tcp_chunking_irrelevant)
     (simp, code_simp, code_simp, code_simp, simp add: frame_def,
      simp add: headers_ok_frame headers_ok_short)

text \<open>
  C20: A TCP peer can end the process: a header announcing a length between -8 and -1 passes
  both bounds tests and the slice expression after them panics.
\<close>

theorem tcp_negative_length_panics:
  assumes "sType c = ''tcp''" and "remainingMsg s = []"
    and "8 < length d" and "length d < 2 ^ 62"
    and "- 8 \<le> le_int64 (take 8 d)" and "le_int64 (take 8 d) < 0"
  shows "receive_step c s (Read_Bytes d) = Inl Slice_Bounds_Out_Of_Range"
proof -
  have "d \<noteq> []" using assms(3) by auto
  with WriteTCPMsg_negative [OF assms(3-6)] assms(1,2) show ?thesis
    by (simp add: receive_step_def Let_def)
qed

theorem tcp_negative_length_panics_witness:
  "receive_step (default_sock_conf\<lparr>sType := ''tcp''\<rparr>) new_receiver
     (Read_Bytes (replicate 8 (CHR 0xFF) @ ''x'')) = Inl Slice_Bounds_Out_Of_Range"
  by (rule tcp_negative_length_panics)
     (simp, simp add: new_receiver_def, simp, simp, code_simp, code_simp)

text \<open>
  An empty message at the end of the buffer is not delivered: its header stays in the
  buffer until at least one more byte arrives.
\<close>

theorem tcp_empty_message_withheld:
  assumes "sType c = ''tcp''" and "[] \<notin> set ms" and "length (concat (map frame ms)) < 2 ^ 61"
  shows "\<exists>s' es. receive_data c new_receiver [Arrived (concat (map frame ms) @ frame [])]
            = Inr (s', es, True)
          \<and> delivered es = ms \<and> remainingMsg s' = frame []"
proof -
  have tail: "parse_frames (frame []) = ([], frame [])" "headers_ok (frame [])"
    by (simp_all add: parse_frames_short headers_ok_short frame_def)
  have "m \<noteq> [] \<and> length m < 2 ^ 63" if "m \<in> set ms" for m
  proof -
    have "length m \<le> length (concat (map frame ms))"
      using that by (induction ms) (auto simp: frame_def)
    with assms(2,3) that show ?thesis by auto
  qed
  with tail have "parse_frames (concat (map frame ms) @ frame []) = (ms, frame [])
       \<and> headers_ok (concat (map frame ms) @ frame [])"
    by (induction ms) (simp_all add: parse_frames_frame headers_ok_frame)
  moreover have "[] \<notin> set [concat (map frame ms) @ frame []]" by simp
  moreover have "length (concat [concat (map frame ms) @ frame []]) < 2 ^ 62"
    using assms(3) by (simp add: frame_def del: length_concat)
  ultimately show ?thesis
    using receive_data_tcp [OF assms(1), of "[concat (map frame ms) @ frame []]"]
    by (simp del: receive_data.simps) blast
qed

theorem tcp_empty_message_withheld_witness:
  "\<exists>s' es. receive_data (default_sock_conf\<lparr>sType := ''tcp''\<rparr>) new_receiver
        [Arrived (concat (map frame [''a'']) @ frame [])] = Inr (s', es, True)
     \<and> delivered es = [''a''] \<and> remainingMsg s' = frame []"
  by (rule tcp_empty_message_withheld) (simp_all add: frame_def)

text \<open>
  C21: On a datagram socket (UDP or Unix) every datagram is one message, delivered in order and cut
  to the size that the read buffer has at that time: 65535 bytes at first, twice as many (up to the
  limit of the type) after each datagram that filled it.  So a datagram of at most 65535 bytes is
  delivered unchanged, a longer one only if datagrams that filled the buffer came before it.
\<close>

theorem datagrams_cut_to_buffer:
  assumes "sType c \<noteq> ''tcp''" and "[] \<notin> set ds"
  shows "\<exists>s' es. receive_data c new_receiver (map Arrived ds) = Inr (s', es, True) \<and> remainingMsg s' = []
           \<and> delivered es = map2 take (buffer_sizes (nat (getMaxBufferSize c)) 65535 ds) ds
           \<and> list_all2 (\<lambda>d m. m = take (length m) d \<and> (length d \<le> 65535 \<longrightarrow> m = d)) ds (delivered es)
           \<and> currentBuffSize s' = int (last (buffer_sizes (nat (getMaxBufferSize c)) 65535 ds))
           \<and> maxBufferSize \<le> currentBuffSize s' \<and> currentBuffSize s' \<le> getMaxBufferSize c"
proof -
  let ?sizes = "buffer_sizes (nat (getMaxBufferSize c)) 65535 ds"
  have m: "65535 \<le> nat (getMaxBufferSize c)" "0 < getMaxBufferSize c"
    by (simp_all add: getMaxBufferSize_def maxBufferSize_def maxBufferSizeTCP_def maxBufferSizeUnix_def)
  obtain s' es where r: "receive_data c new_receiver (map Arrived ds) = Inr (s', es, True)"
    "remainingMsg s' = []" "delivered es = map2 take ?sizes ds" "currentBuffSize s' = int (last ?sizes)"
    using receive_data_datagram [OF assms(1), of new_receiver ds 65535] assms(2) m(1)
    by (auto simp: new_receiver_def maxBufferSize_def)
  have b: "list_all (\<lambda>k. 65535 \<le> k \<and> k \<le> nat (getMaxBufferSize c)) ?sizes"
    using m(1) by (rule buffer_sizes_between)
  then have "list_all ((\<le>) 65535) ?sizes" by (simp add: list_all_iff)
  then have "list_all2 (\<lambda>d m. m = take (length m) d \<and> (length d \<le> 65535 \<longrightarrow> m = d)) ds (map2 take ?sizes ds)"
    by (rule map2_take_whole) simp
  moreover have "last ?sizes \<in> set ?sizes" by (metis last_in_set length_buffer_sizes length_0_conv nat.distinct(1))
  then have "65535 \<le> last ?sizes \<and> last ?sizes \<le> nat (getMaxBufferSize c)" using b by (simp add: list_all_iff)
  ultimately show ?thesis using r m(2) by (auto simp: maxBufferSize_def)
qed

text \<open>The same Unix datagram of 131089 bytes three times: it takes two of them until one gets through.\<close>

theorem datagrams_cut_to_buffer_witness:
  "\<exists>s' es. receive_data default_sock_conf new_receiver (map Arrived (replicate 3 (replicate 131089 CHR ''x'')))
       = Inr (s', es, True)
     \<and> delivered es = [replicate 65535 CHR ''x'', replicate 131070 CHR ''x'', replicate 131089 CHR ''x'']
     \<and> currentBuffSize s' = 262140"
proof -
  let ?d = "replicate 131089 CHR ''x''"
  have "buffer_sizes (nat (getMaxBufferSize default_sock_conf)) 65535 (replicate 3 ?d)
      = [65535, 131070, 262140, 262140]"
    by (simp add: numeral_3_eq_3 default_sock_conf_def getMaxBufferSize_def maxBufferSizeUnix_def)
  moreover have "sType default_sock_conf \<noteq> ''tcp''" by (simp add: default_sock_conf_def)
  moreover have "[] \<notin> set (replicate 3 ?d)" by simp
  ultimately show ?thesis
    using datagrams_cut_to_buffer [of default_sock_conf "replicate 3 ?d"]
    by (auto simp: numeral_3_eq_3 simp del: receive_data.simps)
qed

text \<open>The configurations the transport can run with.\<close>

definition valid_sock_conf :: "sock_conf \<Rightarrow> bool" where
  "valid_sock_conf c \<longleftrightarrow>
     sType c = ''unix'' \<and> sPath c \<noteq> []
     \<or> (sType c = ''udp'' \<or> sType c = ''tcp'') \<and> sSocketaddr c \<noteq> []"

text \<open>
  \<open>Config\<close> accepts a configuration exactly if it parses, its dump file (when enabled)
  opens and, with its type in lower case, it is a Unix socket with a path or a UDP or TCP
  socket with an address.
\<close>

theorem socket_config_accepts:
  "socket_Config parse open_file blob = Inr c \<longleftrightarrow>
     (\<exists>c0. parse blob default_sock_conf = Inr c0
         \<and> (if sDumpEnabled c0 then open_file (sDumpPath c0) = None else True)
         \<and> c = c0\<lparr>sType := to_lower (sType c0)\<rparr> \<and> valid_sock_conf c)"
proof (cases "parse blob default_sock_conf")
  case (Inl e)
  then show ?thesis by (simp add: socket_Config_def)
next
  case (Inr c0)
  then show ?thesis
    by (cases "sDumpEnabled c0"; cases "open_file (sDumpPath c0)")
       (auto simp: socket_Config_def valid_sock_conf_def Let_def)
qed

end
