(* ===== verification/SocketRun.thy ===== *)
theory SocketRun
  imports Socket
begin

text \<open>
  How the socket transport starts and stops (\<open>Run\<close> and the three \<open>init\<close> functions of
  \<open>plugins/transport/socket/main.go\<close>): binding the socket, the loop that accepts TCP connections, the
  loop that waits for the end.  The operating system's answers are arguments.
\<close>

section \<open>Binding\<close>

text \<open>
  Each function gives what it does and whether it has a socket; an argument is the error of one
  call, in the order of the calls.
\<close>

datatype run_action =
    Remove_File string
  | Start_Receive "nat option"
  | Close_Dump_File
  | Log_Error string

definition initUnixSocket :: "sock_conf \<Rightarrow> string option \<Rightarrow> string option \<Rightarrow> run_action list \<times> bool" where
  "initUnixSocket c listen_err file_err =
     (let acts = [Remove_File (sPath c)]
      in if listen_err \<noteq> None then (acts @ [Log_Error (''failed to bind unix socket '' @ sPath c)], False)
         else if file_err \<noteq> None
         then (acts @ [Log_Error (''failed to retrieve file handle for '' @ sPath c)], False)
         else (acts, True))"

definition initUDPSocket :: "sock_conf \<Rightarrow> string option \<Rightarrow> string option \<Rightarrow> run_action list \<times> bool" where
  "initUDPSocket c resolve_err listen_err =
     (if resolve_err \<noteq> None then ([Log_Error (''failed to resolve udp address: '' @ sSocketaddr c)], False)
      else if listen_err \<noteq> None
      then ([Log_Error (''failed to bind udp socket to addr: '' @ sSocketaddr c)], False)
      else ([], True))"

definition initTCPSocket :: "sock_conf \<Rightarrow> string option \<Rightarrow> string option \<Rightarrow> run_action list \<times> bool" where
  "initTCPSocket c resolve_err listen_err =
     (if resolve_err \<noteq> None then ([Log_Error (''failed to resolve tcp address: '' @ sSocketaddr c)], False)
      else if listen_err \<noteq> None
      then ([Log_Error (''failed to bind tcp socket to addr: '' @ sSocketaddr c)], False)
      else ([], True))"

section \<open>Accepting connections\<close>

text \<open>
  One call of \<open>AcceptTCP\<close>: a connection (they are numbered), or an error together with whether the
  context is done when it is returned.
\<close>

datatype accept_result = Accepted nat | Accept_Error bool

text \<open>
  The accept loop, as far as calls have returned.  \<open>break\<close> leaves the \<open>select\<close> only, so that after
  the cancellation a failed call goes on to start a receiver for the nil connection.
\<close>

fun accept_loop :: "accept_result list \<Rightarrow> run_action list" where
  "accept_loop [] = []"
| "accept_loop (Accepted conn # rs) = Start_Receive (Some conn) # accept_loop rs"
| "accept_loop (Accept_Error ctx_done # rs) =
     (if ctx_done then Start_Receive None # accept_loop rs
      else Log_Error ''failed to accept TCP connection'' # accept_loop rs)"

section \<open>Run\<close>

text \<open>
  The waiting loop: the counter of messages as it is after each second before the context is done;
  the rates that are logged and the last value in the end.
\<close>

fun rate_loop :: "int64 list \<Rightarrow> int64 \<Rightarrow> int64 list \<times> int64" where
  "rate_loop [] lastV = ([], lastV)"
| "rate_loop (msgs # counts) lastV =
     (let (r, lastV') = rate msgs lastV; (rs, lastV'') = rate_loop counts lastV' in (r # rs, lastV''))"

text \<open>
  The socket is the connection number 0 of the datagram types.  \<open>err1\<close> and \<open>err2\<close> are the errors of
  the two calls of the \<open>init\<close> function.  The result: what was done, and what the waiting loop gives.
\<close>

definition init_failed :: "sock_conf \<Rightarrow> string" where
  "init_failed c = ''Failed to initialize socket transport plugin with type: '' @ sType c"

definition socket_start ::
  "sock_conf \<Rightarrow> string option \<Rightarrow> string option \<Rightarrow> accept_result list \<Rightarrow> run_action list \<times> bool" where
  "socket_start c err1 err2 accepts =
     (if sType c = ''udp'' then
        (let (acts, ok) = initUDPSocket c err1 err2
         in if \<not> ok then (acts @ [Log_Error (init_failed c)], False) else (acts @ [Start_Receive (Some 0)], True))
      else if sType c = ''tcp'' then
        (let (acts, ok) = initTCPSocket c err1 err2
         in if \<not> ok then (acts @ [Log_Error (init_failed c)], False) else (acts @ accept_loop accepts, True))
      else
        (let (acts, ok) = initUnixSocket c err1 err2
         in if \<not> ok then (acts @ [Log_Error (init_failed c)], False) else (acts @ [Start_Receive (Some 0)], True)))"

definition socket_Run ::
  "sock_conf \<Rightarrow> string option \<Rightarrow> string option \<Rightarrow> accept_result list \<Rightarrow> int64 list \<Rightarrow> int64
     \<Rightarrow> run_action list \<times> (int64 list \<times> int64)" where
  "socket_Run c err1 err2 accepts counts lastV =
     (let (acts, ok) = socket_start c err1 err2 accepts
      in if \<not> ok then (acts, [], lastV)
         else (acts @ (if sType c = ''unix'' then [Remove_File (sPath c)] else []) @ [Close_Dump_File],
               rate_loop counts lastV))"

text \<open>The logged rates add up to the messages received meanwhile, modulo the width of the counter.\<close>

lemma rate_loop_sum:
  "is_int64 lastV \<Longrightarrow> list_all is_int64 counts \<Longrightarrow>
     wrap64 (lastV + sum_list (fst (rate_loop counts lastV))) = snd (rate_loop counts lastV)
     \<and> snd (rate_loop counts lastV) = last (lastV # counts)"
proof (induction counts arbitrary: lastV)
  case Nil
  then show ?case by (simp add: wrap64_id)
next
  case (Cons c counts)
  obtain rs v where l: "rate_loop counts c = (rs, v)" by force
  from Cons l have "wrap64 (c + sum_list rs) = v" "v = last (c # counts)"
    by (metis fst_conv list.pred_inject(2) snd_conv)+
  moreover have "wrap64 (lastV + (wrap64 (c - lastV) + sum_list rs)) = wrap64 (c + sum_list rs)"
    using wrap64_add_wrap64 [of "lastV + sum_list rs" "c - lastV"] by (simp add: algebra_simps)
  ultimately show ?case using l by (simp add: rate_def)
qed

section \<open>Which receivers are started\<close>

fun started :: "run_action list \<Rightarrow> nat option list" where
  "started [] = []"
| "started (Start_Receive conn # as) = conn # started as"
| "started (_ # as) = started as"

fun accepted :: "accept_result list \<Rightarrow> nat list" where
  "accepted [] = []"
| "accepted (Accepted conn # rs) = conn # accepted rs"
| "accepted (Accept_Error ctx_done # rs) = accepted rs"

lemma started_append [simp]: "started (as @ bs) = started as @ started bs"
  by (induction as rule: started.induct) simp_all

lemma started_accept_loop:
  "started (accept_loop rs) =
     concat (map (\<lambda>r. case r of Accepted conn \<Rightarrow> [Some conn] | Accept_Error ctx_done \<Rightarrow> if ctx_done then [None] else []) rs)"
  by (induction rs rule: accept_loop.induct) simp_all

text \<open>
  A TCP transport that could bind its address starts one receiver per accepted connection, in
  order; the only other receivers it starts are for a nil connection, one for every call that
  fails after the context is done.
\<close>

theorem accepts_start_receivers:
  assumes "sType c = ''tcp''"
  shows "started (fst (socket_Run c None None accepts counts lastV)) = started (accept_loop accepts)
    \<and> [conn. Some conn \<leftarrow> started (accept_loop accepts)] = accepted accepts
    \<and> length (filter (\<lambda>s. s = None) (started (accept_loop accepts)))
        = length (filter (\<lambda>r. r = Accept_Error True) accepts)"
proof -
  have "[conn. Some conn \<leftarrow> started (accept_loop accepts)] = accepted accepts"
    by (induction accepts rule: accept_loop.induct) simp_all
  moreover have "length (filter (\<lambda>s. s = None) (started (accept_loop accepts)))
        = length (filter (\<lambda>r. r = Accept_Error True) accepts)"
    by (induction accepts rule: accept_loop.induct) simp_all
  ultimately show ?thesis
    using assms by (simp add: socket_Run_def socket_start_def initTCPSocket_def)
qed

text \<open>A socket that cannot be bound leaves the transport without a receiver, and \<open>Run\<close> returns.\<close>

lemma unbound_socket_receives_nothing:
  "err1 \<noteq> None \<or> err2 \<noteq> None \<Longrightarrow> started (fst (socket_Run c err1 err2 accepts counts lastV)) = []"
  by (auto simp: socket_Run_def socket_start_def initTCPSocket_def initUDPSocket_def initUnixSocket_def Let_def)

end
