(* ===== verification/Amqp.thy ===== *)
theory Amqp
  imports Handler GoStrings
begin

text \<open>
  The AMQP 1.0 transport (\<open>plugins/transport/amqp1/main.go\<close>): the callback that accepts, dumps and
  forwards a message, the receive loop around it, and the configuration.  The AMQP library is outside:
  what it returns, and the messages it hands over, are the arguments of the definitions.
\<close>

section \<open>Configuration and state\<close>

record amqp_conf =
  aURI :: string
  aChannel :: string
  aLinkCredit :: "32 word"
  aDumpEnabled :: bool
  aDumpPath :: string

definition default_amqp_conf :: amqp_conf where
  "default_amqp_conf =
     \<lparr>aURI = ''amqp://127.0.0.1:5672'', aChannel = ''rsyslog/logs'', aLinkCredit = 1024,
      aDumpEnabled = False, aDumpPath = []\<rparr>"

text \<open>The transport with the two counters of the package.\<close>

record amqp =
  aConf :: amqp_conf
  aMsgCount :: int64
  aLastVal :: int64

definition amqp_New :: amqp where
  "amqp_New = \<lparr>aConf = \<lparr>aURI = [], aChannel = [], aLinkCredit = 0, aDumpEnabled = False, aDumpPath = []\<rparr>,
               aMsgCount = 0, aLastVal = 0\<rparr>"

definition amqp_rate :: "amqp \<Rightarrow> int64 \<times> amqp" where
  "amqp_rate tr = (wrap64 (aMsgCount tr - aLastVal tr), tr\<lparr>aLastVal := aMsgCount tr\<rparr>)"

text \<open>
  \<open>parse\<close> is \<open>ParseConfig\<close> on the configuration bytes, with the configuration it leaves and its error;
  \<open>open_file\<close> the error of opening the dump file.
\<close>

definition amqp_Config ::
  "(amqp_conf \<Rightarrow> amqp_conf \<times> string option) \<Rightarrow> (string \<Rightarrow> string option) \<Rightarrow> amqp \<Rightarrow> amqp \<times> string option" where
  "amqp_Config parse open_file tr =
     (let (c, err) = parse default_amqp_conf;
          tr' = tr\<lparr>aConf := c\<rparr>
      in case err of
           Some e \<Rightarrow> (tr', Some e)
         | None \<Rightarrow> if aDumpEnabled c then (tr', open_file (aDumpPath c)) else (tr', None))"

section \<open>Messages\<close>

text \<open>A decoded AMQP value; everything that is neither a string nor a list is \<open>AV_Other\<close>.\<close>

datatype amqp_value = AV_String string | AV_List "amqp_value list" | AV_Other

text \<open>
  A message with its data section and its value (\<open>None\<close> for nil), and the errors that accepting it
  and the two writes to the dump buffer would return.
\<close>

record amqp_msg =
  qData :: blob
  qValue :: "amqp_value option"
  qAccept :: "string option"
  qWriteData :: "string option"
  qWriteNewline :: "string option"

datatype amqp_action = Sent blob | Dumped blob

definition sendMessage :: "amqp_value \<Rightarrow> amqp \<Rightarrow> amqp \<times> amqp_action list" where
  "sendMessage msg tr =
     (case msg of
        AV_String tmsg \<Rightarrow> (tr\<lparr>aMsgCount := wrap64 (aMsgCount tr + 1)\<rparr>, [Sent tmsg])
      | _ \<Rightarrow> (tr, []))"

fun send_items :: "amqp_value list \<Rightarrow> amqp \<Rightarrow> amqp \<times> amqp_action list" where
  "send_items [] tr = (tr, [])"
| "send_items (itm # val) tr =
     (let (tr1, as1) = sendMessage itm tr; (tr2, as2) = send_items val tr1 in (tr2, as1 @ as2))"

definition send_value :: "amqp_value option \<Rightarrow> amqp \<Rightarrow> amqp \<times> amqp_action list" where
  "send_value v tr =
     (case v of
        None \<Rightarrow> (tr, [])
      | Some (AV_List val) \<Rightarrow> send_items val tr
      | Some val \<Rightarrow> sendMessage val tr)"

text \<open>
  The callback.  The test after \<open>Accept\<close> asks for the variable of \<open>Run\<close>, \<open>outer_err\<close>, and returns
  the error of \<open>Accept\<close>.
\<close>

definition handle_message ::
  "string option \<Rightarrow> amqp_msg \<Rightarrow> amqp \<Rightarrow> amqp \<times> amqp_action list \<times> string option" where
  "handle_message outer_err msg tr =
     (if outer_err \<noteq> None then (tr, [], qAccept msg)
      else if aDumpEnabled (aConf tr) then
        (case qWriteData msg of
           Some e \<Rightarrow> (tr, [], Some e)
         | None \<Rightarrow>
             (case qWriteNewline msg of
                Some e \<Rightarrow> (tr, [Dumped (qData msg)], Some e)
              | None \<Rightarrow> (let (tr', sent) = send_value (qValue msg) tr
                         in (tr', [Dumped (qData msg), Dumped [newline]] @ sent, None))))
      else (let (tr', sent) = send_value (qValue msg) tr in (tr', sent, None)))"

section \<open>The receive loop\<close>

text \<open>
  What a call of \<open>HandleMessage\<close> does: it calls the callback with a message and returns its error, or
  it returns an error of its own.  The loop over these calls, as far as they have happened: the
  actions and whether the loop was left.
\<close>

datatype amqp_call = Calls_With amqp_msg | Returns_Error string

definition context_canceled :: string where
  "context_canceled = ''context canceled''"

definition amqp_call_result :: "amqp_call \<Rightarrow> amqp \<Rightarrow> amqp \<times> amqp_action list \<times> string option" where
  "amqp_call_result call tr =
     (case call of
        Calls_With msg \<Rightarrow> handle_message None msg tr
      | Returns_Error e \<Rightarrow> (tr, [], Some e))"

fun amqp_loop :: "amqp_call list \<Rightarrow> amqp \<Rightarrow> amqp \<times> amqp_action list \<times> bool" where
  "amqp_loop [] tr = (snd (amqp_rate tr), [], False)"
| "amqp_loop (call # calls) tr =
     (let (tr1, acts1, err) = amqp_call_result call (snd (amqp_rate tr))
      in case err of
           Some e \<Rightarrow>
             if \<not> str_contains e context_canceled then (tr1, acts1, True)
             else (let (tr2, acts2, left) = amqp_loop calls tr1 in (tr2, acts1 @ acts2, left))
         | None \<Rightarrow> (let (tr2, acts2, left) = amqp_loop calls tr1 in (tr2, acts1 @ acts2, left)))"

text \<open>
  \<open>Run\<close>: connecting, opening a session and creating a receiver may fail, then it returns at once
  (\<open>True\<close> as last component); nothing is ever sent on the channel \<open>done\<close>.
\<close>

definition amqp_Run ::
  "string option \<Rightarrow> string option \<Rightarrow> string option \<Rightarrow> amqp_call list \<Rightarrow> amqp
     \<Rightarrow> amqp \<times> amqp_action list \<times> bool" where
  "amqp_Run dial_err session_err receiver_err calls tr =
     (if dial_err \<noteq> None then (tr, [], True)
      else if session_err \<noteq> None then (tr, [], True)
      else if receiver_err \<noteq> None then (tr, [], True)
      else amqp_loop calls tr)"

section \<open>Lemmas\<close>

fun sent :: "amqp_action list \<Rightarrow> blob list" where
  "sent [] = []"
| "sent (Sent b # as) = b # sent as"
| "sent (Dumped b # as) = sent as"

lemma sent_append [simp]: "sent (as @ bs) = sent as @ sent bs"
  by (induction as rule: sent.induct) simp_all

text \<open>The strings of a value: the value itself, or the elements of a list, not of a nested one.\<close>

fun string_of :: "amqp_value \<Rightarrow> string list" where
  "string_of (AV_String s) = [s]"
| "string_of _ = []"

fun strings_of :: "amqp_value option \<Rightarrow> string list" where
  "strings_of (Some (AV_List vs)) = concat (map string_of vs)"
| "strings_of (Some v) = string_of v"
| "strings_of None = []"

lemma sendMessage_eq:
  "sendMessage v tr =
     (tr\<lparr>aMsgCount := (if string_of v = [] then aMsgCount tr else wrap64 (aMsgCount tr + 1))\<rparr>,
      map Sent (string_of v))"
  by (cases v) (simp_all add: sendMessage_def)

lemma send_items_eq:
  "is_int64 (aMsgCount tr) \<Longrightarrow>
     send_items vs tr =
       (tr\<lparr>aMsgCount := wrap64 (aMsgCount tr + int (length (concat (map string_of vs))))\<rparr>,
        map Sent (concat (map string_of vs)))"
proof (induction vs arbitrary: tr)
  case Nil
  then show ?case by (simp add: wrap64_id)
next
  case (Cons v vs)
  then show ?case
    by (cases v) (simp_all add: sendMessage_def wrap64_range wrap64_add_wrap64 add.assoc)
qed

lemma send_value_eq:
  "is_int64 (aMsgCount tr) \<Longrightarrow>
     send_value v tr =
       (tr\<lparr>aMsgCount := wrap64 (aMsgCount tr + int (length (strings_of v)))\<rparr>, map Sent (strings_of v))"
  by (cases v rule: strings_of.cases)
     (simp_all add: send_value_def send_items_eq sendMessage_def wrap64_id)

lemma sent_map_Sent [simp]: "sent (map Sent bs) = bs"
  by (induction bs) simp_all

text \<open>Writing a message to the dump file fails; a call that ends the loop.\<close>

definition dump_error :: "amqp_conf \<Rightarrow> amqp_msg \<Rightarrow> string option" where
  "dump_error c m =
     (if aDumpEnabled c then (case qWriteData m of Some e \<Rightarrow> Some e | None \<Rightarrow> qWriteNewline m) else None)"

fun call_error :: "amqp_conf \<Rightarrow> amqp_call \<Rightarrow> string option" where
  "call_error c (Calls_With m) = dump_error c m"
| "call_error c (Returns_Error e) = Some e"

definition ends_loop :: "amqp_conf \<Rightarrow> amqp_call \<Rightarrow> bool" where
  "ends_loop c call = (case call_error c call of Some e \<Rightarrow> \<not> str_contains e context_canceled | None \<Rightarrow> False)"

fun forwarded :: "amqp_conf \<Rightarrow> amqp_call \<Rightarrow> string list" where
  "forwarded c (Calls_With m) = (if dump_error c m = None then strings_of (qValue m) else [])"
| "forwarded c (Returns_Error e) = []"

lemma amqp_call_result_eq:
  assumes "is_int64 (aMsgCount tr)"
  shows "\<exists>acts. amqp_call_result call tr =
      (tr\<lparr>aMsgCount := wrap64 (aMsgCount tr + int (length (forwarded (aConf tr) call)))\<rparr>, acts,
       call_error (aConf tr) call)
    \<and> sent acts = forwarded (aConf tr) call"
  using assms
  by (cases call)
     (auto simp: amqp_call_result_def handle_message_def dump_error_def send_value_eq wrap64_id split: option.split)

lemma amqp_loop_forwards:
  assumes "is_int64 (aMsgCount tr)"
  shows "\<exists>tr' acts. amqp_loop calls tr = (tr', acts, list_ex (ends_loop (aConf tr)) calls)
    \<and> sent acts = concat (map (forwarded (aConf tr)) (takeWhile (\<lambda>c. \<not> ends_loop (aConf tr) c) calls))
    \<and> aMsgCount tr' = wrap64 (aMsgCount tr + int (length (sent acts))) \<and> aConf tr' = aConf tr"
  using assms
proof (induction calls arbitrary: tr)
  case Nil
  then show ?case by (simp add: amqp_rate_def wrap64_id)
next
  case (Cons call calls)
  let ?c = "aConf tr"
  let ?tr0 = "snd (amqp_rate tr)"
  have tr0: "is_int64 (aMsgCount ?tr0)" "aConf ?tr0 = ?c" "aMsgCount ?tr0 = aMsgCount tr"
    using Cons.prems by (simp_all add: amqp_rate_def)
  let ?tr1 = "?tr0\<lparr>aMsgCount := wrap64 (aMsgCount tr + int (length (forwarded ?c call)))\<rparr>"
  from amqp_call_result_eq [OF tr0(1), of call] tr0(2,3) obtain acts1
    where call: "amqp_call_result call ?tr0 = (?tr1, acts1, call_error ?c call)" "sent acts1 = forwarded ?c call"
    by auto
  have stop: "forwarded ?c call = []" if "ends_loop ?c call"
    using that by (cases call) (auto simp: ends_loop_def split: option.splits)
  from Cons.IH [of ?tr1] tr0 obtain tr2 acts2 where
    loop: "amqp_loop calls ?tr1 = (tr2, acts2, list_ex (ends_loop ?c) calls)"
      "sent acts2 = concat (map (forwarded ?c) (takeWhile (\<lambda>c. \<not> ends_loop ?c c) calls))"
      "aMsgCount tr2 = wrap64 (aMsgCount ?tr1 + int (length (sent acts2)))" "aConf tr2 = ?c"
    by (auto simp: wrap64_range)
  show ?case
  proof (cases "ends_loop ?c call")
    case True
    then obtain e where e: "call_error ?c call = Some e" "\<not> str_contains e context_canceled"
      by (auto simp: ends_loop_def split: option.splits)
    with call stop [OF True] True Cons.prems tr0 show ?thesis by (simp add: wrap64_id)
  next
    case False
    have "amqp_loop (call # calls) tr = (tr2, acts1 @ acts2, list_ex (ends_loop ?c) calls)"
      using False call loop(1) by (auto simp: ends_loop_def split: option.splits)
    with False loop call(2) show ?thesis
      by (simp add: wrap64_add_wrap64 add.assoc)
  qed
qed

section \<open>Properties\<close>

text \<open>
  C35: Once connected, the transport forwards the strings of the messages it gets, in order and each
  once, as far as the first call that ends the loop, and counts what it forwarded; whether a message
  could be accepted plays no role.  The loop is left exactly if some call fails with an error that
  does not say that the context was cancelled: after the cancellation, every further call fails with
  that error, and \<open>Run\<close> does not return, however long it is waited for.
\<close>

theorem amqp_forwards_and_never_stops:
  assumes "is_int64 (aMsgCount tr)"
  shows "\<exists>tr' acts. amqp_Run None None None (calls @ replicate n (Returns_Error context_canceled)) tr =
        (tr', acts, list_ex (ends_loop (aConf tr)) calls)
    \<and> sent acts = concat (map (forwarded (aConf tr)) (takeWhile (\<lambda>c. \<not> ends_loop (aConf tr) c) calls))
    \<and> aMsgCount tr' = wrap64 (aMsgCount tr + int (length (sent acts)))"
proof -
  let ?c = "aConf tr"
  let ?rest = "replicate n (Returns_Error context_canceled)"
  have "str_contains context_canceled context_canceled" by code_simp
  then have quiet: "\<not> ends_loop ?c (Returns_Error context_canceled)" by (simp add: ends_loop_def)
  then have "list_ex (ends_loop ?c) (calls @ ?rest) = list_ex (ends_loop ?c) calls"
    by (auto simp: list_ex_iff)
  moreover have "concat (map (forwarded ?c) (takeWhile (\<lambda>c. \<not> ends_loop ?c c) (calls @ ?rest)))
      = concat (map (forwarded ?c) (takeWhile (\<lambda>c. \<not> ends_loop ?c c) calls))"
    using quiet by (induction calls) (auto simp: takeWhile_replicate)
  ultimately show ?thesis
    using amqp_loop_forwards [OF assms, of "calls @ ?rest"] by (auto simp: amqp_Run_def)
qed

definition ex_amqp_msg :: "amqp_value \<Rightarrow> amqp_msg" where
  "ex_amqp_msg v =
     \<lparr>qData = [], qValue = Some v, qAccept = Some ''link detached'', qWriteData = None, qWriteNewline = None\<rparr>"

theorem amqp_forwards_and_never_stops_witness:
  "\<exists>tr' acts. amqp_Run None None None
        ([Calls_With (ex_amqp_msg (AV_List [AV_String ''a'', AV_Other, AV_String ''b''])),
          Calls_With (ex_amqp_msg (AV_String ''c''))] @ replicate 1000 (Returns_Error context_canceled)) amqp_New
      = (tr', acts, False) \<and> sent acts = [''a'', ''b'', ''c''] \<and> aMsgCount tr' = 3"
proof -
  have "is_int64 (aMsgCount amqp_New)" by (simp add: amqp_New_def is_int64_def)
  from amqp_forwards_and_never_stops [OF this,
      of "[Calls_With (ex_amqp_msg (AV_List [AV_String ''a'', AV_Other, AV_String ''b''])),
          Calls_With (ex_amqp_msg (AV_String ''c''))]" 1000]
  show ?thesis
    by (auto simp: amqp_New_def ex_amqp_msg_def ends_loop_def dump_error_def wrap64_id is_int64_def)
qed

end
