(* ===== verification/GoRegexp.thy ===== *)
theory GoRegexp
  imports GoStrings
begin

text \<open>
  The part of Go's package \<open>regexp\<close> that sg-core uses: expressions without alternatives, whose
  repetitions are of single characters.  Matching is leftmost-first: the match that starts
  leftmost, and among these the one that backtracking finds first, each repetition taking as many
  characters as it can.  The expressions of sg-core begin and end with ASCII characters, and a
  class of theirs contains either all characters beyond ASCII or none, so that matching on the bytes
  of a UTF-8 string is matching on its characters.
\<close>

section \<open>Expressions\<close>

datatype char_class =
    Any
  | Only "char list"
  | All_But "char list"
  | Word_Char
  | Blank

text \<open>\<open>.\<close>, a literal or \<open>[...]\<close>, \<open>[^...]\<close>, \<open>\w\<close> and \<open>\s\<close>.\<close>

fun in_class :: "char_class \<Rightarrow> char \<Rightarrow> bool" where
  "in_class Any c \<longleftrightarrow> c \<noteq> newline"
| "in_class (Only cs) c \<longleftrightarrow> c \<in> set cs"
| "in_class (All_But cs) c \<longleftrightarrow> c \<notin> set cs"
| "in_class Word_Char c \<longleftrightarrow>
     (let n = of_char c :: nat in 48 \<le> n \<and> n \<le> 57 \<or> 65 \<le> n \<and> n \<le> 90 \<or> n = 95 \<or> 97 \<le> n \<and> n \<le> 122)"
| "in_class Blank c \<longleftrightarrow> (of_char c :: nat) \<in> {9, 10, 12, 13, 32}"

text \<open>An expression is a sequence: one character, \<open>*\<close>, \<open>?\<close>, a parenthesis, \<open>^\<close> and \<open>$\<close>.\<close>

datatype rx_item =
    One char_class
  | Many char_class
  | Maybe char_class
  | Paren
  | At_Start
  | At_End

type_synonym regexp = "rx_item list"

abbreviation literal :: "string \<Rightarrow> regexp" where
  "literal s \<equiv> map (\<lambda>c. One (Only [c])) s"

abbreviation some_of :: "char_class \<Rightarrow> regexp" where
  "some_of c \<equiv> [One c, Many c]"

section \<open>Matching\<close>

text \<open>
  A match that starts at position \<open>p\<close> of the text, where \<open>s\<close> is left of it: the positions of
  the parentheses, and last the position where the match ends.
\<close>

function rx_match :: "regexp \<Rightarrow> nat \<Rightarrow> string \<Rightarrow> nat list option" where
  "rx_match [] p s = Some [p]"
| "rx_match (One k # its) p s =
     (case s of c # cs \<Rightarrow> if in_class k c then rx_match its (Suc p) cs else None | [] \<Rightarrow> None)"
| "rx_match (Many k # its) p s =
     (case s of
        c # cs \<Rightarrow>
          if in_class k c then
            (case rx_match (Many k # its) (Suc p) cs of Some m \<Rightarrow> Some m | None \<Rightarrow> rx_match its p s)
          else rx_match its p s
      | [] \<Rightarrow> rx_match its p s)"
| "rx_match (Maybe k # its) p s =
     (case s of
        c # cs \<Rightarrow>
          if in_class k c then
            (case rx_match its (Suc p) cs of Some m \<Rightarrow> Some m | None \<Rightarrow> rx_match its p s)
          else rx_match its p s
      | [] \<Rightarrow> rx_match its p s)"
| "rx_match (Paren # its) p s = map_option (Cons p) (rx_match its p s)"
| "rx_match (At_Start # its) p s = (if p = 0 then rx_match its p s else None)"
| "rx_match (At_End # its) p s = (if s = [] then rx_match its p s else None)"
  by pat_completeness auto
termination
  by (relation "measures [\<lambda>(its, p, s). length its + length s]") auto

text \<open>The leftmost match: where it starts, and the result of matching there.\<close>

fun rx_find :: "regexp \<Rightarrow> nat \<Rightarrow> string \<Rightarrow> (nat \<times> nat list) option" where
  "rx_find its p s =
     (case rx_match its p s of
        Some m \<Rightarrow> Some (p, m)
      | None \<Rightarrow> (case s of [] \<Rightarrow> None | c # cs \<Rightarrow> rx_find its (Suc p) cs))"

definition rx_found :: "regexp \<Rightarrow> string \<Rightarrow> bool" where
  "rx_found its s \<longleftrightarrow> rx_find its 0 s \<noteq> None"

text \<open>\<open>FindStringSubmatch\<close> for one group: the text of the match and of the group.\<close>

definition rx_submatch :: "regexp \<Rightarrow> string \<Rightarrow> (string \<times> string) option" where
  "rx_submatch its s =
     (case rx_find its 0 s of
        Some (a, [i, j, b]) \<Rightarrow> Some (take (b - a) (drop a s), take (j - i) (drop i s))
      | _ \<Rightarrow> None)"

text \<open>
  \<open>ReplaceAllLiteralString\<close>: the loop of the library, with the end of the last match and the
  position where the search goes on; after an empty match it moves on by one.
\<close>

function rx_replace :: "regexp \<Rightarrow> string \<Rightarrow> string \<Rightarrow> nat \<Rightarrow> nat \<Rightarrow> string" where
  "rx_replace its repl s from pos =
     (if pos \<le> length s then
        (case rx_find its pos (drop pos s) of
           None \<Rightarrow> drop from s
         | Some (a, m) \<Rightarrow>
             take (a - from) (drop from s)
             @ (if last m > from \<or> a = 0 then repl else [])
             @ rx_replace its repl s (last m) (max (Suc pos) (last m)))
      else drop from s)"
  by pat_completeness auto
termination
  by (relation "measure (\<lambda>(its, repl, s, from, pos). Suc (length s) - pos)") auto

declare rx_match.simps(3) [simp del] rx_find.simps [simp del] rx_replace.simps [simp del]

definition ReplaceAllLiteralString :: "regexp \<Rightarrow> string \<Rightarrow> string \<Rightarrow> string" where
  "ReplaceAllLiteralString its s repl = rx_replace its repl s 0 0"

section \<open>What an expression describes\<close>

text \<open>
  \<open>rx_lang its p t u\<close>: the text \<open>t\<close>, found at position \<open>p\<close> with \<open>u\<close> after it, is described by the
  expression.
\<close>

inductive rx_lang :: "regexp \<Rightarrow> nat \<Rightarrow> string \<Rightarrow> string \<Rightarrow> bool" where
  lang_Nil: "rx_lang [] p [] u"
| lang_One: "in_class k c \<Longrightarrow> rx_lang its (Suc p) t u \<Longrightarrow> rx_lang (One k # its) p (c # t) u"
| lang_Many: "list_all (in_class k) r \<Longrightarrow> rx_lang its (p + length r) t u \<Longrightarrow>
     rx_lang (Many k # its) p (r @ t) u"
| lang_Maybe: "list_all (in_class k) r \<Longrightarrow> length r \<le> 1 \<Longrightarrow> rx_lang its (p + length r) t u \<Longrightarrow>
     rx_lang (Maybe k # its) p (r @ t) u"
| lang_Paren: "rx_lang its p t u \<Longrightarrow> rx_lang (Paren # its) p t u"
| lang_Start: "rx_lang its 0 t u \<Longrightarrow> rx_lang (At_Start # its) 0 t u"
| lang_End: "rx_lang its p [] [] \<Longrightarrow> rx_lang (At_End # its) p [] []"

inductive_simps rx_lang_simps:
  "rx_lang [] p t u" "rx_lang (One k # its) p t u" "rx_lang (Many k # its) p t u"
  "rx_lang (Maybe k # its) p t u" "rx_lang (Paren # its) p t u" "rx_lang (At_Start # its) p t u"
  "rx_lang (At_End # its) p t u"

lemma rx_match_not_Nil: "rx_match its p s \<noteq> Some []"
proof (induction its p s rule: rx_match.induct)
  case (3 k its p s)
  then show ?case
    by (subst rx_match.simps(3)) (auto split: list.split option.split)
qed (auto split: list.split option.split)

lemma rx_match_sound:
  "rx_match its p s = Some m \<Longrightarrow> \<exists>t u. s = t @ u \<and> rx_lang its p t u \<and> last m = p + length t"
proof (induction its p s arbitrary: m rule: rx_match.induct)
  case (1 p s)
  then show ?case by (auto intro: lang_Nil)
next
  case (2 k its p s)
  then obtain c cs where s: "s = c # cs" "in_class k c" "rx_match its (Suc p) cs = Some m"
    by (auto split: list.splits if_splits)
  from "2.IH" [OF s] obtain t u where "cs = t @ u" "rx_lang its (Suc p) t u" "last m = Suc p + length t"
    by auto
  with s show ?case by (intro exI [of _ "c # t"] exI [of _ u]) (auto intro: lang_One)
next
  case (3 k its p s)
  show ?case
  proof (cases "\<exists>c cs. s = c # cs \<and> in_class k c \<and> rx_match (Many k # its) (Suc p) cs = Some m")
    case False
    with "3.prems" [unfolded rx_match.simps(3) [of k its p s]]
    have "\<exists>t u. s = t @ u \<and> rx_lang its p t u \<and> last m = p + length t"
      using "3.IH" by (cases s) (auto split: if_splits option.splits)
    then show ?thesis using lang_Many [of k "[]"] by fastforce
  next
    case True
    then obtain c cs where s: "s = c # cs" "in_class k c" "rx_match (Many k # its) (Suc p) cs = Some m" by blast
    from "3.IH"(2) [OF s] obtain t u where t: "cs = t @ u" "rx_lang (Many k # its) (Suc p) t u"
      "last m = Suc p + length t" by blast
    then obtain r t' where "t = r @ t'" "list_all (in_class k) r" "rx_lang its (Suc p + length r) t' u"
      by (auto simp: rx_lang_simps)
    with s t show ?thesis
      using lang_Many [of k "c # r" its p t' u] by (intro exI [of _ "c # t"] exI [of _ u]) auto
  qed
next
  case (4 k its p s)
  show ?case
  proof (cases "\<exists>c cs. s = c # cs \<and> in_class k c \<and> rx_match its (Suc p) cs = Some m")
    case False
    with "4.prems" have "\<exists>t u. s = t @ u \<and> rx_lang its p t u \<and> last m = p + length t"
      using "4.IH" by (cases s) (auto split: if_splits option.splits)
    then show ?thesis using lang_Maybe [of k "[]"] by fastforce
  next
    case True
    then obtain c cs where s: "s = c # cs" "in_class k c" "rx_match its (Suc p) cs = Some m" by blast
    from "4.IH"(2) [OF s] obtain t u where t: "cs = t @ u" "rx_lang its (Suc p) t u"
      "last m = Suc p + length t" by blast
    with s show ?thesis
      using lang_Maybe [of k "[c]" its p t u] by (intro exI [of _ "c # t"] exI [of _ u]) auto
  qed
next
  case (5 its p s)
  then obtain m' where m': "rx_match its p s = Some m'" "m = p # m'" by auto
  with rx_match_not_Nil [of its p s] have "m' \<noteq> []" by auto
  moreover from "5.IH" [OF m'(1)] obtain t u where
    "s = t @ u" "rx_lang its p t u" "last m' = p + length t" by blast
  ultimately show ?case using m' by (intro exI [of _ t] exI [of _ u]) (auto intro: lang_Paren)
next
  case (6 its p s)
  then show ?case by (fastforce intro: lang_Start split: if_splits)
next
  case (7 its p s)
  then show ?case by (fastforce intro: lang_End split: if_splits)
qed

lemma rx_match_complete: "rx_lang its p t u \<Longrightarrow> rx_match its p (t @ u) \<noteq> None"
proof (induction rule: rx_lang.induct)
  case (lang_Many k r its p t u)
  then show ?case
  proof (induction r arbitrary: p)
    case Nil
    then have "rx_match its p (t @ u) \<noteq> None" by simp
    then show ?case by (subst append_Nil, subst rx_match.simps(3)) (auto split: list.split option.split)
  next
    case (Cons c r)
    then have "in_class k c" "rx_match (Many k # its) (Suc p) (r @ t @ u) \<noteq> None" by auto
    then show ?case by (subst rx_match.simps(3)) (auto split: option.split)
  qed
next
  case (lang_Maybe k r its p t u)
  then show ?case
    by (cases r) (auto split: list.split option.split)
qed auto

theorem rx_found_iff:
  "rx_found its s \<longleftrightarrow> (\<exists>x t y. s = x @ t @ y \<and> rx_lang its (length x) t y)"
proof -
  have "rx_find its p s \<noteq> None \<longleftrightarrow> (\<exists>x t y. s = x @ t @ y \<and> rx_lang its (p + length x) t y)" for p
  proof (induction s arbitrary: p)
    case Nil
    then show ?case
      using rx_match_sound [of its p "[]"] rx_match_complete [of its p "[]" "[]"]
      by (auto simp: rx_find.simps [of its p "[]"] split: option.split)
  next
    case (Cons c s)
    show ?case
    proof (cases "rx_match its p (c # s)")
      case None
      have "(\<exists>x t y. c # s = x @ t @ y \<and> rx_lang its (p + length x) t y) \<longleftrightarrow>
            (\<exists>x t y. s = x @ t @ y \<and> rx_lang its (Suc p + length x) t y)"
      proof (rule iffI; elim exE conjE)
        fix x t y assume *: "c # s = x @ t @ y" "rx_lang its (p + length x) t y"
        with None rx_match_complete [of its p t y] have "x \<noteq> []" by auto
        with * obtain x' where "x = c # x'" by (cases x) auto
        with * show "\<exists>x t y. s = x @ t @ y \<and> rx_lang its (Suc p + length x) t y" by auto
      next
        fix x t y assume "s = x @ t @ y" "rx_lang its (Suc p + length x) t y"
        then show "\<exists>x t y. c # s = x @ t @ y \<and> rx_lang its (p + length x) t y"
          by (intro exI [of _ "c # x"] exI [of _ t] exI [of _ y]) auto
      qed
      with None Cons.IH [of "Suc p"] show ?thesis by (simp add: rx_find.simps [of its p "c # s"])
    next
      case (Some m)
      from rx_match_sound [OF Some] obtain t u where "c # s = t @ u" "rx_lang its p t u" by blast
      then have "\<exists>x t y. c # s = x @ t @ y \<and> rx_lang its (p + length x) t y"
        by (intro exI [of _ "[]"] exI [of _ t] exI [of _ u]) auto
      with Some show ?thesis by (simp add: rx_find.simps [of its p "c # s"])
    qed
  qed
  from this [of 0] show ?thesis by (simp add: rx_found_def)
qed

section \<open>Sequences and literals\<close>

lemma rx_lang_append:
  "rx_lang (its @ its') p t u \<longleftrightarrow>
     (\<exists>t1 t2. t = t1 @ t2 \<and> rx_lang its p t1 (t2 @ u) \<and> rx_lang its' (p + length t1) t2 u)"
proof (induction its arbitrary: p t)
  case Nil
  then show ?case by (simp add: rx_lang_simps)
next
  case (Cons i its)
  show ?case
  proof (cases i)
    case (One k)
    show ?thesis
    proof
      assume "rx_lang ((i # its) @ its') p t u"
      with One Cons.IH obtain c t1 t2 where "t = c # t1 @ t2" "in_class k c"
        "rx_lang its (Suc p) t1 (t2 @ u)" "rx_lang its' (Suc p + length t1) t2 u"
        by (auto simp: rx_lang_simps)
      with One show "\<exists>t1 t2. t = t1 @ t2 \<and> rx_lang (i # its) p t1 (t2 @ u) \<and> rx_lang its' (p + length t1) t2 u"
        by (intro exI [of _ "c # t1"] exI [of _ t2]) (auto intro: lang_One)
    next
      assume "\<exists>t1 t2. t = t1 @ t2 \<and> rx_lang (i # its) p t1 (t2 @ u) \<and> rx_lang its' (p + length t1) t2 u"
      then obtain c t1 t2 where "t = c # t1 @ t2" "in_class k c"
        "rx_lang its (Suc p) t1 (t2 @ u)" "rx_lang its' (Suc p + length t1) t2 u"
        using One by (auto simp: rx_lang_simps)
      moreover from this Cons.IH [of "Suc p" "t1 @ t2"] have "rx_lang (its @ its') (Suc p) (t1 @ t2) u" by blast
      ultimately show "rx_lang ((i # its) @ its') p t u" using One by (auto intro: lang_One)
    qed
  next
    case (Many k)
    show ?thesis
    proof
      assume "rx_lang ((i # its) @ its') p t u"
      with Many Cons.IH obtain r t1 t2 where "t = r @ t1 @ t2" "list_all (in_class k) r"
        "rx_lang its (p + length r) t1 (t2 @ u)" "rx_lang its' (p + length r + length t1) t2 u"
        by (auto simp: rx_lang_simps)
      with Many show "\<exists>t1 t2. t = t1 @ t2 \<and> rx_lang (i # its) p t1 (t2 @ u) \<and> rx_lang its' (p + length t1) t2 u"
        by (intro exI [of _ "r @ t1"] exI [of _ t2]) (auto intro: lang_Many simp: add.assoc)
    next
      assume "\<exists>t1 t2. t = t1 @ t2 \<and> rx_lang (i # its) p t1 (t2 @ u) \<and> rx_lang its' (p + length t1) t2 u"
      then obtain r t1 t2 where "t = r @ t1 @ t2" "list_all (in_class k) r"
        "rx_lang its (p + length r) t1 (t2 @ u)" "rx_lang its' (p + length r + length t1) t2 u"
        using Many by (auto simp: rx_lang_simps add.assoc)
      moreover from this Cons.IH [of "p + length r" "t1 @ t2"] have "rx_lang (its @ its') (p + length r) (t1 @ t2) u" by blast
      ultimately show "rx_lang ((i # its) @ its') p t u" using Many by (auto intro: lang_Many)
    qed
  next
    case (Maybe k)
    show ?thesis
    proof
      assume "rx_lang ((i # its) @ its') p t u"
      with Maybe Cons.IH obtain r t1 t2 where "t = r @ t1 @ t2" "list_all (in_class k) r" "length r \<le> 1"
        "rx_lang its (p + length r) t1 (t2 @ u)" "rx_lang its' (p + length r + length t1) t2 u"
        by (auto simp: rx_lang_simps)
      with Maybe show "\<exists>t1 t2. t = t1 @ t2 \<and> rx_lang (i # its) p t1 (t2 @ u) \<and> rx_lang its' (p + length t1) t2 u"
        by (intro exI [of _ "r @ t1"] exI [of _ t2]) (auto intro: lang_Maybe simp: add.assoc)
    next
      assume "\<exists>t1 t2. t = t1 @ t2 \<and> rx_lang (i # its) p t1 (t2 @ u) \<and> rx_lang its' (p + length t1) t2 u"
      then obtain r t1 t2 where "t = r @ t1 @ t2" "list_all (in_class k) r" "length r \<le> 1"
        "rx_lang its (p + length r) t1 (t2 @ u)" "rx_lang its' (p + length r + length t1) t2 u"
        using Maybe by (auto simp: rx_lang_simps add.assoc)
      moreover from this Cons.IH [of "p + length r" "t1 @ t2"] have "rx_lang (its @ its') (p + length r) (t1 @ t2) u" by blast
      ultimately show "rx_lang ((i # its) @ its') p t u" using Maybe by (auto intro: lang_Maybe)
    qed
  next
    case At_Start
    then show ?thesis by (cases "p = 0"; simp add: rx_lang_simps Cons.IH)
  next
    case At_End
    with Cons.IH show ?thesis by (auto simp: rx_lang_simps)
  next
    case Paren
    with Cons.IH show ?thesis by (simp add: rx_lang_simps)
  qed
qed

lemma rx_lang_appendI:
  "rx_lang its p t1 (t2 @ u) \<Longrightarrow> rx_lang its' (p + length t1) t2 u \<Longrightarrow> rx_lang (its @ its') p (t1 @ t2) u"
  by (auto simp: rx_lang_append)

lemma rx_lang_literal [simp]: "rx_lang (literal l) p t u \<longleftrightarrow> t = l"
  by (induction l arbitrary: p t) (auto simp: rx_lang_simps)

lemma rx_lang_some_of: "rx_lang (some_of k) p t u \<longleftrightarrow> t \<noteq> [] \<and> list_all (in_class k) t"
  by (cases t) (auto simp: rx_lang_simps)

lemma rx_match_literal:
  "rx_match (literal l) p s = (if has_prefix s l then Some [p + length l] else None)"
  by (induction l arbitrary: p s) (auto simp: has_prefix_def split: list.split)

lemma rx_find_literal:
  "l \<noteq> [] \<Longrightarrow> rx_find (literal l) p s = map_option (\<lambda>m. (p + m, [p + m + length l])) (str_index l s)"
proof (induction s arbitrary: p)
  case Nil
  then show ?case by (simp add: rx_find.simps [of "literal l" p "[]"] rx_match_literal has_prefix_def)
next
  case (Cons c s)
  from Cons.IH [OF Cons.prems, of "Suc p"] show ?case
    by (simp add: rx_find.simps [of "literal l" p "c # s"] rx_match_literal option.map_comp comp_def)
qed

lemma rx_replace_literal:
  assumes "l \<noteq> []"
  shows "k \<le> length s \<Longrightarrow> rx_replace (literal l) r s k k = replace_all l r (drop k s)"
proof (induction "length s - k" arbitrary: k rule: less_induct)
  case less
  show ?case
  proof (cases "str_index l (drop k s)")
    case None
    with assms less.prems show ?thesis
      by (simp add: rx_replace.simps [of "literal l" r s k k] rx_find_literal replace_all.simps [of l r "drop k s"])
  next
    case (Some m)
    with str_index_bound [of l "drop k s" m] less.prems have le: "k + m + length l \<le> length s" by simp
    moreover have "0 < length l" using assms by simp
    ultimately have len: "0 < length l" "length s - (k + m + length l) < length s - k" by linarith+
    have "Suc k \<le> k + m + length l" using len(1) by linarith
    then have "max (Suc k) (k + m + length l) = k + m + length l" by (rule max_absorb2)
    with less.hyps [OF len(2) le] len(1) Some assms less.prems show ?thesis
      by (simp add: rx_replace.simps [of "literal l" r s k k] rx_find_literal replace_all.simps [of l r "drop k s"]
        add.commute add.left_commute del: max.absorb1 max.absorb2)
  qed
qed

lemma ReplaceAllLiteralString_literal:
  "l \<noteq> [] \<Longrightarrow> ReplaceAllLiteralString (literal l) s r = replace_all l r s"
  by (simp add: ReplaceAllLiteralString_def rx_replace_literal)

end
