(* ===== verification/CollectdSanitize.thy ===== *)
theory CollectdSanitize
  imports GoRegexp
begin

text \<open>
  The clean-up of a collectd event before it is decoded (\<open>sanitize\<close> in
  \<open>plugins/handler/events/collectd/collectd.go\<close>): the string that the field "ves" may hold is
  turned into an object, by removing the backslashes of its quotes again and again.  The loop has
  no bound; a call that does not return has the value \<open>None\<close>.
\<close>

section \<open>The expressions\<close>

abbreviation backslash :: char where
  "backslash \<equiv> CHR 0x5C"

abbreviation backslashes :: rx_item where
  "backslashes \<equiv> Many (Only [backslash])"

definition rexForArray :: regexp where
  "rexForArray = [At_Start] @ literal ''['' @ [Many Any] @ literal '']'' @ [At_End]"

definition rexForNestedQuote :: regexp where
  "rexForNestedQuote = literal [backslash, quote]"

definition rexForRemainedNested :: regexp where
  "rexForRemainedNested =
     literal [quote, CHR '':'', quote] @ some_of (All_But [quote, CHR '','']) @ literal [backslash, backslash, quote]
     @ some_of (All_But [quote, CHR '','']) @ literal [quote]"

definition rexForVes :: regexp where
  "rexForVes =
     [backslashes] @ literal [quote] @ literal ''ves'' @ [backslashes] @ literal [quote, CHR '':'']
     @ [backslashes] @ literal [quote, CHR ''{''] @ [Paren, Many Any, Paren] @ literal ''}''
     @ [backslashes] @ literal [quote]"

definition rexForInvalidVesStr :: regexp where
  "rexForInvalidVesStr =
     literal [quote, CHR '':'', quote] @ some_of (All_But [quote, CHR '','', backslash]) @ literal [quote]
     @ some_of (All_But [quote, CHR '','', backslash]) @ literal [quote]"

section \<open>The clean-up\<close>

definition unnest :: "string \<Rightarrow> string" where
  "unnest substr = ReplaceAllLiteralString rexForNestedQuote substr [quote]"

partial_function (option) sanitize_loop :: "string \<Rightarrow> string option" where
  "sanitize_loop substr =
     (let cleaned = unnest substr;
          substr' = (if \<not> rx_found rexForInvalidVesStr cleaned then cleaned else substr)
      in if \<not> rx_found rexForRemainedNested cleaned then Some substr' else sanitize_loop substr')"

declare sanitize_loop.simps [code]

definition cd_sanitize :: "string \<Rightarrow> string option" where
  "cd_sanitize jsondata =
     (case rx_submatch rexForVes jsondata of
        None \<Rightarrow> Some jsondata
      | Some (_, sub) \<Rightarrow>
          (case sanitize_loop sub of
             None \<Rightarrow> None
           | Some substr \<Rightarrow>
               (let outp = ReplaceAllLiteralString rexForVes jsondata
                             ([quote] @ ''ves'' @ [quote] @ '':{'' @ substr @ ''}'')
                in Some (if \<not> rx_found rexForArray outp then ''['' @ outp @ '']'' else outp))))"

section \<open>When the loop ends\<close>

lemma unnest_eq: "unnest s = replace_all [backslash, quote] [quote] s"
  by (simp add: unnest_def rexForNestedQuote_def ReplaceAllLiteralString_literal del: list.map)

lemma length_replace_all:
  "length new \<le> length old \<Longrightarrow> length (replace_all old new s) \<le> length s"
proof (induction old new s rule: replace_all.induct)
  case (1 old new s)
  show ?case
  proof (cases "old = [] \<or> str_index old s = None")
    case True
    then show ?thesis by (auto simp: replace_all.simps [of old new s])
  next
    case False
    then obtain m where m: "old \<noteq> []" "str_index old s = Some m" by auto
    from "1.IH" [OF m] "1.prems" str_index_bound [OF m(2)] m show ?thesis
      by (simp add: replace_all.simps [of old new s])
  qed
qed

lemma length_replace_all_less:
  assumes "length new < length old" and "str_contains s old"
  shows "length (replace_all old new s) < length s"
proof -
  from assms obtain m where m: "str_index old s = Some m" by (auto simp: str_contains_def)
  have "old \<noteq> []" using assms(1) by auto
  with m assms(1) length_replace_all [of new old "drop (m + length old) s"] str_index_bound [OF m]
  show ?thesis by (simp add: replace_all.simps [of old new s])
qed

lemma str_contains_append: "str_contains (x @ sub @ y) sub"
proof (induction x)
  case Nil
  show ?case
  proof (cases "sub @ y")
    case (Cons c cs)
    then have "has_prefix (c # cs) sub" by (metis has_prefix_append)
    with Cons show ?thesis by (simp add: str_contains_def)
  qed (simp add: str_contains_def)
next
  case (Cons c x)
  then show ?case by (auto simp: str_contains_def)
qed

lemma remained_contains:
  assumes "rx_found rexForRemainedNested s"
  shows "str_contains s [backslash, quote]"
proof -
  from assms obtain x t y where s: "s = x @ t @ y" and "rx_lang rexForRemainedNested (length x) t y"
    unfolding rx_found_iff by blast
  then obtain t1 t2 where "t = t1 @ [backslash, backslash, quote] @ t2"
    unfolding rexForRemainedNested_def rx_lang_append rx_lang_literal by (metis append_assoc)
  with s have "s = x @ t1 @ [backslash, backslash, quote] @ t2 @ y" by simp
  then have "s = (x @ t1 @ [backslash]) @ [backslash, quote] @ (t2 @ y)" by simp
  then show ?thesis using str_contains_append by metis
qed

lemma unnest_shorter:
  assumes "rx_found rexForRemainedNested (unnest s)"
  shows "length (unnest s) < length s"
proof (cases "str_contains s [backslash, quote]")
  case True
  then show ?thesis by (simp add: unnest_eq length_replace_all_less)
next
  case False
  then have "unnest s = s" by (simp add: unnest_eq replace_all.simps [of _ _ s] str_contains_def)
  with remained_contains [OF assms] False show ?thesis by simp
qed

text \<open>The text after \<open>n\<close> rounds is stuck: it is not taken over, so that the next round meets it again.\<close>

definition stuck :: "string \<Rightarrow> bool" where
  "stuck cleaned \<longleftrightarrow> rx_found rexForRemainedNested cleaned \<and> rx_found rexForInvalidVesStr cleaned"

definition goes_on :: "string \<Rightarrow> bool" where
  "goes_on cleaned \<longleftrightarrow> rx_found rexForRemainedNested cleaned \<and> \<not> rx_found rexForInvalidVesStr cleaned"

lemma sanitize_loop_stuck:
  assumes "stuck (unnest s)"
  shows "sanitize_loop s = None"
proof (rule ccontr)
  assume "sanitize_loop s \<noteq> None"
  then obtain y where "sanitize_loop s = Some y" by blast
  then have "\<not> stuck (unnest s)"
    by (rule sanitize_loop.raw_induct [where P = "\<lambda>s y. \<not> stuck (unnest s)", rotated])
       (auto simp: Let_def stuck_def split: if_splits)
  with assms show False by simp
qed

lemma sanitize_loop_step:
  "\<not> stuck (unnest s) \<Longrightarrow>
     sanitize_loop s =
       (if goes_on (unnest s) then sanitize_loop (unnest s)
        else Some (if rx_found rexForInvalidVesStr (unnest s) then s else unnest s))"
  by (subst sanitize_loop.simps) (auto simp: stuck_def goes_on_def Let_def)

theorem sanitize_loop_None_iff:
  "sanitize_loop s = None \<longleftrightarrow>
     (\<exists>n. (\<forall>k < n. goes_on ((unnest ^^ Suc k) s)) \<and> stuck ((unnest ^^ Suc n) s))"
proof (induction "length s" arbitrary: s rule: less_induct)
  case less
  let ?P = "\<lambda>s n. (\<forall>k < n. goes_on ((unnest ^^ Suc k) s)) \<and> stuck ((unnest ^^ Suc n) s)"
  show ?case
  proof (cases "stuck (unnest s)")
    case True
    then have "?P s 0" by simp
    with True show ?thesis using sanitize_loop_stuck by blast
  next
    case ns: False
    show ?thesis
    proof (cases "goes_on (unnest s)")
      case False
      have "\<not> ?P s n" for n using ns False by (cases n) auto
      with ns False show ?thesis by (simp add: sanitize_loop_step)
    next
      case True
      then have "length (unnest s) < length s" by (simp add: unnest_shorter goes_on_def)
      from less.hyps [OF this] have IH: "sanitize_loop (unnest s) = None \<longleftrightarrow> (\<exists>n. ?P (unnest s) n)" .
      have shift: "?P s (Suc n) \<longleftrightarrow> ?P (unnest s) n" for n
        using True by (simp add: All_less_Suc2 funpow_swap1 del: funpow.simps) (simp add: funpow_swap1)
      have zero: "\<not> ?P s 0" using ns by simp
      have "(\<exists>n. ?P s n) \<longleftrightarrow> (\<exists>n. ?P s (Suc n))"
      proof
        assume "\<exists>n. ?P s n"
        then obtain n where n: "?P s n" by blast
        with zero have "n \<noteq> 0" by (cases n) blast+
        then obtain m where "n = Suc m" by (cases n) blast+
        with n show "\<exists>n. ?P s (Suc n)" by blast
      qed blast
      then have "(\<exists>n. ?P s n) \<longleftrightarrow> (\<exists>n. ?P (unnest s) n)" unfolding shift .
      with IH ns True show ?thesis by (simp add: sanitize_loop_step)
    qed
  qed
qed

text \<open>
  A well-formed message whose "ves" string holds one value with quotes that are quoted once and one
  with quotes that are quoted twice: in the third round the first is bare, which spoils the result,
  while the second still has backslashes.
\<close>

definition two_level_ves :: string where
  "two_level_ves =
     (let q1 = [backslash, quote];
          q2 = replicate 3 backslash @ [quote];
          q3 = replicate 7 backslash @ [quote]
      in q1 @ ''command'' @ q1 @ '':'' @ q1 @ ''echo '' @ q2 @ ''x'' @ q2 @ q1 @ '',''
         @ q1 @ ''output'' @ q1 @ '':'' @ q1 @ ''said '' @ q3 @ ''y'' @ q3 @ q1)"

definition two_level_message :: string where
  "two_level_message =
     ''{'' @ [quote] @ ''labels'' @ [quote] @ '':{},'' @ [quote] @ ''annotations'' @ [quote] @ '':{'' @ [quote]
     @ ''ves'' @ [quote] @ '':'' @ [quote] @ ''{'' @ two_level_ves @ ''}'' @ [quote] @ ''}}''"

section \<open>Properties\<close>

text \<open>
  C30: The clean-up of a collectd message returns if it has no "ves" string.  If it has one, it
  returns exactly if no round of the loop meets a text that still has a nested quote left and
  already has a quote too few: from such a text on, every round does the same.
\<close>

theorem collectd_sanitize_returns_iff:
  "cd_sanitize b \<noteq> None \<longleftrightarrow>
     (case rx_submatch rexForVes b of
        None \<Rightarrow> True
      | Some (_, sub) \<Rightarrow>
          \<not> (\<exists>n. (\<forall>k < n. goes_on ((unnest ^^ Suc k) sub)) \<and> stuck ((unnest ^^ Suc n) sub)))"
  by (auto simp: cd_sanitize_def Let_def sanitize_loop_None_iff [symmetric] simp del: funpow.simps
      split: option.split)

theorem collectd_sanitize_returns_iff_witness: "cd_sanitize two_level_message = None"
proof -
  have sub: "map_option snd (rx_submatch rexForVes two_level_message) = Some two_level_ves"
    by code_simp
  have stop: "goes_on (unnest two_level_ves)" "goes_on (unnest (unnest two_level_ves))"
    "stuck (unnest (unnest (unnest two_level_ves)))"
    by code_simp+
  have hang: "\<exists>n. (\<forall>k < n. goes_on ((unnest ^^ Suc k) two_level_ves)) \<and> stuck ((unnest ^^ Suc n) two_level_ves)"
    by (rule exI [of _ 2]) (use stop in \<open>simp add: numeral_2_eq_2 All_less_Suc2\<close>)
  from sub obtain a where "rx_submatch rexForVes two_level_message = Some (a, two_level_ves)" by auto
  with hang collectd_sanitize_returns_iff [of two_level_message] show ?thesis
    by (simp only: option.case prod.case) blast
qed

end
