(* ===== verification/EventSource.thy ===== *)
theory EventSource
  imports CollectdSanitize
begin

text \<open>
  How the events handler recognizes the source of a message
  (\<open>plugins/handler/events/pkg/lib/source.go\<close>): regular expressions that look for the fields of a
  ceilometer and of a collectd message.
\<close>

section \<open>The expressions\<close>

abbreviation blanks :: rx_item where
  "blanks \<equiv> Many Blank"

definition rexForOsloMessage :: regexp where
  "rexForOsloMessage =
     [backslashes] @ literal [quote] @ literal ''oslo'' @ [One Any] @ literal ''message'' @ [backslashes]
     @ literal [quote] @ [blanks] @ literal '':'' @ [blanks, backslashes] @ literal [quote]
     @ [Paren] @ literal ''{'' @ [Many Any] @ literal ''}'' @ [Paren] @ [backslashes] @ literal [quote]"

definition rexForPayload :: regexp where
  "rexForPayload =
     some_of (Only [backslash]) @ literal [quote] @ literal ''payload'' @ some_of (Only [backslash])
     @ literal [quote] @ [blanks] @ literal '':'' @ [blanks] @ literal ''['' @ [Paren, Many Any, Paren]
     @ literal '']''"

definition rexForEventType :: regexp where
  "rexForEventType =
     some_of (Only [backslash]) @ literal [quote] @ literal ''event_type'' @ some_of (Only [backslash])
     @ literal [quote] @ [blanks] @ literal '':'' @ [blanks, backslashes] @ literal [quote]"

text \<open>Between the name of the field and its brace these allow a word character, not a blank.\<close>

definition rexForField :: "string \<Rightarrow> regexp" where
  "rexForField name =
     [Maybe (Only [backslash])] @ literal [quote] @ literal name @ [Maybe (Only [backslash])]
     @ literal [quote] @ [Maybe Word_Char] @ literal '':'' @ [Maybe Word_Char] @ literal ''{''"

definition rexForLabelsField :: regexp where
  "rexForLabelsField = rexForField ''labels''"

definition rexForAnnotationField :: regexp where
  "rexForAnnotationField = rexForField ''annotations''"

definition recognizeCeilometer :: "string \<Rightarrow> bool" where
  "recognizeCeilometer jsondata \<longleftrightarrow>
     rx_found rexForOsloMessage jsondata \<and> rx_found rexForEventType jsondata \<and> rx_found rexForPayload jsondata"

definition recognizeCollectd :: "string \<Rightarrow> bool" where
  "recognizeCollectd jsondata \<longleftrightarrow>
     rx_found rexForLabelsField jsondata \<and> rx_found rexForAnnotationField jsondata"

section \<open>What they recognize\<close>

text \<open>
  A field as the collectd recognizer wants it: its name in quotes, the second possibly behind a
  backslash, a colon and a brace, with at most one word character before and after the colon.
\<close>

definition has_field :: "string \<Rightarrow> string \<Rightarrow> bool" where
  "has_field name s \<longleftrightarrow>
     (\<exists>x q v w y. s = x @ [quote] @ name @ q @ [quote] @ v @ '':'' @ w @ ''{'' @ y
        \<and> q \<in> {[], [backslash]} \<and> list_all (in_class Word_Char) (v @ w) \<and> length v \<le> 1 \<and> length w \<le> 1)"

lemma short_list: "list_all (in_class (Only [c])) q \<and> length q \<le> 1 \<longleftrightarrow> q \<in> {[], [c]}"
  by (cases q) auto

lemma rx_lang_Maybe:
  "rx_lang [Maybe k] p t u \<longleftrightarrow> list_all (in_class k) t \<and> length t \<le> 1"
  by (auto simp: rx_lang_simps)

lemma rexForField_found: "rx_found (rexForField name) s \<longleftrightarrow> has_field name s"
proof
  assume "rx_found (rexForField name) s"
  then obtain x t y where s: "s = x @ t @ y" and "rx_lang (rexForField name) (length x) t y"
    unfolding rx_found_iff by blast
  then obtain b q v w where "t = b @ [quote] @ name @ q @ [quote] @ v @ '':'' @ w @ ''{''"
    "list_all (in_class (Only [backslash])) q \<and> length q \<le> 1"
    "list_all (in_class Word_Char) v \<and> length v \<le> 1" "list_all (in_class Word_Char) w \<and> length w \<le> 1"
    unfolding rexForField_def rx_lang_append rx_lang_literal rx_lang_Maybe by (metis append_assoc)
  with s show "has_field name s"
    unfolding has_field_def short_list
    by (intro exI [of _ "x @ b"] exI [of _ q] exI [of _ v] exI [of _ w] exI [of _ y]) simp
next
  assume "has_field name s"
  then obtain x q v w y where s: "s = x @ [quote] @ name @ q @ [quote] @ v @ '':'' @ w @ ''{'' @ y"
    and q: "q \<in> {[], [backslash]}" and vw: "list_all (in_class Word_Char) (v @ w)" "length v \<le> 1" "length w \<le> 1"
    unfolding has_field_def by blast
  from q vw have ok: "list_all (in_class (Only [backslash])) q" "length q \<le> Suc 0"
    "list_all (in_class Word_Char) v" "length v \<le> Suc 0" "list_all (in_class Word_Char) w" "length w \<le> Suc 0"
    by auto
  have "rx_lang (rexForField name) (length x) ([] @ [quote] @ name @ q @ [quote] @ v @ '':'' @ w @ ''{'') y"
    unfolding rexForField_def
    by ((rule rx_lang_appendI, (simp add: rx_lang_Maybe ok del: list.map)[1])+, simp del: list.map)
  with s show "rx_found (rexForField name) s"
    unfolding rx_found_iff
    by (intro exI [of _ x] exI [of _ "[] @ [quote] @ name @ q @ [quote] @ v @ '':'' @ w @ ''{''"] exI [of _ y]) simp
qed

text \<open>
  C31: A message is taken for a collectd event exactly if it has both fields.
\<close>

theorem collectd_recognized_iff:
  "recognizeCollectd b \<longleftrightarrow> has_field ''labels'' b \<and> has_field ''annotations'' b"
  by (simp add: recognizeCollectd_def rexForLabelsField_def rexForAnnotationField_def rexForField_found)

end
