(* ===== verification/DummyTransports.thy ===== *)
theory DummyTransports
  imports CollectdMetrics EventSource
begin

text \<open>
  The transports that make up their messages (\<open>plugins/transport/dummy-metrics\<close>, \<open>dummy-events\<close>,
  \<open>dummy-logs\<close>), used to try out an installation without a source of telemetry.  A run is the list of blobs written; the clock, the
  random numbers and the JSON encoder are arguments.
\<close>

text \<open>
  Go string literals: a tilde stands for a double quote, a caret for a backslash, a backquote for a
  single quote (none of the three characters occurs in the texts below).
\<close>

definition go_text :: "string \<Rightarrow> string" where
  "go_text s =
     map (\<lambda>c. if c = CHR ''~'' then quote else if c = CHR ''^'' then backslash
              else if c = CHR 0x60 then CHR 0x27 else c) s"

section \<open>Metrics\<close>

record dm_metric =
  dmValues :: "float64 list"
  dmDstypes :: "string list"
  dmDsnames :: "string list"
  dmTime :: float64
  dmInterval :: float64
  dmHost :: string
  dmPlugin :: string
  dmPluginInstance :: string
  dmType :: string
  dmTypeInstance :: string

text \<open>The configuration of the metric and of the event transport; the interval is in seconds.\<close>

record dummy_conf =
  dCeilometer :: bool
  dCollectd :: bool
  dInterval :: int64

definition default_dummy_conf :: dummy_conf where
  "default_dummy_conf = \<lparr>dCeilometer = True, dCollectd = True, dInterval = 1\<rparr>"

text \<open>\<open>Config\<close>, with the configuration \<open>ParseConfig\<close> leaves and its error.\<close>

definition dummy_Config ::
  "(dummy_conf \<Rightarrow> dummy_conf \<times> string option) \<Rightarrow> dummy_conf \<times> string option" where
  "dummy_Config ParseConfig = ParseConfig default_dummy_conf"

definition ceilometerMessage :: string where
  "ceilometerMessage =
     go_text (''{~request~: {~oslo.version~: ~2.0~, ~oslo.message~: ~{^~message_id^~: ^~b6f21ada-8465-49b8-9''
        @ ''af2-fbf4c0ec1dbe^~, ^~publisher_id^~: ^~telemetry.publisher.controller-0.redhat.local^~, ^~e''
        @ ''vent_type^~: ^~metering^~, ^~priority^~: ^~SAMPLE^~, ^~payload^~: [{^~source^~: ^~openstack^''
        @ ''~, ^~counter_name^~: ^~cpu^~, ^~counter_type^~: ^~cumulative^~, ^~counter_unit^~: ^~ns^~, ^~''
        @ ''counter_volume^~: 347670000000, ^~user_id^~: ^~581d4d733fad4baebd0edecb5dc6b889^~, ^~project''
        @ ''_id^~: ^~40390761eaf7414c8125917efc21024c^~, ^~resource_id^~: ^~db4aee71-6c98-4505-bdf2-36d9''
        @ ''87e32be7^~, ^~timestamp^~: ^~2021-02-10T03:50:41.471813^~, ^~resource_metadata^~: {^~display''
        @ ''_name^~: ^~RED^~, ^~name^~: ^~instance-00000004^~, ^~instance_id^~: ^~db4aee71-6c98-4505-bdf''
        @ ''2-36d987e32be7^~, ^~instance_type^~: ^~m1.tiny^~, ^~host^~: ^~fad58495f1d0d88347ebef0a41f13c''
        @ ''81081f1454ac3ff61c711144d5^~, ^~instance_host^~: ^~compute-0.redhat.local^~, ^~flavor^~: {^~''
        @ ''id^~: ^~beeaf8e5-2bda-4b3c-88ad-cf41ad4df149^~, ^~name^~: ^~m1.tiny^~, ^~vcpus^~: 2, ^~ram^~''
        @ '': 512, ^~disk^~: 1, ^~ephemeral^~: 0, ^~swap^~: 0}, ^~status^~: ^~active^~, ^~state^~: ^~run''
        @ ''ning^~, ^~task_state^~: ^~^~, ^~image^~: null, ^~image_ref^~: null, ^~image_ref_url^~: null,''
        @ '' ^~architecture^~: ^~x86_64^~, ^~os_type^~: ^~hvm^~, ^~vcpus^~: 2, ^~memory_mb^~: 512, ^~dis''
        @ ''k_gb^~: 1, ^~ephemeral_gb^~: 0, ^~root_gb^~: 1, ^~cpu_number^~: 2}, ^~message_id^~: ^~252866''
        @ ''14-6b53-11eb-8d3e-525400c5aaec^~, ^~monotonic_time^~: null, ^~message_signature^~: ^~2acacbd''
        @ ''9c515743bdde5ba54a4ed42d3ecd63573aa1a00faacabecf720123d3f^~}], ^~timestamp^~: ^~2021-02-11 2''
        @ ''1:43:11.180978^~}~}, ~context~: {}}'')"

text \<open>
  \<open>rnd\<close> are the four random numbers between 0 and 1, \<open>now1\<close> and \<open>now2\<close> the seconds of the two calls
  of \<open>time.Now\<close>.
\<close>

definition dummy_metric :: "float64 \<Rightarrow> float64 \<Rightarrow> string \<Rightarrow> string \<Rightarrow> int64 \<Rightarrow> dm_metric" where
  "dummy_metric r1 r2 n1 n2 now =
     \<lparr>dmValues = [r1 * 1000, r2 * 10000], dmDstypes = [''derive'', ''counter''], dmDsnames = [n1, n2],
      dmTime = f64_of_int now, dmInterval = 5, dmHost = ''controller-0.redhat.local'', dmPlugin = ''virt'',
      dmPluginInstance = ''asdf'', dmType = ''if_packets'', dmTypeInstance = ''tap73125d-60''\<rparr>"

definition dummy_metrics :: "float64 \<times> float64 \<times> float64 \<times> float64 \<Rightarrow> int64 \<times> int64 \<Rightarrow> dm_metric list" where
  "dummy_metrics rnd now =
     (let (r1, r2, r3, r4) = rnd; (now1, now2) = now
      in [dummy_metric r1 r2 ''rx'' ''tx'' now1, dummy_metric r3 r4 ''in'' ''out'' now2])"

text \<open>A failed \<open>json.Marshal\<close> gives nil bytes, and its error is not looked at.\<close>

definition genCollectdMessage ::
  "(dm_metric list \<Rightarrow> string option) \<Rightarrow> float64 \<times> float64 \<times> float64 \<times> float64 \<Rightarrow> int64 \<times> int64 \<Rightarrow> string" where
  "genCollectdMessage marshal rnd now = (case marshal (dummy_metrics rnd now) of Some s \<Rightarrow> s | None \<Rightarrow> [])"

definition dm_tick ::
  "(dm_metric list \<Rightarrow> string option) \<Rightarrow> dummy_conf
     \<Rightarrow> (float64 \<times> float64 \<times> float64 \<times> float64) \<times> (int64 \<times> int64) \<Rightarrow> string list" where
  "dm_tick marshal c env =
     (if dCeilometer c then [ceilometerMessage] else [])
     @ (if dCollectd c then [genCollectdMessage marshal (fst env) (snd env)] else [])"

text \<open>\<open>Run\<close> until the context is done: one element of \<open>envs\<close> per interval that passed before.\<close>

definition dm_Run ::
  "(dm_metric list \<Rightarrow> string option) \<Rightarrow> dummy_conf
     \<Rightarrow> ((float64 \<times> float64 \<times> float64 \<times> float64) \<times> (int64 \<times> int64)) list \<Rightarrow> string list" where
  "dm_Run marshal c envs = concat (map (dm_tick marshal c) envs)"

section \<open>Events\<close>

definition eventMessages :: "string list" where
  "eventMessages =
     [go_text (''{~request~:{~oslo.version~:~2.0~,~oslo.message~:''
        @ ''~{^~message_id^~:^~4c9fbb58-c82d-4ca5-9f4c-2c61d0693214^~,^~publisher_id^~:^~telemetry.publi''
        @ ''sher.controller-0.redhat.local^~,''
        @ ''^~event_type^~:^~event^~,^~priority^~:^~SAMPLE^~,^~payload^~:[{^~message_id^~:^~084c0bca-0d1''
        @ ''9-40c0-a724-9916e4815845^~,''
        @ ''^~event_type^~:^~image.delete^~,^~generated^~:^~2020-03-06T14:13:29.497096^~,^~traits^~:[[^~''
        @ ''service^~,1,^~image.localhost^~],''
        @ ''[^~project_id^~,1,^~0f500647077b47f08a8ca9181e9b7aef^~],[^~user_id^~,1,^~0f500647077b47f08a8''
        @ ''ca9181e9b7aef^~],''
        @ ''[^~resource_id^~,1,^~c4f7e00b-df85-4b77-9e1a-26a1de4d5735^~],[^~name^~,1,^~cirros^~],[^~stat''
        @ ''us^~,1,^~deleted^~],''
        @ ''[^~created_at^~,4,^~2020-03-06T14:01:07^~],[^~deleted_at^~,4,^~2020-03-06T14:13:29^~],[^~siz''
        @ ''e^~,2,13287936]],^~raw^~:{},''
        @ ''^~message_signature^~:^~77e798b842991f9c0c35bda265fdf86075b4a1e58309db1d2adbf89386a3859e^~}]''
        @ '',''
        @ ''^~timestamp^~:^~2020-03-06 14:13:30.057411^~}~},~context~: {}}}''),
      go_text (''[{~labels~:{~alertname~:~collectd_connectivity_gauge~,~instance~:~d60b3c68f23e~,~connectivit''
        @ ''y~:~eno2~,''
        @ ''~type~:~interface_status~,~severity~:~FAILURE~,~service~:~collectd~},~annotations~:{~summary''
        @ ''~:~~,''
        @ ''~ves~:~{^~domain^~:^~stateChange^~,^~eventId^~:2,^~eventName^~:^~interface eno2 up^~,''
        @ ''^~lastEpochMicrosec^~:1518790014024924,^~priority^~:^~high^~,^~reportingEntityName^~:^~colle''
        @ ''ctd connectivity plugin^~,''
        @ ''^~sequence^~:0,^~sourceName^~:^~eno2^~,^~startEpochMicrosec^~:1518790009881440,^~version^~:1''
        @ ''.0,''
        @ ''^~stateChangeFields^~:{^~newState^~:^~outOfService^~,^~oldState^~:^~inService^~,^~stateChang''
        @ ''eFieldsVersion^~:1.0,''
        @ ''^~stateInterface^~:^~eno2^~}}~},~startsAt~:~2018-02-16T14:06:54.024856417Z~}]''),
      go_text (''[{~labels~:{~alertname~:~collectd_procevent_gauge~,~instance~:~d60b3c68f23e~,~procevent~:~bl''
        @ ''a.py~,~type~:~process_status~,''
        @ ''~severity~:~FAILURE~,~service~:~collectd~},~annotations~:{~summary~:~~,~ves~:~{^~domain^~:^~''
        @ ''fault^~,''
        @ ''^~eventId^~:3,^~eventName^~:^~process bla.py (8537) down^~,^~lastEpochMicrosec^~:15187911195''
        @ ''79620,''
        @ ''^~priority^~:^~high^~,^~reportingEntityName^~:^~collectd procevent plugin^~,^~sequence^~:0,''
        @ ''^~sourceName^~:^~bla.py^~,^~startEpochMicrosec^~:1518791111336973,^~version^~:1.0,^~faultFie''
        @ ''lds^~:{''
        @ ''^~alarmCondition^~:^~process bla.py (8537) state change^~,^~alarmInterfaceA^~:^~bla.py^~,''
        @ ''^~eventSeverity^~:^~CRITICAL^~,^~eventSourceType^~:^~process^~,^~faultFieldsVersion^~:1.0,''
        @ ''^~specificProblem^~:^~process bla.py (8537) down^~,^~vfStatus^~:^~Ready to terminate^~}}~},''
        @ ''~startsAt~:~2018-02-16T14:25:19.579573212Z~}]''),
      go_text (''[{~labels~:{~alertname~:~collectd_interface_if_octets~,~instance~:~localhost.localdomain~,~i''
        @ ''nterface~:~lo~,~severity~:~FAILURE~,''
        @ ''~service~:~collectd~},~annotations~:{~summary~:~Host localhost.localdomain, plugin interface''
        @ '' (instance lo) type if_octets: ''
        @ ''Data source ^~rx^~ is currently 43596.224329. That is above the failure threshold of 0.00000''
        @ ''0.~,~DataSource~:~rx~,''
        @ ''~CurrentValue~:~43596.2243286703~,~WarningMin~:~nan~,~WarningMax~:~nan~,~FailureMin~:~nan~,~''
        @ ''FailureMax~:~0~},''
        @ ''~startsAt~:~2019-09-18T21:11:19.281603240Z~}]''),
      go_text (''[{~labels~:{~alertname~:~collectd_ovs_events_gauge~,~instance~:~nfvha-comp-03~,~ovs_events~:''
        @ ''~br0~,~type~:~link_status~,~severity~:~OKAY~,''
        @ ''~service~:~collectd~},~annotations~:{~summary~:~link state of ^~br0^~ interface has been cha''
        @ ''nged to ^~UP^~~,''
        @ ''~uuid~:~c52f2aca-3cb1-48e3-bba3-100b54303d84~},~startsAt~:~2018-02-22T20:12:19.547955618Z~}]''),
      go_text (''{~labels~:{~check~:~elastic-check~,~client~:~wubba.lubba.dub.dub.redhat.com~,~severity~:~FAI''
        @ ''LURE~},~annotations~:''
        @ ''{~command~:~podman ps | grep elastic || exit 2~,~duration~:0.043278607,~executed~:1601900769''
        @ '',~issued~:1601900769,''
        @ ''~output~:~time=^~2020-10-05T14:26:09+02:00^~ level=error msg=^~cannot mkdir /run/user/0/libp''
        @ ''od: mkdir /run/user/0/libpod: permission denied^~^n~,''
        @ ''~status~:2,~ves~:~{^~commonEventHeader^~:{^~domain^~:^~heartbeat^~,^~eventType^~:^~checkResu''
        @ ''lt^~,''
        @ ''^~eventId^~:^~wubba.lubba.dub.dub.redhat.com-elastic-check^~,^~priority^~:^~High^~,^~reporti''
        @ ''ngEntityId^~:^~918e8d04-c5ae-4e20-a763-8eb4f1af7c80^~,''
        @ ''^~reportingEntityName^~:^~wubba.lubba.dub.dub.redhat.com^~,^~sourceId^~:^~918e8d04-c5ae-4e20''
        @ ''-a763-8eb4f1af7c80^~,''
        @ ''^~sourceName^~:^~wubba.lubba.dub.dub.redhat.com-collectd-sensubility^~,^~startingEpochMicros''
        @ ''ec^~:1601900769,^~lastEpochMicrosec^~:1601900769},''
        @ ''^~heartbeatFields^~:{^~additionalFields^~:{^~check^~:^~elastic-check^~,^~command^~:^~podman ''
        @ ''ps | grep elastic || exit 2 || $0^~,''
        @ ''^~duration^~:^~0.043279^~,^~executed^~:^~1601900769^~,^~issued^~:^~1601900769^~,^~output^~:^''
        @ ''~time=^^^~2020-10-05T14:26:09+02:00^^^~ ''
        @ ''level=error msg=^^^~cannot mkdir /run/user/0/libpod: mkdir /run/user/0/libpod: permission de''
        @ ''nied^^^~^^n^~,^~status^~:^~2^~}}}~},''
        @ ''~startsAt~:~2020-10-05T14:26:09+02:00~}'')]"

definition de_tick :: "dummy_conf \<Rightarrow> string list" where
  "de_tick c =
     (if dCeilometer c then [eventMessages ! 0] else []) @ (if dCollectd c then drop 1 eventMessages else [])"

definition de_Run :: "dummy_conf \<Rightarrow> nat \<Rightarrow> string list" where
  "de_Run c intervals = concat (replicate intervals (de_tick c))"

definition de_Config :: "(dummy_conf \<Rightarrow> dummy_conf \<times> string option) \<Rightarrow> dummy_conf \<times> string option" where
  "de_Config ParseConfig = ParseConfig \<lparr>dCeilometer = True, dCollectd = True, dInterval = 1\<rparr>"

section \<open>Logs\<close>

definition logMessages :: "string list" where
  "logMessages =
     [go_text (''~, ~host~:~localhost~, ~severity~:~7~, ~facility~:~daemon~, ~tag~:~rtkit-daemon[734691]:~, ~''
        @ ''source~:~rtkit-daemon~, ~message~:~Supervising 0 threads of 0 processes of 0 users.~, ~file~''
        @ '':~~, ~cloud~: ~cloud1~, ~region~: ~<region-name>~}''),
      go_text (''~, ~host~:~localhost~, ~severity~:~5~, ~facility~:~user~, ~tag~:~python3[804440]:~, ~source~''
        @ '':~python3~, ~message~:~detected unhandled Python exception in `interactive mode (python -c .''
        @ ''..)`~, ~file~:~~, ~cloud~: ~cloud1~, ~region~: ~<region-name>~}''),
      go_text (''~, ~host~:~localhost~, ~severity~:~1~, ~facility~:~authpriv~, ~tag~:~sudo[803493]:~, ~source''
        @ ''~:~sudo~, ~message~:~   jarda : 1 incorrect password attempt ; TTY=pts^/1 ; PWD=^/home^/jard''
        @ ''a^/go^/src^/github.com^/vyzigold^/sg-core^/plugins^/application^/loki ; USER=root ; COMMAND=''
        @ ''^/usr^/bin^/ls~, ~file~:~~, ~cloud~: ~cloud1~, ~region~: ~<region-name>~}'')]"

text \<open>
  The loop over the endings, started over and over: \<open>stamps\<close> are the texts of the time stamps, \<open>None\<close>
  where \<open>MarshalText\<close> fails, which skips an ending; after the last of them the context is done.
\<close>

fun dl_loop :: "string option list \<Rightarrow> nat \<Rightarrow> string list" where
  "dl_loop [] i = []"
| "dl_loop (t # stamps) i =
     (case t of
        None \<Rightarrow> dl_loop stamps ((i + 1) mod length logMessages)
      | Some timestamp \<Rightarrow>
          (''{'' @ [quote] @ ''@timestamp'' @ [quote] @ '':'' @ [quote] @ timestamp @ logMessages ! i)
          # dl_loop stamps ((i + 1) mod length logMessages))"

definition dl_Run :: "string option list \<Rightarrow> string list" where
  "dl_Run stamps = dl_loop stamps 0"

section \<open>The metrics handler understands the messages\<close>

text \<open>What a decoder makes of an encoded metric; \<open>cdtime\<close> reads the time.\<close>

definition cd_of_dm :: "(float64 \<Rightarrow> uint64) \<Rightarrow> dm_metric \<Rightarrow> cd_metric" where
  "cd_of_dm cdtime m =
     \<lparr>cdValues = Some (dmValues m), cdDstypes = Some (dmDstypes m), cdDsnames = Some (dmDsnames m),
      cdTime = cdtime (dmTime m), cdInterval = dmInterval m, cdHost = dmHost m, cdPlugin = dmPlugin m,
      cdPluginInstance = dmPluginInstance m, cdType = dmType m, cdTypeInstance = dmTypeInstance m\<rparr>"

lemma dummy_metric_valid:
  "validateMetric (cd_of_dm t (dummy_metric r1 r2 n1 n2 now))"
  "cd_in_bounds (cd_of_dm t (dummy_metric r1 r2 n1 n2 now))"
  by (simp_all add: validateMetric_iff cd_in_bounds_def cd_of_dm_def dummy_metric_def slice_of_def)

lemma dummy_metric_outputs:
  "cd_spec_outputs cf ae r (cd_of_dm t (dummy_metric r1 r2 n1 n2 now)) =
     [Publish_Metric (cd_spec_metric cf (cd_of_dm t (dummy_metric r1 r2 n1 n2 now)) 0),
      Publish_Metric (cd_spec_metric cf (cd_of_dm t (dummy_metric r1 r2 n1 n2 now)) 1)]"
  using dummy_metric_valid(1) [of t r1 r2 n1 n2 now]
  by (simp add: cd_spec_outputs_def cd_of_dm_def dummy_metric_def slice_of_def)

text \<open>
  If the decoder of the handler reads what the encoder of the transport writes, the handler
  publishes the four counters of a message of the transport and reports no error.
\<close>

theorem dummy_metrics_published:
  assumes "marshal (dummy_metrics rnd now) = Some s"
    and "parse s = Inr (map (cd_of_dm cdtime) (dummy_metrics rnd now))"
  shows "\<exists>c' outs. cd_Handle parse cf ae c (genCollectdMessage marshal rnd now) report = Inr (c', outs, None)
    \<and> map mName (metrics_of outs) =
        [''collectd_virt_if_packets_rx_total'', ''collectd_virt_if_packets_tx_total'',
         ''collectd_virt_if_packets_in_total'', ''collectd_virt_if_packets_out_total'']
    \<and> list_all (\<lambda>m. mType m = COUNTER \<and> mInterval m = 5 * time_Second) (metrics_of outs)
    \<and> length outs = 4 \<and> cdMetricsDecoded c' = cdMetricsDecoded c + 4"
proof -
  obtain r1 r2 r3 r4 now1 now2 where e: "rnd = (r1, r2, r3, r4)" "now = (now1, now2)"
    by (cases rnd, cases now) auto
  let ?ms = "map (cd_of_dm cdtime) (dummy_metrics rnd now)"
  have ms: "?ms = [cd_of_dm cdtime (dummy_metric r1 r2 ''rx'' ''tx'' now1),
                   cd_of_dm cdtime (dummy_metric r3 r4 ''in'' ''out'' now2)]"
    by (simp add: e dummy_metrics_def)
  have "m \<in> set ?ms \<Longrightarrow> cd_in_bounds m" for m using ms dummy_metric_valid(2) by auto
  then have ok: "\<And>m. m \<in> set ?ms \<Longrightarrow> validateMetric m \<Longrightarrow> cd_in_bounds m" by blast
  have n: "(\<Sum>m\<leftarrow>filter validateMetric ?ms. length (slice_of (cdDsnames m))) = 4"
    unfolding ms by (simp add: dummy_metric_valid) (simp add: cd_of_dm_def dummy_metric_def slice_of_def)
  let ?c = "c\<lparr>cdMessagesReceived := cdMessagesReceived c + 1\<rparr>"
  let ?outs = "concat (map (cd_spec_outputs cf ae report) ?ms)"
  from cd_handle_loop [where ms = ?ms and cf = cf and ae = ae and r = report and c = ?c and outs = "[]", OF ok]
    n assms obtain c' where
    "cd_Handle parse cf ae c (genCollectdMessage marshal rnd now) report = Inr (c', ?outs, None)"
    "cdMetricsDecoded c' = cdMetricsDecoded c + 4"
    by (simp add: cd_Handle_def genCollectdMessage_def)
  moreover have "wrap64 (5 * time_Second) = 5 * time_Second" "int64_of_f64 5 = 5"
    by (simp_all add: time_Second_def wrap64_id is_int64_def int64_of_f64_def)
  then have "map mName (metrics_of ?outs) =
        [''collectd_virt_if_packets_rx_total'', ''collectd_virt_if_packets_tx_total'',
         ''collectd_virt_if_packets_in_total'', ''collectd_virt_if_packets_out_total'']
    \<and> list_all (\<lambda>m. mType m = COUNTER \<and> mInterval m = 5 * time_Second) (metrics_of ?outs) \<and> length ?outs = 4"
    unfolding ms
    by (simp add: dummy_metric_outputs)
       (simp add: cd_spec_metric_def cd_of_dm_def dummy_metric_def slice_of_def cd_name_suffix_def
          strToMetricType_def Let_def)
  ultimately show ?thesis by (elim conjE, intro exI [of _ c'] exI [of _ ?outs] conjI)
qed

end
