(* ===== verification/EventParsers.thy ===== *)
theory EventParsers
  imports Handler GoTime CollectdSanitize
begin

text \<open>
  The parsers of the events handler: ceilometer events
  (\<open>plugins/handler/events/ceilometer/ceilometer.go\<close>) and collectd events
  (\<open>plugins/handler/events/collectd/collectd.go\<close>).  The JSON decoders, the formatting of a value
  in an error text and the map merge of \<open>apputils\<close> are parameters.
\<close>

section \<open>Ceilometer\<close>

record oslo_payload =
  opMessageID :: string
  opEventType :: string
  opGenerated :: string
  opTraits :: "ivalue list"

record oslo_message =
  omEventType :: string
  omPublisherID :: string
  omTimestamp :: string
  omPriority :: string
  omPayload :: "oslo_payload list"

definition ceilometerAlertSeverity :: "string \<Rightarrow> event_severity option" where
  "ceilometerAlertSeverity =
     map_of [(''audit'', INFO), (''info'', INFO), (''sample'', INFO), (''warn'', WARNING),
             (''warning'', WARNING), (''critical'', CRITICAL), (''error'', CRITICAL), (''AUDIT'', INFO),
             (''INFO'', INFO), (''SAMPLE'', INFO), (''WARN'', WARNING), (''WARNING'', WARNING),
             (''CRITICAL'', CRITICAL), (''ERROR'', CRITICAL)]"

text \<open>A priority that is not in the table gives the zero value of the severities.\<close>

definition ceilometer_severity :: "string \<Rightarrow> event_severity" where
  "ceilometer_severity priority =
     (case ceilometerAlertSeverity priority of Some s \<Rightarrow> s | None \<Rightarrow> UNKNOWN)"

text \<open>\<open>sanitizeMessage\<close>: every escaped quote loses its backslash.\<close>

definition sanitizeMessage :: "string \<Rightarrow> string" where
  "sanitizeMessage s = replace_all [CHR 0x5C, CHR 0x22] [CHR 0x22] s"

definition invalid_trait :: "(ivalue \<Rightarrow> string) \<Rightarrow> ivalue \<Rightarrow> string" where
  "invalid_trait format_v v = ''parsed invalid trait in event: '' @ [CHR 39] @ format_v v @ [CHR 39]"

text \<open>One trait, a list of name, type and value; the assertions on name and value panic.\<close>

definition format_trait ::
  "(ivalue \<Rightarrow> string) \<Rightarrow> (string, ivalue) gomap \<Rightarrow> ivalue \<Rightarrow> (string + (string, ivalue) gomap) go" where
  "format_trait format_v traits v =
     (case v of
        IList [n, t, x] \<Rightarrow>
          (case t of
             IFloat ty \<Rightarrow>
               go_bind (assert_string n) (\<lambda>name.
                 if ty = 2 then go_bind (assert_float x) (\<lambda>f. Inr (Inr (AList.update name (IFloat f) traits)))
                 else go_bind (assert_string x) (\<lambda>s. Inr (Inr (AList.update name (IString s) traits))))
           | _ \<Rightarrow> Inr (Inl (invalid_trait format_v v)))
      | _ \<Rightarrow> Inr (Inl (invalid_trait format_v v)))"

fun traits_loop ::
  "(ivalue \<Rightarrow> string) \<Rightarrow> ivalue list \<Rightarrow> (string, ivalue) gomap \<Rightarrow> (string + (string, ivalue) gomap) go" where
  "traits_loop format_v [] traits = Inr (Inr traits)"
| "traits_loop format_v (v # vs) traits =
     (case format_trait format_v traits v of
        Inl p \<Rightarrow> Inl p
      | Inr (Inl err) \<Rightarrow> Inr (Inl err)
      | Inr (Inr traits') \<Rightarrow> traits_loop format_v vs traits')"

definition traitsFormatted :: "(ivalue \<Rightarrow> string) \<Rightarrow> oslo_payload \<Rightarrow> (string + (string, ivalue) gomap) go" where
  "traitsFormatted format_v op = traits_loop format_v (opTraits op) []"

definition buildName :: "string \<Rightarrow> string" where
  "buildName eventType =
     (let etParts = str_split ''.'' eventType;
          output1 = (if length etParts > 1 then join ''_'' (take (length etParts - 1) etParts) else eventType);
          output2 = replace_all ''-'' ''_'' output1
      in if \<not> has_prefix output2 ''ceilometer_'' then ''ceilometer_'' @ output2 else output2)"

definition ceil_event_name :: "oslo_message \<Rightarrow> oslo_payload \<Rightarrow> string" where
  "ceil_event_name om op =
     (if opEventType op \<noteq> [] then buildName (opEventType op)
      else if omEventType om \<noteq> [] then buildName (omEventType om)
      else buildName ''ceilometer_generic'')"

definition getTimeAsEpoch :: "time_parser \<Rightarrow> oslo_message \<Rightarrow> oslo_payload \<Rightarrow> float64" where
  "getTimeAsEpoch time_Parse om op =
     (if opGenerated op \<noteq> [] then f64_of_int (EpochFromFormat time_Parse (opGenerated op))
      else if omTimestamp om \<noteq> [] then f64_of_int (EpochFromFormat time_Parse (omTimestamp om))
      else 0)"

definition ceil_event ::
  "time_parser \<Rightarrow> oslo_message \<Rightarrow> oslo_payload \<Rightarrow> (string, ivalue) gomap \<Rightarrow> event" where
  "ceil_event time_Parse om op traits =
     \<lparr>eIndex = ceil_event_name om op, eTime = getTimeAsEpoch time_Parse om op, eType = EVENT,
      ePublisher = omPublisherID om, eSeverity = ceilometer_severity (omPriority om),
      eLabels = traits,
      eAnnotations = [(''source_type'', IString ''ceilometer''), (''processed_by'', IString ''sg'')],
      eMessage = []\<rparr>"

text \<open>\<open>PublishEvents\<close>: the events before the first payload with an invalid trait, and its error.\<close>

fun ceil_publish ::
  "(ivalue \<Rightarrow> string) \<Rightarrow> time_parser \<Rightarrow> oslo_message \<Rightarrow> oslo_payload list \<Rightarrow> (event list \<times> string option) go" where
  "ceil_publish format_v time_Parse om [] = Inr ([], None)"
| "ceil_publish format_v time_Parse om (op # ops) =
     (case traitsFormatted format_v op of
        Inl p \<Rightarrow> Inl p
      | Inr (Inl err) \<Rightarrow> Inr ([], Some err)
      | Inr (Inr traits) \<Rightarrow>
          (case ceil_publish format_v time_Parse om ops of
             Inl p \<Rightarrow> Inl p
           | Inr (evs, err) \<Rightarrow> Inr (ceil_event time_Parse om op traits # evs, err)))"

text \<open>\<open>Parse\<close>: the message inside the request, unquoted and decoded.\<close>

definition ceilo_Parse ::
  "(blob \<Rightarrow> string + string) \<Rightarrow> (string \<Rightarrow> string + oslo_message) \<Rightarrow> blob \<Rightarrow> string + oslo_message" where
  "ceilo_Parse decode_raw decode_oslo b =
     (case decode_raw b of Inl err \<Rightarrow> Inl err | Inr oslo \<Rightarrow> decode_oslo (sanitizeMessage oslo))"

definition ceilometerEventHandler ::
  "(blob \<Rightarrow> string + string) \<Rightarrow> (string \<Rightarrow> string + oslo_message) \<Rightarrow> (ivalue \<Rightarrow> string) \<Rightarrow> time_parser
     \<Rightarrow> blob \<Rightarrow> (event list \<times> string option) go" where
  "ceilometerEventHandler decode_raw decode_oslo format_v time_Parse b =
     (case ceilo_Parse decode_raw decode_oslo b of
        Inl err \<Rightarrow> Inr ([], Some err)
      | Inr om \<Rightarrow> ceil_publish format_v time_Parse om (omPayload om))"

section \<open>Collectd\<close>

record cd_event_message =
  ceLabels :: "(string, ivalue) gomap"
  ceAnnotations :: "(string, ivalue) gomap"
  ceStartsAt :: string

definition collectdAlertSeverity :: "string \<Rightarrow> event_severity option" where
  "collectdAlertSeverity = map_of [(''OKAY'', INFO), (''WARNING'', WARNING), (''FAILURE'', CRITICAL)]"

text \<open>The name an alert brings along, cut off at its last underscore if that comes late enough.\<close>

definition cd_raw_name :: "(string, ivalue) gomap \<Rightarrow> string" where
  "cd_raw_name labels =
     (case lookup_string labels ''alertname'' of
        Some n \<Rightarrow> n
      | None \<Rightarrow>
          (case lookup_string labels ''check'' of Some v \<Rightarrow> replace_all ''-'' ''_'' v | None \<Rightarrow> []))"

definition cut_last_term :: "string \<Rightarrow> string" where
  "cut_last_term name =
     (case str_last_index ''_'' name of
        Some index \<Rightarrow> if index > length ''collectd_'' then take index name else name
      | None \<Rightarrow> name)"

definition cd_event_name :: "(string, ivalue) gomap \<Rightarrow> string" where
  "cd_event_name labels =
     (let name = cut_last_term (cd_raw_name labels)
      in if \<not> has_prefix name ''collectd_'' then ''collectd_'' @ name else name)"

definition cd_event_severity :: "(string, ivalue) gomap \<Rightarrow> event_severity go" where
  "cd_event_severity labels =
     (case map_of labels ''severity'' of
        None \<Rightarrow> Inr UNKNOWN
      | Some v \<Rightarrow>
          go_bind (assert_string v) (\<lambda>s.
            Inr (case collectdAlertSeverity s of Some sev \<Rightarrow> sev | None \<Rightarrow> UNKNOWN)))"

definition cd_event ::
  "((string, ivalue) gomap \<Rightarrow> (string, ivalue) gomap \<Rightarrow> (string, ivalue) gomap) \<Rightarrow> time_parser
     \<Rightarrow> cd_event_message \<Rightarrow> event go" where
  "cd_event merge time_Parse eMsg =
     go_bind (cd_event_severity (ceLabels eMsg)) (\<lambda>sev.
       Inr \<lparr>eIndex = cd_event_name (ceLabels eMsg),
            eTime = f64_of_int (EpochFromFormat time_Parse (ceStartsAt eMsg)), eType = EVENT,
            ePublisher = (case lookup_string (ceLabels eMsg) ''instance'' of Some p \<Rightarrow> p | None \<Rightarrow> ''unknown''),
            eSeverity = sev, eLabels = ceLabels eMsg,
            eAnnotations = merge (ceAnnotations eMsg)
              [(''source_type'', IString ''collectd''), (''processed_by'', IString ''sg'')],
            eMessage = []\<rparr>)"

fun cd_events ::
  "((string, ivalue) gomap \<Rightarrow> (string, ivalue) gomap \<Rightarrow> (string, ivalue) gomap) \<Rightarrow> time_parser
     \<Rightarrow> cd_event_message list \<Rightarrow> event list go" where
  "cd_events merge time_Parse [] = Inr []"
| "cd_events merge time_Parse (m # ms) =
     (case cd_event merge time_Parse m of
        Inl p \<Rightarrow> Inl p
      | Inr e \<Rightarrow> (case cd_events merge time_Parse ms of Inl p \<Rightarrow> Inl p | Inr es \<Rightarrow> Inr (e # es)))"

text \<open>The loop of \<open>sanitize\<close> may run forever; then nothing comes of the message.\<close>

definition cd_Parse ::
  "(string \<Rightarrow> string + cd_event_message list)
     \<Rightarrow> ((string, ivalue) gomap \<Rightarrow> (string, ivalue) gomap \<Rightarrow> (string, ivalue) gomap) \<Rightarrow> time_parser
     \<Rightarrow> blob \<Rightarrow> (string + event list) go" where
  "cd_Parse decode merge time_Parse b =
     (case cd_sanitize b of
        None \<Rightarrow> Inl Runs_Forever
      | Some s \<Rightarrow>
          (case decode s of
             Inl err \<Rightarrow> Inr (Inl (''could not parse message: << '' @ b @ '' >>: '' @ err))
           | Inr message \<Rightarrow> go_bind (cd_events merge time_Parse message) (\<lambda>evs. Inr (Inr evs))))"

text \<open>The events are published when all of the message is parsed.\<close>

definition collectdEventHandler ::
  "(string \<Rightarrow> string + cd_event_message list)
     \<Rightarrow> ((string, ivalue) gomap \<Rightarrow> (string, ivalue) gomap \<Rightarrow> (string, ivalue) gomap) \<Rightarrow> time_parser
     \<Rightarrow> blob \<Rightarrow> (event list \<times> string option) go" where
  "collectdEventHandler decode merge time_Parse b =
     go_bind (cd_Parse decode merge time_Parse b) (\<lambda>res.
       Inr (case res of Inl err \<Rightarrow> ([], Some err) | Inr evs \<Rightarrow> (evs, None)))"

section \<open>Lemmas\<close>

lemma collectdEventHandler_eq:
  "collectdEventHandler decode merge time_Parse b =
     (case cd_sanitize b of
        None \<Rightarrow> Inl Runs_Forever
      | Some s \<Rightarrow>
          (case decode s of
             Inl err \<Rightarrow> Inr ([], Some (''could not parse message: << '' @ b @ '' >>: '' @ err))
           | Inr message \<Rightarrow> go_bind (cd_events merge time_Parse message) (\<lambda>evs. Inr (evs, None))))"
  by (simp add: collectdEventHandler_def cd_Parse_def go_bind_assoc split: option.split sum.split)

lemma buildName_prefix: "has_prefix (buildName t) ''ceilometer_''"
  unfolding buildName_def Let_def by (simp del: has_prefix_single) (simp add: has_prefix_def)

lemma ceil_event_name_prefix: "has_prefix (ceil_event_name om op) ''ceilometer_''"
  by (simp add: ceil_event_name_def buildName_prefix)

lemma cd_event_name_prefix: "has_prefix (cd_event_name labels) ''collectd_''"
  unfolding cd_event_name_def Let_def by simp (simp add: has_prefix_def)

lemma ceil_publish_events:
  "ceil_publish fv tp om ops = Inr (evs, err) \<Longrightarrow> e \<in> set evs \<Longrightarrow>
     eType e = EVENT \<and> has_prefix (eIndex e) ''ceilometer_''"
  by (induction ops arbitrary: evs)
     (auto simp: ceil_event_def ceil_event_name_prefix split: sum.splits)

lemma cd_events_events:
  "cd_events merge tp ms = Inr evs \<Longrightarrow> e \<in> set evs \<Longrightarrow>
     eType e = EVENT \<and> has_prefix (eIndex e) ''collectd_''"
  by (induction ms arbitrary: evs)
     (auto simp: cd_event_def cd_event_name_prefix go_bind_eq_Inr_iff split: sum.splits)

text \<open>
  A trait is valid (name, type and value in a list, the type a number), and if it is valid it
  is well typed if no assertion fails on it.
\<close>

fun trait_valid :: "ivalue \<Rightarrow> bool" where
  "trait_valid (IList [n, IFloat ty, x]) = True"
| "trait_valid _ = False"

fun trait_typed :: "ivalue \<Rightarrow> bool" where
  "trait_typed (IList [IString n, IFloat ty, IFloat x]) = (ty = 2)"
| "trait_typed (IList [IString n, IFloat ty, IString x]) = (ty \<noteq> 2)"
| "trait_typed (IList [n, IFloat ty, x]) = False"
| "trait_typed _ = True"

fun add_trait :: "(string, ivalue) gomap \<Rightarrow> ivalue \<Rightarrow> (string, ivalue) gomap" where
  "add_trait m (IList [IString n, ty, x]) = AList.update n x m"
| "add_trait m _ = m"

lemma trait_valid_shape: "trait_valid v \<longleftrightarrow> (\<exists>n ty x. v = IList [n, IFloat ty, x])"
  by (cases v rule: trait_valid.cases) simp_all

lemma trait_typed_shape:
  "trait_typed (IList [n, IFloat ty, x]) \<longleftrightarrow>
     (\<exists>name. n = IString name) \<and> (if ty = 2 then (\<exists>f. x = IFloat f) else (\<exists>s. x = IString s))"
  by (cases n; cases x; simp)

lemma format_trait_cases:
  "format_trait fv m v =
     (if \<not> trait_valid v then Inr (Inl (invalid_trait fv v))
      else if trait_typed v then Inr (Inr (add_trait m v)) else Inl Failed_Type_Assertion)"
proof (cases "trait_valid v")
  case False
  then show ?thesis
    by (auto simp: format_trait_def trait_valid_shape split: ivalue.split list.split)
next
  case True
  then obtain n ty x where v: "v = IList [n, IFloat ty, x]" by (auto simp: trait_valid_shape)
  show ?thesis
    by (cases n; cases x; auto simp: v format_trait_def)
qed

text \<open>The traits of a payload, up to the first that is invalid or ill-typed.\<close>

lemma traits_loop_cases:
  "traits_loop fv vs m =
     (case dropWhile (\<lambda>v. trait_valid v \<and> trait_typed v) vs of
        [] \<Rightarrow> Inr (Inr (foldl add_trait m vs))
      | v # _ \<Rightarrow> if trait_valid v then Inl Failed_Type_Assertion else Inr (Inl (invalid_trait fv v)))"
proof (induction vs arbitrary: m)
  case Nil
  then show ?case by simp
next
  case (Cons a vs)
  then show ?case
    by (simp add: format_trait_cases del: dropWhile_eq_Nil_conv split: list.split)
qed

text \<open>
  A payload is well formed if all its traits are; the first that is not decides between a panic
  and an error.
\<close>

definition payload_ok :: "oslo_payload \<Rightarrow> bool" where
  "payload_ok op \<longleftrightarrow> list_all (\<lambda>v. trait_valid v \<and> trait_typed v) (opTraits op)"

definition bad_trait :: "oslo_payload \<Rightarrow> ivalue" where
  "bad_trait op = hd (dropWhile (\<lambda>v. trait_valid v \<and> trait_typed v) (opTraits op))"

definition trait_map :: "oslo_payload \<Rightarrow> (string, ivalue) gomap" where
  "trait_map op = foldl add_trait [] (opTraits op)"

lemma traitsFormatted_cases:
  "traitsFormatted fv op =
     (if payload_ok op then Inr (Inr (trait_map op))
      else if trait_valid (bad_trait op) then Inl Failed_Type_Assertion
      else Inr (Inl (invalid_trait fv (bad_trait op))))"
proof (cases "payload_ok op")
  case True
  then have "dropWhile (\<lambda>v. trait_valid v \<and> trait_typed v) (opTraits op) = []"
    by (simp add: payload_ok_def list_all_iff)
  with True show ?thesis
    by (simp only: traitsFormatted_def traits_loop_cases) (simp add: trait_map_def)
next
  case False
  then have "dropWhile (\<lambda>v. trait_valid v \<and> trait_typed v) (opTraits op) \<noteq> []"
    by (simp add: payload_ok_def list_all_iff)
  with False show ?thesis
    by (simp only: traitsFormatted_def traits_loop_cases bad_trait_def) (simp split: list.split)
qed

lemma ceil_publish_cases:
  "ceil_publish fv tp om ops =
     (let good = takeWhile payload_ok ops;
          evs = map (\<lambda>op. ceil_event tp om op (trait_map op)) good
      in case dropWhile payload_ok ops of
           [] \<Rightarrow> Inr (evs, None)
         | op # _ \<Rightarrow> if trait_valid (bad_trait op) then Inl Failed_Type_Assertion
                   else Inr (evs, Some (invalid_trait fv (bad_trait op))))"
  by (induction ops)
     (auto simp: traitsFormatted_cases Let_def simp del: dropWhile_eq_Nil_conv split: list.splits)

text \<open>The severity label of a collectd event, if there is one, is a string.\<close>

definition severity_ok :: "cd_event_message \<Rightarrow> bool" where
  "severity_ok m \<longleftrightarrow> (case map_of (ceLabels m) ''severity'' of Some (IString s) \<Rightarrow> True | None \<Rightarrow> True | _ \<Rightarrow> False)"

definition severity_of_label :: "cd_event_message \<Rightarrow> event_severity" where
  "severity_of_label m =
     (case lookup_string (ceLabels m) ''severity'' of
        Some s \<Rightarrow> (case collectdAlertSeverity s of Some sev \<Rightarrow> sev | None \<Rightarrow> UNKNOWN)
      | None \<Rightarrow> UNKNOWN)"

lemma cd_event_severity_cases:
  "cd_event_severity (ceLabels m) =
     (if severity_ok m then Inr (severity_of_label m) else Inl Failed_Type_Assertion)"
  by (auto simp: cd_event_severity_def severity_ok_def severity_of_label_def lookup_string_def
      split: option.split ivalue.split)

lemma cd_events_panics: "(\<exists>p. cd_events merge tp ms = Inl p) \<longleftrightarrow> \<not> list_all severity_ok ms"
  by (induction ms) (auto simp: cd_event_def cd_event_severity_cases split: sum.split)

lemma cd_events_panic_kind: "cd_events merge tp ms = Inl p \<Longrightarrow> p = Failed_Type_Assertion"
  by (induction ms) (auto simp: cd_event_def cd_event_severity_cases split: sum.splits if_splits)

lemma cd_events_result:
  "cd_events merge tp ms = Inr evs \<Longrightarrow>
     list_all2 (\<lambda>m e. cd_event merge tp m = Inr e \<and> eSeverity e = severity_of_label m) ms evs"
  by (induction ms arbitrary: evs)
     (auto simp: cd_event_def cd_event_severity_cases split: sum.splits if_splits)

end
