(* ===== verification/Events.thy ===== *)
theory Events
  imports EventParsers EventSource
begin

text \<open>
  The events handler (\<open>plugins/handler/events/main.go\<close>, \<open>handlers/handlers.go\<close>,
  \<open>pkg/lib/source.go\<close>): it decides which data source a message comes from, counts it under that
  name and hands it to the source's parser.  The parameters (\<open>event_libs\<close>) are the JSON decoders
  and helpers of \<open>EventParsers\<close>, and for each message the order in which the \<open>range\<close> over the map
  of recognizers visits them.
\<close>

record event_libs =
  lib_raw :: "blob \<Rightarrow> string + string"
  lib_oslo :: "string \<Rightarrow> string + oslo_message"
  lib_format :: "ivalue \<Rightarrow> string"
  lib_collectd :: "string \<Rightarrow> string + cd_event_message list"
  lib_merge :: "(string, ivalue) gomap \<Rightarrow> (string, ivalue) gomap \<Rightarrow> (string, ivalue) gomap"
  lib_time :: time_parser
  lib_reversed :: "blob \<Rightarrow> bool"

section \<open>Data sources\<close>

type_synonym data_source = int64

definition ListAll :: "string list" where
  "ListAll = [''ceilometer'', ''collectd'', ''generic'']"

text \<open>The loop over \<open>ListAll\<close>: the new value and whether the name was found.\<close>

fun source_loop :: "string \<Rightarrow> data_source \<Rightarrow> int \<Rightarrow> string list \<Rightarrow> data_source \<times> bool" where
  "source_loop name src index [] = (src, False)"
| "source_loop name src index (value # vs) =
     (if name = value then (index, True) else source_loop name src (index + 1) vs)"

definition SetFromString :: "string \<Rightarrow> data_source \<Rightarrow> data_source \<times> bool" where
  "SetFromString name src = source_loop name src 0 ListAll"

definition recognizers :: "(string, blob \<Rightarrow> bool) gomap" where
  "recognizers = [(''collectd'', recognizeCollectd), (''ceilometer'', recognizeCeilometer)]"

fun recognizer_loop :: "(string, blob \<Rightarrow> bool) gomap \<Rightarrow> blob \<Rightarrow> data_source \<Rightarrow> data_source" where
  "recognizer_loop [] jsondata src = fst (SetFromString ''generic'' src)"
| "recognizer_loop ((source, rec) # rs) jsondata src =
     (if rec jsondata then fst (SetFromString source src) else recognizer_loop rs jsondata src)"

definition SetFromMessage :: "event_libs \<Rightarrow> blob \<Rightarrow> data_source \<Rightarrow> data_source" where
  "SetFromMessage lib jsondata src =
     recognizer_loop (if lib_reversed lib jsondata then rev recognizers else recognizers)
       jsondata src"

definition source_String :: "data_source \<Rightarrow> string go" where
  "source_String src = slice_get ListAll src"

section \<open>The handler\<close>

text \<open>\<open>configuration\<close> is the \<open>StrictSource\<close> of the configuration, \<open>None\<close> for the nil pointer.\<close>

record events_handler =
  eventsReceived :: "(string, uint64) gomap"
  configuration :: "string option"

definition events_New :: events_handler where
  "events_New = \<lparr>eventsReceived = [], configuration = None\<rparr>"

definition events_Identify :: string where
  "events_Identify = ''events''"

definition EventHandlers ::
  "event_libs \<Rightarrow> (string, blob \<Rightarrow> (event list \<times> string option) go) gomap" where
  "EventHandlers lib =
     [(''ceilometer'', ceilometerEventHandler (lib_raw lib) (lib_oslo lib) (lib_format lib) (lib_time lib)),
      (''collectd'', collectdEventHandler (lib_collectd lib) (lib_merge lib) (lib_time lib))]"

text \<open>The first test enters a missing source with the count 0; then the count is increased.\<close>

definition count_event :: "string \<Rightarrow> (string, uint64) gomap \<Rightarrow> (string, uint64) gomap" where
  "count_event source m =
     (let m' = (if map_of m source = None then AList.update source 0 m else m)
      in AList.update source (the (map_of m' source) + 1) m')"

definition events_error_event :: "string \<Rightarrow> blob \<Rightarrow> event" where
  "events_error_event err msg =
     error_event events_Identify
       [(''error'', IString err), (''context'', IString msg),
        (''message'', IString ''failed to parse event - disregarding'')]
       ''internal smartgateway event handler error''"

text \<open>Calling the function of a missing key of \<open>EventHandlers\<close> is calling nil.\<close>

definition events_Handle :: "event_libs \<Rightarrow> events_handler handle" where
  "events_Handle lib eh msg reportErrors =
     (case configuration eh of
        None \<Rightarrow> Inl Nil_Dereference
      | Some StrictSource \<Rightarrow>
          (let source = (if StrictSource \<noteq> [] then fst (SetFromString StrictSource 0)
                         else SetFromMessage lib msg 0)
           in go_bind (source_String source) (\<lambda>name.
             (let eh' = eh\<lparr>eventsReceived := count_event name (eventsReceived eh)\<rparr>
              in case map_of (EventHandlers lib) name of
                   None \<Rightarrow> Inl Nil_Dereference
                 | Some h \<Rightarrow> go_bind (h msg) (\<lambda>(evs, err).
                     Inr (eh',
                          map Publish_Event evs @
                          (case err of
                             Some e \<Rightarrow>
                               if reportErrors then [Publish_Event (events_error_event e msg)] else []
                           | None \<Rightarrow> []), err))))))"

text \<open>\<open>ParseConfig\<close> gives the \<open>StrictSource\<close> it leaves behind and its error.\<close>

definition events_Config ::
  "(string \<Rightarrow> string \<times> string option) \<Rightarrow> events_handler \<Rightarrow> events_handler \<times> string option" where
  "events_Config ParseConfig eh =
     (let (strict, err) = ParseConfig [] in (eh\<lparr>configuration := Some strict\<rparr>, err))"

text \<open>The loop over the counts: the metrics and the sum, which may wrap around.\<close>

fun events_tick_loop :: "(string, uint64) gomap \<Rightarrow> uint64 \<Rightarrow> metric list \<times> uint64" where
  "events_tick_loop [] tot = ([], tot)"
| "events_tick_loop ((source, value) # rest) tot =
     (let (ms, t) = events_tick_loop rest (tot + value)
      in (self_metric (''sg_'' @ source @ ''_events_received'') value # ms, t))"

definition events_Run_tick :: "events_handler \<Rightarrow> metric list" where
  "events_Run_tick eh =
     (let (ms, tot) = events_tick_loop (eventsReceived eh) 0
      in ms @ [self_metric ''sg_total_events_received'' tot])"

section \<open>Lemmas\<close>

lemma SetFromString_known:
  "SetFromString ''ceilometer'' src = (0, True)" "SetFromString ''collectd'' src = (1, True)"
  "SetFromString ''generic'' src = (2, True)"
  by (simp_all add: SetFromString_def ListAll_def)

lemma source_String_known [simp]:
  "source_String 0 = Inr ''ceilometer''" "source_String 1 = Inr ''collectd''"
  "source_String 2 = Inr ''generic''"
  by (simp_all add: source_String_def ListAll_def slice_get_def)

text \<open>The source of a message as the handler determines it.\<close>

definition message_source :: "event_libs \<Rightarrow> string \<Rightarrow> blob \<Rightarrow> string" where
  "message_source lib strict msg =
     (if strict \<noteq> [] then (if strict \<in> {''collectd'', ''generic''} then strict else ''ceilometer'')
      else if recognizeCollectd msg \<and> (\<not> lib_reversed lib msg \<or> \<not> recognizeCeilometer msg)
           then ''collectd''
      else if recognizeCeilometer msg then ''ceilometer'' else ''generic'')"

lemma source_name:
  "source_String (if strict \<noteq> [] then fst (SetFromString strict 0) else SetFromMessage lib msg 0)
     = Inr (message_source lib strict msg)"
proof (cases "strict = []")
  case True
  then show ?thesis
    by (simp add: SetFromMessage_def recognizers_def SetFromString_known message_source_def)
next
  case False
  then show ?thesis
    by (auto simp: SetFromString_def ListAll_def message_source_def)
qed

lemma message_source_cases: "message_source lib strict msg \<in> {''collectd'', ''ceilometer'', ''generic''}"
  by (simp add: message_source_def)

lemma events_Handle_eq:
  "configuration eh = Some strict \<Longrightarrow>
     events_Handle lib eh b r =
       (let name = message_source lib strict b
        in case map_of (EventHandlers lib) name of
             None \<Rightarrow> Inl Nil_Dereference
           | Some h \<Rightarrow> go_bind (h b) (\<lambda>(evs, err).
               Inr (eh\<lparr>eventsReceived := count_event name (eventsReceived eh)\<rparr>,
                    map Publish_Event evs @
                    (case err of
                       Some e \<Rightarrow> if r then [Publish_Event (events_error_event e b)] else []
                     | None \<Rightarrow> []), err)))"
  by (simp add: events_Handle_def Let_def source_name)

lemma EventHandlers_simps [simp]:
  "map_of (EventHandlers lib) ''ceilometer'' =
     Some (ceilometerEventHandler (lib_raw lib) (lib_oslo lib) (lib_format lib) (lib_time lib))"
  "map_of (EventHandlers lib) ''collectd'' =
     Some (collectdEventHandler (lib_collectd lib) (lib_merge lib) (lib_time lib))"
  "map_of (EventHandlers lib) ''generic'' = None"
  by (simp_all add: EventHandlers_def)

lemma EventHandlers_events:
  assumes "map_of (EventHandlers lib) name = Some h" and "h b = Inr (evs, err)" and "e \<in> set evs"
  shows "eType e = EVENT \<and> has_prefix (eIndex e) (name @ ''_'')"
proof -
  from assms(1) have "name = ''ceilometer'' \<or> name = ''collectd''"
    by (auto simp: EventHandlers_def split: if_splits)
  then show ?thesis
  proof
    assume "name = ''ceilometer''"
    with assms show ?thesis
      by (auto simp: ceilometerEventHandler_def ceilo_Parse_def dest: ceil_publish_events split: sum.splits)
  next
    assume "name = ''collectd''"
    with assms show ?thesis
      by (auto simp: collectdEventHandler_eq go_bind_eq_Inr_iff dest: cd_events_events
          split: sum.splits option.splits)
  qed
qed

lemma sum_update_count:
  "sum_list (map snd (AList.update k v m)) = sum_list (map snd m) + v - (case map_of m k of Some n \<Rightarrow> n | None \<Rightarrow> (0 :: uint64))"
  by (induction m) (auto split: option.split)

lemma sum_count_event: "sum_list (map snd (count_event s m)) = sum_list (map snd m) + 1"
  by (auto simp: count_event_def Let_def sum_update_count split: option.split)

definition events_total :: "events_handler \<Rightarrow> uint64" where
  "events_total eh = sum_list (map snd (eventsReceived eh))"

lemma events_tick_loop_eq:
  "events_tick_loop m t =
     (map (\<lambda>(s, v). self_metric (''sg_'' @ s @ ''_events_received'') v) m, t + sum_list (map snd m))"
  by (induction m arbitrary: t) (auto simp: add.assoc)

interpretation evh: handler "events_Handle lib" events_Identify "\<lambda>eh. configuration eh \<noteq> None" events_total
  for lib
proof unfold_locales
  fix s b r s' outs err
  assume c: "configuration s \<noteq> None" and h: "events_Handle lib s b r = Inr (s', outs, err)"
  from c obtain strict where strict: "configuration s = Some strict" by blast
  let ?name = "message_source lib strict b"
  from h obtain hd evs where hd: "map_of (EventHandlers lib) ?name = Some hd" "hd b = Inr (evs, err)"
    and s': "s' = s\<lparr>eventsReceived := count_event ?name (eventsReceived s)\<rparr>"
    and outs: "outs = map Publish_Event evs @
      (case err of Some e \<Rightarrow> if r then [Publish_Event (events_error_event e b)] else [] | None \<Rightarrow> [])"
    by (auto simp: events_Handle_eq [OF strict] Let_def go_bind_eq_Inr_iff split: option.splits)
  show "events_total s' = events_total s + 1" by (simp add: s' events_total_def sum_count_event)
  show "configuration s' \<noteq> None" using c by (simp add: s')
  show "list_all (output_ok events_Identify r) outs"
    using EventHandlers_events [OF hd]
    by (auto simp: outs list_all_iff events_error_event_def split: option.splits if_splits)
qed

section \<open>Properties\<close>

text \<open>
  C32: A configured handler calls a nil function, which ends the process, exactly on the messages
  that count as generic: all of them if the source is configured as \<open>generic\<close>, and without
  configured source every message that neither recognizer accepts.  The order in which the
  recognizers are tried plays no role for this.
\<close>

theorem generic_events_panic:
  assumes "configuration eh = Some strict"
  shows "events_Handle lib eh msg report = Inl Nil_Dereference \<longleftrightarrow>
    strict = ''generic'' \<or> strict = [] \<and> \<not> recognizeCollectd msg \<and> \<not> recognizeCeilometer msg"
proof -
  let ?name = "message_source lib strict msg"
  have "events_Handle lib eh msg report = Inl Nil_Dereference \<longleftrightarrow> ?name = ''generic''"
  proof -
    consider "?name = ''generic''" | "?name = ''collectd''" | "?name = ''ceilometer''"
      using message_source_cases [of lib strict msg] by auto
    then show ?thesis
    proof cases
      case 1
      then show ?thesis by (simp add: events_Handle_eq [OF assms] Let_def)
    next
      case 2
      then show ?thesis
        by (auto simp: events_Handle_eq [OF assms] Let_def collectdEventHandler_eq go_bind_eq_Inl_iff
            dest: cd_events_panic_kind split: sum.splits option.splits)
    next
      case 3
      then show ?thesis
        by (auto simp: events_Handle_eq [OF assms] Let_def ceilometerEventHandler_def ceilo_Parse_def go_bind_eq_Inl_iff
            ceil_publish_cases split: sum.splits option.splits list.splits if_splits)
    qed
  qed
  then show ?thesis by (auto simp: message_source_def)
qed

definition ex_event_libs :: event_libs where
  "ex_event_libs =
     \<lparr>lib_raw = (\<lambda>b. Inr b), lib_oslo = (\<lambda>s. Inl ''bad message''), lib_format = (\<lambda>v. ''trait''),
      lib_collectd = (\<lambda>b. Inl ''bad message''), lib_merge = (\<lambda>a b. a @ b), lib_time = (\<lambda>l s. None),
      lib_reversed = (\<lambda>b. True)\<rparr>"

text \<open>An alert as a JSON encoder writes it, with the separator it puts after a colon.\<close>

definition ex_alert_text :: "string \<Rightarrow> string" where
  "ex_alert_text sep =
     ''[{'' @ [quote] @ ''labels'' @ [quote] @ '':'' @ sep @ ''{},'' @ [quote] @ ''annotations'' @ [quote] @ '':''
     @ sep @ ''{}}]''"

theorem generic_events_panic_witness:
  "events_Handle ex_event_libs (events_New\<lparr>configuration := Some []\<rparr>) (ex_alert_text '' '') True
     = Inl Nil_Dereference
   \<and> events_Handle ex_event_libs (events_New\<lparr>configuration := Some []\<rparr>) (ex_alert_text []) True
     \<noteq> Inl Nil_Dereference"
proof -
  have c: "configuration (events_New\<lparr>configuration := Some []\<rparr>) = Some []" by simp
  have "\<not> recognizeCollectd (ex_alert_text '' '')" "\<not> recognizeCeilometer (ex_alert_text '' '')"
    "recognizeCollectd (ex_alert_text [])"
    by code_simp+
  then show ?thesis
    using generic_events_panic [OF c, of ex_event_libs "ex_alert_text '' ''" True]
      generic_events_panic [OF c, of ex_event_libs "ex_alert_text []" True]
    by simp
qed

text \<open>
  C33: A message that goes to the ceilometer parser and decodes gives one event per payload, in order,
  up to the first payload with a trait that is not well formed.  If that trait is a list of name,
  numeric type and value, the wrong type of name or value panics; otherwise it is the error of the
  message, and the payloads after it are lost.
\<close>

theorem ceilometer_events_published:
  assumes "configuration eh = Some strict" and "message_source lib strict msg = ''ceilometer''"
    and "lib_raw lib msg = Inr oslo" and "lib_oslo lib (sanitizeMessage oslo) = Inr om"
  shows "events_Handle lib eh msg report =
    (let good = takeWhile payload_ok (omPayload om);
         outs = map (\<lambda>op. Publish_Event (ceil_event (lib_time lib) om op (trait_map op))) good;
         eh' = eh\<lparr>eventsReceived := count_event ''ceilometer'' (eventsReceived eh)\<rparr>
     in case drop (length good) (omPayload om) of
          [] \<Rightarrow> Inr (eh', outs, None)
        | op # _ \<Rightarrow>
            if trait_valid (bad_trait op) then Inl Failed_Type_Assertion
            else (let err = invalid_trait (lib_format lib) (bad_trait op)
                  in Inr (eh', outs @ (if report then [Publish_Event (events_error_event err msg)] else []),
                          Some err)))"
proof -
  have "drop (length (takeWhile payload_ok (omPayload om))) (omPayload om) = dropWhile payload_ok (omPayload om)"
    by (rule dropWhile_eq_drop [symmetric])
  then show ?thesis
    using assms
    by (simp add: events_Handle_eq [OF assms(1)] Let_def ceilometerEventHandler_def ceilo_Parse_def ceil_publish_cases
        del: dropWhile_eq_Nil_conv split: list.split)
qed

definition ex_oslo_message :: oslo_message where
  "ex_oslo_message =
     \<lparr>omEventType = [], omPublisherID = ''telemetry'', omTimestamp = [], omPriority = ''SAMPLE'',
      omPayload =
        [\<lparr>opMessageID = ''1'', opEventType = ''image.delete'', opGenerated = [],
          opTraits = [IList [IString ''status'', IFloat 1, IString ''deleted'']]\<rparr>,
         \<lparr>opMessageID = ''2'', opEventType = ''image.delete'', opGenerated = [],
          opTraits = [IList [IString ''size'', IFloat 2, IString ''13'']]\<rparr>,
         \<lparr>opMessageID = ''3'', opEventType = [], opGenerated = [], opTraits = [IString ''x'']\<rparr>]\<rparr>"

theorem ceilometer_events_published_witness:
  "\<exists>eh' ev err.
     events_Handle (ex_event_libs\<lparr>lib_oslo := (\<lambda>s. Inr (omPayload_update (\<lambda>ps. [ps ! 0, ps ! 2]) ex_oslo_message))\<rparr>)
       (events_New\<lparr>configuration := Some ''ceilometer''\<rparr>) ''x'' False = Inr (eh', [Publish_Event ev], Some err)
     \<and> eLabels ev = [(''status'', IString ''deleted'')] \<and> eSeverity ev = INFO"
proof -
  let ?om = "omPayload_update (\<lambda>ps. [ps ! 0, ps ! 2]) ex_oslo_message"
  let ?lib = "ex_event_libs\<lparr>lib_oslo := (\<lambda>s. Inr ?om)\<rparr>"
    and ?eh = "events_New\<lparr>configuration := Some ''ceilometer''\<rparr>"
  have "configuration ?eh = Some ''ceilometer''" "message_source ?lib ''ceilometer'' ''x'' = ''ceilometer''"
    "lib_raw ?lib ''x'' = Inr ''x''" "lib_oslo ?lib (sanitizeMessage ''x'') = Inr ?om"
    by (simp_all add: message_source_def ex_event_libs_def)
  from ceilometer_events_published [OF this, of False] show ?thesis
    by (simp add: Let_def ex_oslo_message_def payload_ok_def bad_trait_def trait_map_def ceil_event_def
        ceilometer_severity_def ceilometerAlertSeverity_def)
qed

text \<open>
  C34: A message that goes to the collectd parser, is cleaned up and decodes is all or nothing: it panics if one of
  its alerts has a severity label that is not a string, and otherwise gives one event per alert, in
  order and with its labels, whose severity is read from that label and whose name starts with
  \<open>collectd_\<close>; no error is returned.
\<close>

theorem collectd_events_published:
  assumes "configuration eh = Some strict" and "message_source lib strict msg = ''collectd''"
    and "cd_sanitize msg = Some s" and "lib_collectd lib s = Inr alerts"
  shows "if list_all severity_ok alerts
    then \<exists>evs. events_Handle lib eh msg report =
               Inr (eh\<lparr>eventsReceived := count_event ''collectd'' (eventsReceived eh)\<rparr>,
                    map Publish_Event evs, None)
             \<and> list_all2 (\<lambda>m e. eLabels e = ceLabels m \<and> eSeverity e = severity_of_label m
                             \<and> has_prefix (eIndex e) ''collectd_'') alerts evs
    else events_Handle lib eh msg report = Inl Failed_Type_Assertion"
proof (cases "cd_events (lib_merge lib) (lib_time lib) alerts")
  case (Inl p)
  with cd_events_panics [of "lib_merge lib" "lib_time lib" alerts] cd_events_panic_kind [OF Inl] assms
  show ?thesis
    by (simp add: events_Handle_eq [OF assms(1)] Let_def collectdEventHandler_eq)
next
  case (Inr evs)
  with cd_events_panics [of "lib_merge lib" "lib_time lib" alerts]
  have ok: "list_all severity_ok alerts" by auto
  have "list_all2 (\<lambda>m e. eLabels e = ceLabels m \<and> eSeverity e = severity_of_label m
                  \<and> has_prefix (eIndex e) ''collectd_'') alerts evs"
    using cd_events_result [OF Inr]
    by (rule list_all2_mono) (auto simp: cd_event_def go_bind_eq_Inr_iff cd_event_name_prefix)
  with ok Inr assms show ?thesis
    by (auto simp: events_Handle_eq [OF assms(1)] Let_def collectdEventHandler_eq)
qed

definition ex_alerts :: "cd_event_message list" where
  "ex_alerts =
     [\<lparr>ceLabels = [(''alertname'', IString ''collectd_if_octets_gauge''), (''severity'', IString ''FAILURE'')],
       ceAnnotations = [], ceStartsAt = ''2019-09-18T19:11:19Z''\<rparr>]"

theorem collectd_events_published_witness:
  "\<exists>eh' ev. events_Handle (ex_event_libs\<lparr>lib_collectd := (\<lambda>b. Inr ex_alerts)\<rparr>)
       (events_New\<lparr>configuration := Some ''collectd''\<rparr>) ''x'' False = Inr (eh', [Publish_Event ev], None)
     \<and> eSeverity ev = CRITICAL"
proof -
  let ?lib = "ex_event_libs\<lparr>lib_collectd := (\<lambda>b. Inr ex_alerts)\<rparr>"
    and ?eh = "events_New\<lparr>configuration := Some ''collectd''\<rparr>"
  have h: "configuration ?eh = Some ''collectd''" "message_source ?lib ''collectd'' ''x'' = ''collectd''"
    "cd_sanitize ''x'' = Some ''x''" "lib_collectd ?lib ''x'' = Inr ex_alerts"
    by (simp, simp add: message_source_def, code_simp, simp)
  have ok: "list_all severity_ok ex_alerts" by (simp add: ex_alerts_def severity_ok_def)
  have sev: "severity_of_label (hd ex_alerts) = CRITICAL"
    by (simp add: ex_alerts_def severity_of_label_def lookup_string_def collectdAlertSeverity_def)
  from collectd_events_published [OF h, of False] ok obtain eh' evs
    where e: "events_Handle ?lib ?eh ''x'' False = Inr (eh', map Publish_Event evs, None)"
      and all: "list_all2 (\<lambda>m e. eLabels e = ceLabels m \<and> eSeverity e = severity_of_label m
                  \<and> has_prefix (eIndex e) ''collectd_'') ex_alerts evs"
    by (auto split: if_splits)
  from all obtain ev where "evs = [ev]" "eSeverity ev = CRITICAL"
    using sev by (auto simp: ex_alerts_def list_all2_Cons1)
  with e show ?thesis by auto
qed

text \<open>
  After any sequence of messages that it survives, the handler's tick reports as the total the
  number of messages received, whatever their sources and whether or not they could be parsed.
\<close>

theorem events_total_reported:
  assumes "handle_all (events_Handle lib) (fst (events_Config parse events_New)) msgs report = Inr (eh, outs)"
  shows "last (events_Run_tick eh) = self_metric ''sg_total_events_received'' (of_nat (length msgs))
     \<and> length (events_Run_tick eh) = Suc (length (eventsReceived eh))"
proof -
  have "configuration (fst (events_Config parse events_New)) \<noteq> None"
    by (simp add: events_Config_def split: prod.split)
  from evh.handle_all_counts [OF this assms]
  have "events_total eh = of_nat (length msgs)"
    by (simp add: events_total_def events_Config_def events_New_def split: prod.splits)
  then show ?thesis
    by (simp add: events_Run_tick_def events_tick_loop_eq events_total_def)
qed

theorem events_total_reported_witness:
  "\<exists>eh outs. handle_all (events_Handle ex_event_libs) (fst (events_Config (\<lambda>s. (''ceilometer'', None)) events_New))
       [''a'', ''b'', ''c''] True = Inr (eh, outs)
     \<and> last (events_Run_tick eh) = self_metric ''sg_total_events_received'' 3"
proof -
  let ?eh = "fst (events_Config (\<lambda>s. (''ceilometer'', None)) events_New)"
  have c: "configuration ?eh = Some ''ceilometer''" by (simp add: events_Config_def)
  have "\<exists>eh outs. handle_all (events_Handle ex_event_libs) ?eh [''a'', ''b'', ''c''] True = Inr (eh, outs)"
    by (simp add: events_Handle_eq c Let_def message_source_def ex_event_libs_def
        ceilometerEventHandler_def ceilo_Parse_def events_Config_def)
  then obtain eh outs
    where h: "handle_all (events_Handle ex_event_libs) ?eh [''a'', ''b'', ''c''] True = Inr (eh, outs)"
    by blast
  from events_total_reported [OF h] h show ?thesis by auto
qed

end
