(* ===== verification/GoPath.thy ===== *)
theory GoPath
  imports GoStrings
begin

text \<open>
  The functions \<open>Clean\<close> and \<open>Join\<close> of Go's package \<open>path/filepath\<close>, with which the manager makes the
  path of a plugin, and what they make of a directory with a slash at its end.
\<close>

definition slash :: char where
  "slash = CHR ''/''"

text \<open>One element of a path: nothing for an empty one and a dot, one step up for two dots.\<close>

definition clean_step :: "bool \<Rightarrow> string list \<Rightarrow> string \<Rightarrow> string list" where
  "clean_step rooted out e =
     (if e = [] \<or> e = ''.'' then out
      else if e = ''..'' then
        (if out \<noteq> [] \<and> last out \<noteq> ''..'' then butlast out else if rooted then out else out @ [e])
      else out @ [e])"

definition clean_elements :: "bool \<Rightarrow> string \<Rightarrow> string list" where
  "clean_elements rooted path = foldl (clean_step rooted) [] (str_split [slash] path)"

definition filepath_Clean :: "string \<Rightarrow> string" where
  "filepath_Clean path =
     (let rooted = has_prefix path [slash]; out = clean_elements rooted path
      in if rooted then slash # join [slash] out
         else if out = [] then ''.'' else join [slash] out)"

text \<open>\<open>Join\<close> leaves out empty elements.\<close>

definition filepath_Join :: "string list \<Rightarrow> string" where
  "filepath_Join elem =
     (let es = filter (\<lambda>e. e \<noteq> []) elem
      in if es = [] then [] else filepath_Clean (join [slash] es))"

lemma str_split_append_slash: "str_split [c] (x @ c # y) = str_split [c] x @ str_split [c] y"
proof (induction "[c]" x rule: str_split.induct)
  case (1 x)
  show ?case
  proof (cases "str_index [c] x")
    case None
    then have "c \<notin> set x" by (simp add: str_index_single)
    with None show ?thesis by (simp add: str_split_single_append str_split_no_sep)
  next
    case (Some m)
    have d: "x = take m x @ c # drop (Suc m) x" using str_index_Some [OF Some] by simp
    have c: "c \<notin> set (take m x)" by (rule str_index_single_Some [OF Some])
    have "str_split [c] (x @ c # y) = str_split [c] (take m x @ c # (drop (Suc m) x @ c # y))"
      by (subst (1) d) simp
    also have "\<dots> = take m x # str_split [c] (drop (Suc m) x @ c # y)" using c by (rule str_split_single_append)
    also have "\<dots> = take m x # str_split [c] (drop (Suc m) x) @ str_split [c] y" using 1 [OF _ Some] by simp
    finally show ?thesis
      using Some by (simp add: str_split.simps [of "[c]" x])
  qed
qed

lemma Nil_split: "str_split [c] [] = [[]]"
  by (simp add: str_split.simps)

text \<open>A slash at the end of the directory makes no difference.\<close>

lemma filepath_Join_slash:
  assumes "dir \<noteq> []"
  shows "filepath_Join [dir @ [slash], f] = filepath_Join [dir, f]"
proof (cases "f = []")
  case True
  have "clean_elements r (dir @ [slash]) = clean_elements r dir" for r
    using str_split_append_slash [of slash dir "[]"]
    by (simp add: clean_elements_def Nil_split clean_step_def)
  moreover have "has_prefix (dir @ [slash]) [slash] \<longleftrightarrow> has_prefix dir [slash]"
    using assms by (cases dir) auto
  ultimately show ?thesis using True assms by (simp add: filepath_Join_def filepath_Clean_def Let_def)
next
  case False
  have "clean_elements r (dir @ slash # slash # f) = clean_elements r (dir @ slash # f)" for r
    using str_split_append_slash [of slash "dir" "slash # f"] str_split_append_slash [of slash "[]" f]
      str_split_append_slash [of slash dir f]
    by (simp add: clean_elements_def Nil_split clean_step_def)
  moreover have "has_prefix (dir @ x) [slash] \<longleftrightarrow> has_prefix dir [slash]" for x
    using assms by (cases dir) auto
  ultimately show ?thesis using False assms by (simp add: filepath_Join_def filepath_Clean_def Let_def)
qed

lemma filepath_Join_examples:
  "filepath_Join [''/usr/lib64/sg-core/'', ''socket.so''] = ''/usr/lib64/sg-core/socket.so''"
  "filepath_Join [''./plugins//'', ''a.so''] = ''plugins/a.so''"
  "filepath_Join [''/p'', ''../../x.so''] = ''/x.so''"
  "filepath_Join [[], ''x.so''] = ''x.so''"
  by code_simp+

end
