(* ===== verification/Manager.thy ===== *)
theory Manager
  imports Handler GoPath
begin

text \<open>
  The plugin manager (\<open>cmd/manager/manager.go\<close>) and the main program that drives it
  (\<open>cmd/main.go\<close>, \<open>cmd/config.go\<close>): loading transports, handlers and applications, the tables
  they are kept in, the bus subscriptions, and the dispatch of a message to the handlers of a
  transport.  Loading a plugin binary, encoding its configuration as YAML and the plugins' own
  \<open>Config\<close> methods are parameters, collected in the record \<open>plugins\<close>.
\<close>

section \<open>Plugins\<close>

text \<open>The two publish functions of the event bus.\<close>

datatype publish_func = Non_Blocking | Blocking

text \<open>
  The symbol \<open>New\<close> of a binary, by the type of the constructor; applying it gives a fresh
  object.  An application gets the function it publishes events with.  Opening the binary at a path
  gives an error or the function that looks symbols up.
\<close>

datatype ('t, 'h, 'a) symbol =
    New_Transport 't
  | New_Handler 'h
  | New_Application "publish_func \<Rightarrow> 'a"
  | New_Other

record ('t, 'h, 'a, 'c) plugins =
  plugin_Open :: "string \<Rightarrow> string + (string \<Rightarrow> string + ('t, 'h, 'a) symbol)"
  yaml_Marshal :: "'c \<Rightarrow> string + blob"
  transport_Config :: "blob \<Rightarrow> 't \<Rightarrow> 't \<times> string option"
  handler_Config :: "blob \<Rightarrow> 'h \<Rightarrow> 'h \<times> string option"
  application_Config :: "blob \<Rightarrow> 'a \<Rightarrow> 'a \<times> string option"
  is_MetricReceiver :: "'a \<Rightarrow> bool"
  is_EventReceiver :: "'a \<Rightarrow> bool"

text \<open>
  The manager's tables.  Applications are shared by pointer between the table and the buses:
  they live in \<open>app_heap\<close>.
\<close>

record ('t, 'h, 'a) manager =
  transports :: "(string, 't) gomap"
  handlers :: "(string, 'h list) gomap"
  applications :: "(string, nat) gomap"
  app_heap :: "'a list"
  eventBus_subs :: "nat list"
  metricBus_subs :: "nat list"
  pluginPath :: string
  eventPublishFunc :: publish_func

definition manager_init :: "('t, 'h, 'a) manager" where
  "manager_init =
     \<lparr>transports = [], handlers = [], applications = [], app_heap = [], eventBus_subs = [],
      metricBus_subs = [], pluginPath = ''/usr/lib64/sg-core'', eventPublishFunc = Non_Blocking\<rparr>"

definition SetPluginDir :: "string \<Rightarrow> ('t, 'h, 'a) manager \<Rightarrow> ('t, 'h, 'a) manager" where
  "SetPluginDir path mg = mg\<lparr>pluginPath := path\<rparr>"

definition SetEventBusBlocking :: "bool \<Rightarrow> ('t, 'h, 'a) manager \<Rightarrow> ('t, 'h, 'a) manager" where
  "SetEventBusBlocking block mg =
     mg\<lparr>eventPublishFunc := (if block then Blocking else Non_Blocking)\<rparr>"

text \<open>\<open>errors.Wrap\<close> and \<open>errors.Wrapf\<close>.\<close>

definition errors_Wrap :: "string \<Rightarrow> string \<Rightarrow> string" where
  "errors_Wrap err msg = msg @ '': '' @ err"

datatype init_error = Err_App_Not_Receiver | Init_Error string

definition initPlugin ::
  "('t, 'h, 'a, 'c) plugins \<Rightarrow> string \<Rightarrow> ('t, 'h, 'a) manager \<Rightarrow> string + ('t, 'h, 'a) symbol" where
  "initPlugin pl name mg =
     (let bin = join ''.'' [name, ''so'']; path = filepath_Join [pluginPath mg, bin]
      in case plugin_Open pl path of
           Inl err \<Rightarrow> Inl (errors_Wrap err (''failed to open binary '' @ path))
         | Inr p \<Rightarrow> p ''New'')"

section \<open>Loading\<close>

text \<open>\<open>'%s'\<close> in a message.\<close>

definition single_quoted :: "string \<Rightarrow> string" where
  "single_quoted s = CHR 0x27 # s @ [CHR 0x27]"

text \<open>The transport is in the table before its configuration is tried.\<close>

definition InitTransport ::
  "('t, 'h, 'a, 'c) plugins \<Rightarrow> string \<Rightarrow> 'c \<Rightarrow> ('t, 'h, 'a) manager
     \<Rightarrow> ('t, 'h, 'a) manager \<times> (string + string)" where
  "InitTransport pl name cfg mg =
     (case initPlugin pl name mg of
        Inl err \<Rightarrow> (mg, Inl (errors_Wrap err ''failed initializing transport''))
      | Inr (New_Transport t) \<Rightarrow>
          (let uniqueName = name @ itoa_nat (length (transports mg));
               mg1 = mg\<lparr>transports := AList.update uniqueName t (transports mg)\<rparr>
           in case yaml_Marshal pl cfg of
                Inl err \<Rightarrow>
                  (mg1, Inl (errors_Wrap err (''failed parsing transport config for '' @ single_quoted name)))
              | Inr c \<Rightarrow>
                  (let (t', err) = transport_Config pl c t;
                       mg2 = mg1\<lparr>transports := AList.update uniqueName t' (transports mg1)\<rparr>
                   in case err of Some e \<Rightarrow> (mg2, Inl e) | None \<Rightarrow> (mg2, Inr uniqueName)))
      | Inr other \<Rightarrow> 
          (mg, Inl (''plugin '' @ name @ '' constructor '' @ single_quoted ''New'' @ '' did not return type ''
                    @ single_quoted ''transport.Transport'')))"

definition InitApplication ::
  "('t, 'h, 'a, 'c) plugins \<Rightarrow> string \<Rightarrow> 'c \<Rightarrow> ('t, 'h, 'a) manager
     \<Rightarrow> ('t, 'h, 'a) manager \<times> init_error option" where
  "InitApplication pl name cfg mg =
     (case initPlugin pl name mg of
        Inl err \<Rightarrow> (mg, Some (Init_Error (errors_Wrap err ''failed initializing application plugin'')))
      | Inr (New_Application new) \<Rightarrow>
          (let app = new Non_Blocking
           in case yaml_Marshal pl cfg of
                Inl err \<Rightarrow>
                  (mg, Some (Init_Error
                    (errors_Wrap err (''failed parsing application plugin config for '' @ single_quoted name))))
              | Inr c \<Rightarrow>
                  (let (app', err) = application_Config pl c app
                   in case err of
                        Some e \<Rightarrow> (mg, Some (Init_Error e))
                      | None \<Rightarrow>
                          (let a = length (app_heap mg);
                               m = is_MetricReceiver pl app'; e = is_EventReceiver pl app';
                               mg1 = mg\<lparr>app_heap := app_heap mg @ [app'],
                                        metricBus_subs := metricBus_subs mg @ (if m then [a] else []),
                                        eventBus_subs := eventBus_subs mg @ (if e then [a] else [])\<rparr>
                           in if \<not> (m \<or> e) then (mg1, Some Err_App_Not_Receiver)
                              else (mg1\<lparr>applications := AList.update name a (applications mg1)\<rparr>, None))))
      | Inr other \<Rightarrow> 
          (mg, Some (Init_Error (''plugin '' @ name @ '' constructor '' @ single_quoted ''New'' @ '' did not return type ''
                                 @ single_quoted ''application.Application''))))"

text \<open>\<open>handlers[name] = append(handlers[name], h)\<close>; a missing entry is the nil slice.\<close>

definition handlers_of :: "string \<Rightarrow> ('t, 'h, 'a) manager \<Rightarrow> 'h list" where
  "handlers_of name mg = (case map_of (handlers mg) name of Some hs \<Rightarrow> hs | None \<Rightarrow> [])"

fun SetTransportHandlers ::
  "('t, 'h, 'a, 'c) plugins \<Rightarrow> string \<Rightarrow> (string \<times> 'c) list \<Rightarrow> ('t, 'h, 'a) manager
     \<Rightarrow> ('t, 'h, 'a) manager \<times> string option" where
  "SetTransportHandlers pl name [] mg = (mg, None)"
| "SetTransportHandlers pl name ((block, cfg) # blocks) mg =
     (case initPlugin pl block mg of
        Inl err \<Rightarrow> (mg, Some (errors_Wrap err ''failed initializing handler''))
      | Inr (New_Handler h) \<Rightarrow>
          (case yaml_Marshal pl cfg of
             Inl err \<Rightarrow> (mg, Some (errors_Wrap err (''failed parsing handler plugin config for '' @ single_quoted block)))
           | Inr c \<Rightarrow>
               (let (h', err) = handler_Config pl c h
                in case err of
                     Some e \<Rightarrow> (mg, Some (errors_Wrap e (''failed configuring handler plugin '' @ single_quoted block)))
                   | None \<Rightarrow>
                       SetTransportHandlers pl name blocks
                         (mg\<lparr>handlers := AList.update name (handlers_of name mg @ [h']) (handlers mg)\<rparr>)))
      | Inr other \<Rightarrow> 
          (mg, Some (''handler '' @ block @ '' constructor did not return type handler.Handler'')))"

section \<open>Running\<close>

text \<open>
  What \<open>RunTransports\<close> starts: for every transport in the table the transport itself and its
  handlers; and what \<open>RunApplications\<close> starts.
\<close>

definition RunTransports :: "('t, 'h, 'a) manager \<Rightarrow> (string \<times> 't \<times> 'h list) list" where
  "RunTransports mg = map (\<lambda>(name, t). (name, t, handlers_of name mg)) (transports mg)"

definition RunApplications :: "('t, 'h, 'a) manager \<Rightarrow> nat list" where
  "RunApplications mg = map snd (applications mg)"

text \<open>
  The function a transport calls with each message: every handler of the transport in turn.
  The errors are only logged: they are returned here in order.
\<close>

fun dispatch :: "'h handle \<Rightarrow> blob \<Rightarrow> bool \<Rightarrow> 'h list \<Rightarrow> ('h list \<times> published list \<times> string list) go" where
  "dispatch Handle b report [] = Inr ([], [], [])"
| "dispatch Handle b report (h # hs) =
     (case Handle h b report of
        Inl p \<Rightarrow> Inl p
      | Inr (h', outs, err) \<Rightarrow>
          (case dispatch Handle b report hs of
             Inl p \<Rightarrow> Inl p
           | Inr (hs', outs', errs) \<Rightarrow>
               Inr (h' # hs', outs @ outs', (case err of None \<Rightarrow> errs | Some e \<Rightarrow> e # errs))))"

section \<open>The main program\<close>

record 'c sg_config =
  cfgPluginDir :: string
  cfgLogLevel :: string
  cfgHandlerErrors :: bool
  cfgBlockEventBus :: bool
  cfgTransports :: "(string \<times> (string \<times> 'c) list \<times> 'c) list"
  cfgApplications :: "(string \<times> 'c) list"

definition default_config :: "'c sg_config" where
  "default_config =
     \<lparr>cfgPluginDir = ''/usr/lib64/sg-core/'', cfgLogLevel = ''info'', cfgHandlerErrors = False,
      cfgBlockEventBus = False, cfgTransports = [], cfgApplications = []\<rparr>"

text \<open>The loop over the transports; failures are logged and skipped.\<close>

fun load_transports ::
  "('t, 'h, 'a, 'c) plugins \<Rightarrow> (string \<times> (string \<times> 'c) list \<times> 'c) list \<Rightarrow> ('t, 'h, 'a) manager
     \<Rightarrow> ('t, 'h, 'a) manager" where
  "load_transports pl [] mg = mg"
| "load_transports pl ((name, blocks, cfg) # ts) mg =
     (let (mg1, res) = InitTransport pl name cfg mg
      in case res of
           Inl err \<Rightarrow> load_transports pl ts mg1
         | Inr tName \<Rightarrow> load_transports pl ts (fst (SetTransportHandlers pl tName blocks mg1)))"

text \<open>The loop over the applications, which assigns the outer \<open>err\<close> every time.\<close>

fun load_applications ::
  "('t, 'h, 'a, 'c) plugins \<Rightarrow> (string \<times> 'c) list \<Rightarrow> init_error option \<Rightarrow> ('t, 'h, 'a) manager
     \<Rightarrow> ('t, 'h, 'a) manager \<times> init_error option" where
  "load_applications pl [] err mg = (mg, err)"
| "load_applications pl ((name, cfg) # as) err mg =
     (let (mg1, err1) = InitApplication pl name cfg mg in load_applications pl as err1 mg1)"

text \<open>\<open>main\<close> up to the start of the plugins: \<open>Some\<close> is the manager it starts them from.\<close>

definition main_load ::
  "('t, 'h, 'a, 'c) plugins \<Rightarrow> 'c sg_config \<Rightarrow> ('t, 'h, 'a) manager option" where
  "main_load pl cf =
     (let mg0 = SetEventBusBlocking (cfgBlockEventBus cf) (SetPluginDir (cfgPluginDir cf) manager_init);
          mg1 = load_transports pl (cfgTransports cf) mg0;
          (mg2, err) = load_applications pl (cfgApplications cf) None mg1
      in if err \<noteq> None then None else Some mg2)"

section \<open>Names of transports\<close>

text \<open>A name that does not end in a digit is separated from the number appended to it.\<close>

definition ends_in_digit :: "string \<Rightarrow> bool" where
  "ends_in_digit name \<longleftrightarrow> name \<noteq> [] \<and> is_digit (last name)"

lemma takeWhile_digits:
  "\<not> ends_in_digit name \<Longrightarrow> takeWhile is_digit (rev (name @ itoa_nat k)) = rev (itoa_nat k)"
proof -
  assume a: "\<not> ends_in_digit name"
  have "takeWhile is_digit (rev (itoa_nat k) @ rev name) = rev (itoa_nat k) @ takeWhile is_digit (rev name)"
    by (rule takeWhile_append2) (simp add: itoa_nat_digits)
  moreover have "takeWhile is_digit (rev name) = []"
    using a by (cases name rule: rev_cases) (simp_all add: ends_in_digit_def)
  ultimately show ?thesis by simp
qed

lemma unique_name_inj:
  assumes "\<not> ends_in_digit m" and "\<not> ends_in_digit n" and "m @ itoa_nat i = n @ itoa_nat j"
  shows "m = n \<and> i = j"
proof -
  from takeWhile_digits [OF assms(1), of i] takeWhile_digits [OF assms(2), of j] assms(3)
  have "itoa_nat i = itoa_nat j" by (metis rev_rev_ident)
  with assms(3) show ?thesis by simp
qed

text \<open>The names that are given to transports loaded in this order.\<close>

definition unique_names :: "string list \<Rightarrow> string list" where
  "unique_names names = map (\<lambda>k. names ! k @ itoa_nat k) [0..<length names]"

lemma unique_names_snoc: "unique_names (names @ [n]) = unique_names names @ [n @ itoa_nat (length names)]"
  by (simp add: unique_names_def nth_append)

lemma length_unique_names [simp]: "length (unique_names names) = length names"
  by (simp add: unique_names_def)

definition transport_opens :: "('t, 'h, 'a, 'c) plugins \<Rightarrow> string \<Rightarrow> string \<Rightarrow> bool" where
  "transport_opens pl dir name \<longleftrightarrow>
     (case plugin_Open pl (filepath_Join [dir, name @ ''.so'']) of
        Inl err \<Rightarrow> False
      | Inr p \<Rightarrow> (case p ''New'' of Inr (New_Transport t) \<Rightarrow> True | _ \<Rightarrow> False))"

lemma initPlugin_path: "pluginPath mg = pluginPath mg' \<Longrightarrow> initPlugin pl name mg = initPlugin pl name mg'"
  by (simp add: initPlugin_def)

lemma transport_opens_iff:
  "transport_opens pl (pluginPath mg) name \<longleftrightarrow> (\<exists>t. initPlugin pl name mg = Inr (New_Transport t))"
  by (simp add: transport_opens_def initPlugin_def Let_def split: sum.split symbol.split)

lemma InitTransport_names:
  assumes names: "map fst (transports mg) = unique_names names"
    and "\<forall>n \<in> set names. \<not> ends_in_digit n" and "\<not> ends_in_digit name"
  shows "map fst (transports (fst (InitTransport pl name cfg mg))) =
           unique_names (if transport_opens pl (pluginPath mg) name then names @ [name] else names)"
proof -
  have len: "length (transports mg) = length names" using names by (metis length_map length_unique_names)
  have new: "name @ itoa_nat (length names) \<notin> set (unique_names names)"
  proof
    assume "name @ itoa_nat (length names) \<in> set (unique_names names)"
    then obtain k where k: "k < length names" "name @ itoa_nat (length names) = names ! k @ itoa_nat k"
      by (auto simp: unique_names_def)
    with assms(2,3) unique_name_inj have "length names = k" by (metis nth_mem)
    with k show False by simp
  qed
  have upd: "map fst (AList.update (name @ itoa_nat (length names)) t (transports mg))
               = unique_names (names @ [name])" for t
    using names new by (simp add: update_keys unique_names_snoc)
  have again: "map fst (AList.update (name @ itoa_nat (length names)) t'
      (AList.update (name @ itoa_nat (length names)) t (transports mg))) = unique_names (names @ [name])"
    for t t'
    using upd [of t] by (simp add: update_keys unique_names_snoc)
  show ?thesis
    unfolding InitTransport_def transport_opens_iff
    by (simp add: Let_def len names upd again split_beta split: sum.split symbol.split option.split)
qed

lemma SetTransportHandlers_frame:
  "transports (fst (SetTransportHandlers pl name blocks mg)) = transports mg"
  "pluginPath (fst (SetTransportHandlers pl name blocks mg)) = pluginPath mg"
  "applications (fst (SetTransportHandlers pl name blocks mg)) = applications mg"
  "app_heap (fst (SetTransportHandlers pl name blocks mg)) = app_heap mg"
  "eventPublishFunc (fst (SetTransportHandlers pl name blocks mg)) = eventPublishFunc mg"
proof (induction blocks arbitrary: mg)
  case (Cons b blocks)
  case 1 then show ?case by (cases b) (simp add: Cons split_beta split: sum.split symbol.split option.split)
  case 2 then show ?case by (cases b) (simp add: Cons split_beta split: sum.split symbol.split option.split)
  case 3 then show ?case by (cases b) (simp add: Cons split_beta split: sum.split symbol.split option.split)
  case 4 then show ?case by (cases b) (simp add: Cons split_beta split: sum.split symbol.split option.split)
  case 5 then show ?case by (cases b) (simp add: Cons split_beta split: sum.split symbol.split option.split)
qed simp_all

lemma InitTransport_frame:
  "pluginPath (fst (InitTransport pl name cfg mg)) = pluginPath mg"
  "applications (fst (InitTransport pl name cfg mg)) = applications mg"
  "app_heap (fst (InitTransport pl name cfg mg)) = app_heap mg"
  "eventPublishFunc (fst (InitTransport pl name cfg mg)) = eventPublishFunc mg"
  by (simp_all add: InitTransport_def Let_def split_beta split: sum.split symbol.split option.split)

lemma load_transports_names:
  assumes "map fst (transports mg) = unique_names names" and "\<forall>n \<in> set names. \<not> ends_in_digit n"
    and "\<forall>t \<in> set ts. \<not> ends_in_digit (fst t)"
  shows "map fst (transports (load_transports pl ts mg)) =
           unique_names (names @ filter (transport_opens pl (pluginPath mg)) (map fst ts))"
  using assms
proof (induction ts arbitrary: mg names)
  case Nil
  then show ?case by simp
next
  case (Cons t ts)
  obtain name blocks cfg where t: "t = (name, blocks, cfg)" by (cases t)
  obtain mg1 res where i: "InitTransport pl name cfg mg = (mg1, res)" by force
  let ?names = "if transport_opens pl (pluginPath mg) name then names @ [name] else names"
  have n: "\<not> ends_in_digit name" using Cons.prems(3) t by simp
  from InitTransport_names [OF Cons.prems(1,2) n, of pl cfg] i
  have "map fst (transports mg1) = unique_names ?names" by simp
  moreover have "pluginPath mg1 = pluginPath mg" using InitTransport_frame(1) [of pl name cfg mg] i by simp
  moreover have "\<forall>n \<in> set ?names. \<not> ends_in_digit n" using Cons.prems(2) n by simp
  ultimately show ?case
    using Cons.IH [of mg1 ?names] Cons.IH [of "fst (SetTransportHandlers pl _ blocks mg1)" ?names]
      Cons.prems(3) t i
    by (simp add: SetTransportHandlers_frame split: sum.split)
qed

section \<open>What is started\<close>

lemma InitTransport_stored:
  assumes "initPlugin pl name mg = Inr (New_Transport t)"
  shows "\<exists>t'. map_of (transports (fst (InitTransport pl name cfg mg)))
                (name @ itoa_nat (length (transports mg))) = Some t'"
  using assms
  by (simp add: InitTransport_def Let_def split_beta split: sum.split option.split)

lemma InitApplication_ok:
  assumes "initPlugin pl name mg = Inr (New_Application new)"
    and "yaml_Marshal pl cfg = Inr c" and "application_Config pl c (new Non_Blocking) = (app, None)"
    and "is_MetricReceiver pl app"
  shows "snd (InitApplication pl name cfg mg) = None"
    and "applications (fst (InitApplication pl name cfg mg)) =
           AList.update name (length (app_heap mg)) (applications mg)"
    and "app_heap (fst (InitApplication pl name cfg mg)) = app_heap mg @ [app]"
    and "metricBus_subs (fst (InitApplication pl name cfg mg)) = metricBus_subs mg @ [length (app_heap mg)]"
    and "pluginPath (fst (InitApplication pl name cfg mg)) = pluginPath mg"
  using assms by (simp_all add: InitApplication_def Let_def)

definition apps_in_heap :: "('t, 'h, 'a) manager \<Rightarrow> bool" where
  "apps_in_heap mg \<longleftrightarrow>
     distinct (map snd (applications mg)) \<and> (\<forall>a \<in> snd ` set (applications mg). a < length (app_heap mg))"

lemma update_values: "snd ` set (AList.update k v m) \<subseteq> insert v (snd ` set m)"
  by (induction m) auto

lemma update_fresh_distinct:
  "v \<notin> snd ` set m \<Longrightarrow> distinct (map snd m) \<Longrightarrow> distinct (map snd (AList.update k v m))"
proof (induction m)
  case Nil
  then show ?case by simp
next
  case (Cons x m)
  then have "snd x \<notin> insert v (snd ` set m)" by auto
  with update_values [of k v m] have "snd x \<notin> snd ` set (AList.update k v m)" by blast
  with Cons show ?case by simp
qed

lemma update_fresh_gone:
  "v \<notin> snd ` set m \<Longrightarrow> distinct (map snd m) \<Longrightarrow> map_of m k = Some a \<Longrightarrow>
     a \<notin> snd ` set (AList.update k v m)"
proof (induction m)
  case Nil
  then show ?case by simp
next
  case (Cons x m)
  then have v: "v \<notin> snd ` set m" "v \<noteq> snd x" "snd x \<notin> snd ` set m" "distinct (map snd m)" by auto
  show ?case
  proof (cases "fst x = k")
    case True
    with Cons.prems(3) have "a = snd x" by (cases x) simp
    with True v(2,3) show ?thesis by (cases x) auto
  next
    case False
    with Cons.prems(3) have m: "map_of m k = Some a" by (cases x) simp
    then have "a \<in> snd ` set m" by (force dest: map_of_SomeD)
    with v have "a \<noteq> snd x" by blast
    with Cons.IH [OF v(1,4) m] False show ?thesis by simp
  qed
qed

lemma InitApplication_in_heap:
  assumes "apps_in_heap mg"
  shows "apps_in_heap (fst (InitApplication pl name cfg mg))"
proof -
  let ?u = "AList.update name (length (app_heap mg)) (applications mg)"
  have lt: "\<forall>a \<in> snd ` set (applications mg). a < length (app_heap mg)"
    using assms by (simp add: apps_in_heap_def)
  then have lt': "\<forall>a \<in> snd ` set (applications mg). a < Suc (length (app_heap mg))" by auto
  have fresh: "length (app_heap mg) \<notin> snd ` set (applications mg)" using lt by blast
  have d: "distinct (map snd (applications mg))" using assms by (simp add: apps_in_heap_def)
  have "\<forall>a \<in> snd ` set ?u. a < Suc (length (app_heap mg))"
  proof
    fix a
    assume "a \<in> snd ` set ?u"
    from subsetD [OF update_values this] lt' show "a < Suc (length (app_heap mg))"
      by (elim insertE) (simp, rule bspec)
  qed
  with update_fresh_distinct [OF fresh d] lt lt' d show ?thesis
    by (simp add: InitApplication_def Let_def apps_in_heap_def split_beta
        split: sum.split symbol.split option.split)
qed

lemma load_applications_append:
  "load_applications pl (as @ bs) err mg =
     (let (mg1, err1) = load_applications pl as err mg in load_applications pl bs err1 mg1)"
  by (induction as arbitrary: err mg) (auto simp: split_beta)

text \<open>Every message is given to every handler, whatever the others return.\<close>

lemma dispatch_eq:
  assumes "\<And>h. h \<in> set hs \<Longrightarrow> Handle h b r = Inr (f h)"
  shows "dispatch Handle b r hs =
           Inr (map (\<lambda>h. fst (f h)) hs, concat (map (\<lambda>h. fst (snd (f h))) hs),
                concat (map (\<lambda>h. case snd (snd (f h)) of None \<Rightarrow> [] | Some e \<Rightarrow> [e]) hs))"
  using assms by (induction hs) (auto simp: split_beta split: prod.split option.split)

section \<open>Properties\<close>

lemma itoa_nat_examples: "itoa_nat 0 = ''0''" "itoa_nat (Suc 0) = ''1''" "itoa_nat 10 = ''10''"
  by code_simp+

text \<open>A set of plugins for the witnesses: every object is a string.\<close>

definition ex_plugins :: "(string \<Rightarrow> string + (string, string, string) symbol) \<Rightarrow>
    (string, string, string, unit) plugins" where
  "ex_plugins open_so =
     \<lparr>plugin_Open = (\<lambda>path. Inr (\<lambda>_. open_so path)), yaml_Marshal = (\<lambda>c. Inr []),
      transport_Config = (\<lambda>b t. (t, if t = ''bad'' then Some ''config'' else None)),
      handler_Config = (\<lambda>b h. (h, None)), application_Config = (\<lambda>b a. (a, None)),
      is_MetricReceiver = (\<lambda>a. True), is_EventReceiver = (\<lambda>a. False)\<rparr>"

lemma ex_initPlugin:
  "initPlugin (ex_plugins open_so) name mg = open_so (filepath_Join [pluginPath mg, name @ ''.so''])"
  by (simp add: initPlugin_def ex_plugins_def)

lemma ex_plugins_simps [simp]:
  "yaml_Marshal (ex_plugins open_so) c = Inr []"
  "transport_Config (ex_plugins open_so) b t = (t, if t = ''bad'' then Some ''config'' else None)"
  "application_Config (ex_plugins open_so) b a = (a, None)"
  "is_MetricReceiver (ex_plugins open_so) a" "\<not> is_EventReceiver (ex_plugins open_so) a"
  by (simp_all add: ex_plugins_def)

lemma ex_paths:
  "filepath_Join [''/usr/lib64/sg-core'', ''p.so''] = ''/usr/lib64/sg-core/p.so''"
  "filepath_Join [''/usr/lib64/sg-core/'', ''p.so''] = ''/usr/lib64/sg-core/p.so''"
  "filepath_Join [''/usr/lib64/sg-core/'', ''q.so''] = ''/usr/lib64/sg-core/q.so''"
  by code_simp+

text \<open>
  If no configured transport name ends in a digit, every transport whose plugin loads
  gets a name of its own, its name with its number among the loaded ones, and none replaces
  another.
\<close>

theorem transport_names_unique:
  assumes "\<forall>t \<in> set ts. \<not> ends_in_digit (fst t)" and "transports mg = []"
  shows "map fst (transports (load_transports pl ts mg)) =
           unique_names (filter (transport_opens pl (pluginPath mg)) (map fst ts))"
  using load_transports_names [of mg "[]" ts pl] assms by (simp add: unique_names_def)

theorem transport_names_unique_witness:
  "map fst (transports (load_transports (ex_plugins (\<lambda>f. Inr (New_Transport f)))
       [(''socket'', [], ()), (''socket'', [], ())] manager_init)) = [''socket0'', ''socket1'']"
  using transport_names_unique [of "[(''socket'', [], ()), (''socket'', [], ())]" manager_init
      "ex_plugins (\<lambda>f. Inr (New_Transport f))"]
  by (simp add: ends_in_digit_def is_digit_def manager_init_def transport_opens_def ex_plugins_def
      unique_names_def itoa_nat_examples)

text \<open>
  A name that ends in a digit can collide with a later one: with \<open>amqp1\<close> loaded first and
  ten transports in the table, loading a transport named \<open>amqp\<close> overwrites it, so that the
  first transport is never run.
\<close>

theorem transport_name_collides:
  assumes "initPlugin pl ''amqp'' mg = Inr (New_Transport t)"
    and "length (transports mg) = 10" and "''amqp10'' \<in> fst ` set (transports mg)"
  shows "map fst (transports (fst (InitTransport pl ''amqp'' cfg mg))) = map fst (transports mg)"
  using assms
  by (auto simp: InitTransport_def Let_def split_beta update_keys itoa_nat_examples
      split: sum.split option.split)

theorem transport_name_collides_witness:
  "map fst (transports (fst (InitTransport (ex_plugins (\<lambda>f. Inr (New_Transport f))) ''amqp'' ()
     (manager_init\<lparr>transports := (''amqp10'', ''first'') # replicate 9 (''x'', ''y'')\<rparr>))))
   = ''amqp10'' # replicate 9 ''x''"
  using transport_name_collides [of "ex_plugins (\<lambda>f. Inr (New_Transport f))"
      "manager_init\<lparr>transports := (''amqp10'', ''first'') # replicate 9 (''x'', ''y'')\<rparr>" _ "()"]
  by (simp add: ex_initPlugin)

text \<open>
  A transport whose plugin loads is started, also if its configuration is rejected: the
  error is reported, but the transport stays in the table.
\<close>

theorem rejected_transport_still_runs:
  assumes "initPlugin pl name mg = Inr (New_Transport t)"
  shows "\<exists>t' hs. (name @ itoa_nat (length (transports mg)), t', hs)
                  \<in> set (RunTransports (fst (InitTransport pl name cfg mg)))"
proof -
  from InitTransport_stored [OF assms, of cfg] obtain t' where
    "map_of (transports (fst (InitTransport pl name cfg mg))) (name @ itoa_nat (length (transports mg))) = Some t'"
    by blast
  then show ?thesis by (force simp: RunTransports_def dest!: map_of_SomeD)
qed

theorem rejected_transport_still_runs_witness:
  "snd (InitTransport (ex_plugins (\<lambda>f. Inr (New_Transport ''bad''))) ''socket'' () manager_init) = Inl ''config''
   \<and> (\<exists>t' hs. (''socket0'', t', hs) \<in> set (RunTransports
        (fst (InitTransport (ex_plugins (\<lambda>f. Inr (New_Transport ''bad''))) ''socket'' () manager_init))))"
  using rejected_transport_still_runs [of "ex_plugins (\<lambda>f. Inr (New_Transport ''bad''))" "''socket''" manager_init
      "''bad''" "()"]
  by (simp add: ex_initPlugin InitTransport_def manager_init_def itoa_nat_examples)

text \<open>
  C24: Whether the program starts depends on the last configured application only: it exits
  without running anything exactly if that application failed to load, be it only because it
  receives nothing; failures of all others, and of transports and handlers, are passed over.
\<close>

theorem main_exits_iff_last_application_fails:
  assumes "cfgApplications cf = as @ [(name, cfg)]"
  shows "main_load pl cf = None \<longleftrightarrow>
           snd (InitApplication pl name cfg
             (fst (load_applications pl as None
               (load_transports pl (cfgTransports cf)
                 (SetEventBusBlocking (cfgBlockEventBus cf)
                   (SetPluginDir (cfgPluginDir cf) manager_init)))))) \<noteq> None"
  using assms by (simp add: main_load_def load_applications_append Let_def split_beta)

theorem main_exits_iff_last_application_fails_witness:
  "main_load (ex_plugins (\<lambda>f. if f = ''/usr/lib64/sg-core/p.so'' then Inr (New_Application (\<lambda>_. f)) else Inl ''no''))
     (default_config\<lparr>cfgApplications := [(''p'', ()), (''q'', ())]\<rparr>) = None
   \<and> main_load (ex_plugins (\<lambda>f. if f = ''/usr/lib64/sg-core/p.so'' then Inr (New_Application (\<lambda>_. f)) else Inl ''no''))
     (default_config\<lparr>cfgApplications := [(''q'', ()), (''p'', ())]\<rparr>) \<noteq> None"
  using main_exits_iff_last_application_fails [of "default_config\<lparr>cfgApplications := [(''p'', ()), (''q'', ())]\<rparr>"
      "[(''p'', ())]" "''q''" "()"
      "ex_plugins (\<lambda>f. if f = ''/usr/lib64/sg-core/p.so'' then Inr (New_Application (\<lambda>_. f)) else Inl ''no'')"]
    main_exits_iff_last_application_fails [of "default_config\<lparr>cfgApplications := [(''q'', ()), (''p'', ())]\<rparr>"
      "[(''q'', ())]" "''p''" "()"
      "ex_plugins (\<lambda>f. if f = ''/usr/lib64/sg-core/p.so'' then Inr (New_Application (\<lambda>_. f)) else Inl ''no'')"]
  by (simp add: ex_initPlugin ex_paths InitApplication_def SetPluginDir_def SetEventBusBlocking_def
      default_config_def Let_def)

text \<open>
  If the same application is configured twice, both instances are subscribed to the bus,
  but only the second stays in the table and is run.
\<close>

theorem second_instance_replaces_first:
  assumes "apps_in_heap mg" and "initPlugin pl name mg = Inr (New_Application new)"
    and "yaml_Marshal pl c1 = Inr b1" and "application_Config pl b1 (new Non_Blocking) = (a1, None)"
    and "yaml_Marshal pl c2 = Inr b2" and "application_Config pl b2 (new Non_Blocking) = (a2, None)"
    and "is_MetricReceiver pl a1" and "is_MetricReceiver pl a2"
  defines "mg1 \<equiv> fst (InitApplication pl name c1 mg)"
  defines "mg2 \<equiv> fst (InitApplication pl name c2 mg1)"
  shows "metricBus_subs mg2 = metricBus_subs mg @ [length (app_heap mg), Suc (length (app_heap mg))]
         \<and> Suc (length (app_heap mg)) \<in> set (RunApplications mg2)
         \<and> length (app_heap mg) \<notin> set (RunApplications mg2)"
proof -
  let ?n = "length (app_heap mg)"
  note i1 = InitApplication_ok [OF assms(2,3,4,7), folded mg1_def]
  have "initPlugin pl name mg1 = Inr (New_Application new)"
    using assms(2) initPlugin_path i1(5) by metis
  note i2 = InitApplication_ok [OF this assms(5,6,8), folded mg2_def]
  have wf: "apps_in_heap mg1" unfolding mg1_def by (rule InitApplication_in_heap) (rule assms(1))
  have a2: "applications mg2 = AList.update name (Suc ?n) (applications mg1)" using i1(3) i2(2) by simp
  have "Suc ?n \<notin> snd ` set (applications mg1)" using wf i1(3) by (auto simp: apps_in_heap_def)
  moreover have "map_of (applications mg1) name = Some ?n" using i1(2) by simp
  ultimately have "?n \<notin> snd ` set (applications mg2)"
    unfolding a2 using wf by (intro update_fresh_gone) (simp_all add: apps_in_heap_def)
  moreover have "(name, Suc ?n) \<in> set (applications mg2)"
    by (rule map_of_SomeD) (simp add: a2)
  ultimately show ?thesis using i1 i2 by (force simp: RunApplications_def)
qed

theorem second_instance_replaces_first_witness:
  "metricBus_subs (fst (InitApplication (ex_plugins (\<lambda>f. Inr (New_Application (\<lambda>_. f)))) ''p'' ()
      (fst (InitApplication (ex_plugins (\<lambda>f. Inr (New_Application (\<lambda>_. f)))) ''p'' () manager_init)))) = [0, 1]"
  using second_instance_replaces_first [of manager_init "ex_plugins (\<lambda>f. Inr (New_Application (\<lambda>_. f)))"
      "''p''" "\<lambda>_. ''/usr/lib64/sg-core/p.so''" "()" "[]" "''/usr/lib64/sg-core/p.so''" "()" "[]"
      "''/usr/lib64/sg-core/p.so''"]
  by (simp add: apps_in_heap_def manager_init_def ex_initPlugin ex_paths)

end
