(* ===== verification/PluginConfig.thy ===== *)
theory PluginConfig
  imports GoStrings
begin

text \<open>
  How every plugin reads its configuration (\<open>pkg/config/config.go\<close>): YAML is unmarshalled over
  the default values and the result is validated.  \<open>yaml\<close> is the unmarshaller, which may change the
  configuration even if it fails; \<open>validate\<close> is the validator.
\<close>

text \<open>The answer of the validator: fields that fail, by their full names, or another error.\<close>

datatype validation = Valid | Field_Errors "string list" | Validation_Error string

section \<open>Names of fields\<close>

text \<open>
  \<open>bytes.ToLower\<close> of a slice of one byte, and its first byte.  A byte beyond ASCII is not UTF-8 by
  itself; it is replaced by U+FFFD, whose first byte is 0xEF.
\<close>

definition byte_to_lower :: "char \<Rightarrow> char" where
  "byte_to_lower b = (if (of_char b :: nat) < 128 then char_lower b else CHR 0xEF)"

definition camel_item :: "string \<Rightarrow> string go" where
  "camel_item item = go_bind (slice_get item 0) (\<lambda>b. Inr (byte_to_lower b # tl item))"

definition setCamelCase :: "string \<Rightarrow> string go" where
  "setCamelCase field =
     go_bind (go_foldM (\<lambda>ret item. go_bind (camel_item item) (\<lambda>camel. Inr (ret @ [camel]))) []
       (str_split ''.'' field)) (\<lambda>ret.
     go_bind (slice_range ret 1 (int (length ret))) (\<lambda>rest. Inr (join ''.'' rest)))"

section \<open>Parsing\<close>

text \<open>The reader gives its bytes or an error.  A configuration that is left out arrives as \<open>null\<close>.\<close>

definition ParseConfig ::
  "(string \<Rightarrow> 'c \<Rightarrow> 'c \<times> string option) \<Rightarrow> ('c \<Rightarrow> validation) \<Rightarrow> string + string \<Rightarrow> 'c \<Rightarrow> ('c \<times> string option) go" where
  "ParseConfig yaml validate r config =
     (case r of
        Inl err \<Rightarrow> Inr (config, Some (''while reading configuration: '' @ err))
      | Inr configBytes \<Rightarrow>
          if configBytes = ''null'' @ [newline] then Inr (config, None)
          else
            (let (config', err) = yaml configBytes config
             in case err of
                  Some e \<Rightarrow> Inr (config', Some (''unmarshalling config yaml: '' @ e))
                | None \<Rightarrow>
                    (case validate config' of
                       Valid \<Rightarrow> Inr (config', None)
                     | Validation_Error e \<Rightarrow> Inr (config', Some (''error while validating configuration: '' @ e))
                     | Field_Errors es \<Rightarrow>
                         go_bind (go_foldM (\<lambda>missing fe. go_bind (setCamelCase fe) (\<lambda>f. Inr (missing @ [f]))) [] es)
                           (\<lambda>missingFields.
                              Inr (config', Some (''missing or incorrect configuration fields --  ''
                                                  @ join '' , '' missingFields @ '' --''))))))"

section \<open>Lemmas\<close>

lemma go_foldM_collect:
  "list_all2 (\<lambda>x y. f x = Inr y) xs ys \<Longrightarrow>
     go_foldM (\<lambda>ys x. go_bind (f x) (\<lambda>y. Inr (ys @ [y]))) acc xs = Inr (acc @ ys)"
  by (induction xs ys arbitrary: acc rule: list_all2_induct) simp_all

definition camel :: "string \<Rightarrow> string" where
  "camel item = (case item of [] \<Rightarrow> [] | b # rest \<Rightarrow> byte_to_lower b # rest)"

lemma camel_item_eq: "item \<noteq> [] \<Longrightarrow> camel_item item = Inr (camel item)"
  by (cases item) (simp_all add: camel_item_def camel_def slice_get_def)

text \<open>A full name: the struct, and the path of the field in it.\<close>

definition field_path :: "string list \<Rightarrow> bool" where
  "field_path ns \<longleftrightarrow> ns \<noteq> [] \<and> list_all (\<lambda>i. i \<noteq> [] \<and> CHR ''.'' \<notin> set i) ns"

lemma setCamelCase_path:
  assumes "field_path ns"
  shows "setCamelCase (join ''.'' ns) = Inr (join ''.'' (map camel (tl ns)))"
proof -
  have "str_split ''.'' (join ''.'' ns) = ns"
    using assms by (intro str_split_single_join) (auto simp: field_path_def list_all_iff)
  moreover have "list_all2 (\<lambda>x y. camel_item x = Inr y) ns (map camel ns)"
    using assms by (auto simp: field_path_def list_all_iff camel_item_eq list_all2_conv_all_nth)
  ultimately have "setCamelCase (join ''.'' ns) =
      go_bind (slice_range (map camel ns) 1 (int (length (map camel ns)))) (\<lambda>rest. Inr (join ''.'' rest))"
    by (simp add: setCamelCase_def go_foldM_collect)
  moreover have "slice_range (map camel ns) 1 (int (length (map camel ns))) = Inr (map camel (tl ns))"
    using assms by (cases ns) (simp_all add: slice_range_def field_path_def)
  ultimately show ?thesis by simp
qed

lemma setCamelCase_empty_item: "setCamelCase (''configT.'') = Inl Index_Out_Of_Range"
  by code_simp

section \<open>Properties\<close>

text \<open>
  A configuration whose fields fail the validation is rejected with a message that names each of
  these fields, in order, by its path below the struct with every part in lower camel case, as the
  configuration file spells it; the configuration that was left out is accepted as it is.
\<close>

theorem config_error_names_fields:
  assumes "blob \<noteq> ''null'' @ [newline]" and "yaml blob c0 = (c1, None)"
    and "validate c1 = Field_Errors (map (join ''.'') paths)" and "list_all field_path paths"
  shows "ParseConfig yaml validate (Inr blob) c0 =
           Inr (c1, Some (''missing or incorrect configuration fields --  ''
                    @ join '' , '' (map (\<lambda>ns. join ''.'' (map camel (tl ns))) paths) @ '' --''))
    \<and> ParseConfig yaml validate (Inr (''null'' @ [newline])) c0 = Inr (c0, None)"
proof -
  have "list_all2 (\<lambda>x y. setCamelCase x = Inr y) (map (join ''.'') paths)
          (map (\<lambda>ns. join ''.'' (map camel (tl ns))) paths)"
    using assms(4) by (simp add: list_all2_map1 list_all2_map2 list.rel_refl_strong list_all_iff setCamelCase_path)
  from go_foldM_collect [OF this, of "[]"] assms(1-3) show ?thesis
    by (simp add: ParseConfig_def)
qed

definition ex_validate :: "string \<times> string \<Rightarrow> validation" where
  "ex_validate c =
     (if fst c = [] \<and> snd c = [] then Field_Errors [''configT.Socketaddr'', ''configT.DumpMessages.Path'']
      else Valid)"

theorem config_error_names_fields_witness:
  "ParseConfig (\<lambda>b c. (c, None)) ex_validate (Inr ''{}'') ([], []) =
     Inr (([], []), Some ''missing or incorrect configuration fields --  socketaddr , dumpMessages.path --'')"
proof -
  let ?paths = "[[''configT'', ''Socketaddr''], [''configT'', ''DumpMessages'', ''Path'']]"
  have h: "''{}'' \<noteq> ''null'' @ [newline]" "(\<lambda>b c. (c, None)) ''{}'' ([] :: string, [] :: string) = (([], []), None)"
    "ex_validate ([], []) = Field_Errors (map (join ''.'') ?paths)" "list_all field_path ?paths"
    by (simp_all add: newline_def ex_validate_def field_path_def)
  have "map (\<lambda>ns. join ''.'' (map camel (tl ns))) ?paths = [''socketaddr'', ''dumpMessages.path'']"
    by code_simp
  with config_error_names_fields
      [where yaml = "\<lambda>b c. (c, None)" and validate = ex_validate and blob = "''{}''" and ?c0.0 = "([], [])"
        and ?c1.0 = "([], [])" and paths = ?paths, OF h] show ?thesis by simp
qed

end
