(* ===== verification/PrometheusIntervals.thy ===== *)
theory PrometheusIntervals
  imports PrometheusTheorems
begin

text \<open>
  In which expiry process a cached metric has its entry: the invariant that it is the one for
  the interval the cache records, which is the interval of the first value received under the
  key, and what follows for the life of a metric.
\<close>

section \<open>The invariant\<close>

definition in_process :: "prom \<Rightarrow> int64 \<Rightarrow> exp_id \<Rightarrow> bool" where
  "in_process p iv e \<longleftrightarrow> (\<exists>es. map_of (metricExpiryProcs p) iv = Some es \<and> Some e \<in> set es)"

definition interval_wf :: "prom \<Rightarrow> bool" where
  "interval_wf p \<longleftrightarrow>
     (\<forall>c k mp. c < length (coll_heap p) \<longrightarrow> map_of (procs_of p c) k = Some mp \<longrightarrow>
        in_process p (mInterval (mpMetric mp)) (mpExpiry mp))"

lemma interval_wfI:
  assumes "\<And>c k mp. c < length (coll_heap p) \<Longrightarrow> map_of (procs_of p c) k = Some mp \<Longrightarrow>
             in_process p (mInterval (mpMetric mp)) (mpExpiry mp)"
  shows "interval_wf p"
  using assms by (simp add: interval_wf_def)

lemma interval_wfD:
  "interval_wf p \<Longrightarrow> c < length (coll_heap p) \<Longrightarrow> map_of (procs_of p c) k = Some mp \<Longrightarrow>
     in_process p (mInterval (mpMetric mp)) (mpExpiry mp)"
  by (simp add: interval_wf_def)

lemma expiry_check_entries:
  "Some e \<in> set (fst (expiry_check expired delete es s)) \<Longrightarrow> Some e \<in> set es"
  using expiry_check_subset [of expired delete es s]
  by (cases "expiry_check expired delete es s") (auto simp: set_somes [symmetric])

text \<open>An entry is in one process only.\<close>

lemma in_process_unique:
  assumes "prom_inv p" and "in_process p iv e" and "in_process p jv e"
  shows "iv = jv"
proof (rule ccontr)
  assume ne: "iv \<noteq> jv"
  from assms(2,3) obtain es fs
    where es: "map_of (metricExpiryProcs p) iv = Some es" "Some e \<in> set es"
      and fs: "map_of (metricExpiryProcs p) jv = Some fs" "Some e \<in> set fs"
    by (auto simp: in_process_def)
  have "distinct (live_entries p)" using assms(1) by (simp add: prom_inv_def prom_wf_def entries_wf_def)
  from entry_in_one_process [OF this [unfolded live_entries_def] es(1) fs(1) ne es(2)] fs(2)
  show False by contradiction
qed

lemma live_in_process:
  assumes "prom_inv p" and "e \<in> set (live_entries p)"
  obtains iv where "in_process p iv e"
proof -
  have "gomap_wf (metricExpiryProcs p)" using assms(1) by (simp add: prom_inv_def prom_wf_def heap_wf_def)
  moreover from assms(2) obtain iv es where "(iv, es) \<in> set (metricExpiryProcs p)" "Some e \<in> set es"
    by (auto simp: live_entries_def set_somes)
  ultimately have "map_of (metricExpiryProcs p) iv = Some es" by (simp add: gomap_wf_def)
  with \<open>Some e \<in> set es\<close> that show thesis by (auto simp: in_process_def)
qed

section \<open>Every step keeps it\<close>

lemma interval_wf_frame:
  assumes "interval_wf p" and "length (coll_heap q) = length (coll_heap p)"
    and "metricExpiryProcs q = metricExpiryProcs p"
    and "\<And>c k mp. c < length (coll_heap p) \<Longrightarrow> map_of (procs_of q c) k = Some mp \<Longrightarrow>
           \<exists>mp0. map_of (procs_of p c) k = Some mp0 \<and> mpExpiry mp0 = mpExpiry mp
               \<and> mInterval (mpMetric mp0) = mInterval (mpMetric mp)"
  shows "interval_wf q"
proof (rule interval_wfI)
  fix c k mp
  assume "c < length (coll_heap q)" and "map_of (procs_of q c) k = Some mp"
  with assms(2,4) obtain mp0 where "map_of (procs_of p c) k = Some mp0" "mpExpiry mp0 = mpExpiry mp"
      "mInterval (mpMetric mp0) = mInterval (mpMetric mp)" "c < length (coll_heap p)" by force
  with interval_wfD [OF assms(1)] have "in_process p (mInterval (mpMetric mp)) (mpExpiry mp)" by force
  with assms(3) show "in_process q (mInterval (mpMetric mp)) (mpExpiry mp)" by (simp add: in_process_def)
qed

lemma interval_wf_ReceiveMetric:
  assumes inv: "prom_inv p" and reg: "registry p \<noteq> None" and q: "ReceiveMetric m p = Inr q"
    and iw: "interval_wf p"
  shows "interval_wf q"
proof -
  from find_collector_frame [OF inv reg, of m] obtain p1 d where f: "find_collector m p = Inr (p1, d)"
    and inv1: "prom_inv p1" and d1: "map_of (collectors p1) (length (mLabelKeys m)) = Some d"
    and mep: "metricExpiryProcs p1 = metricExpiryProcs p"
    and procs: "\<forall>d < length (coll_heap p). procs_of p1 d = procs_of p d" by blast
  have new: "procs_of p1 c = []" if "length (coll_heap p) \<le> c" "c < length (coll_heap p1)" for c
    using f that by (auto simp: find_collector_def Let_def procs_of_def nth_append split: option.splits)
  let ?p2 = "find_expiry_proc m p1"
  have inv2: "prom_inv ?p2" and d2: "map_of (collectors ?p2) (length (mLabelKeys m)) = Some d"
    using find_expiry_proc_inv [OF inv1, of m] d1 by simp_all
  obtain es0 where es0: "map_of (metricExpiryProcs ?p2) (mInterval m) = Some es0"
    using find_expiry_proc_inv [OF inv1, of m] by auto
  from collector_of_inv [OF inv2 d2] have dl: "d < length (coll_heap ?p2)"
    and b: "cacheindexbuilder (coll_heap ?p2 ! d) = []" by blast+
  have iw2: "interval_wf ?p2"
  proof (rule interval_wfI)
    fix c k mp
    assume c: "c < length (coll_heap ?p2)" and k: "map_of (procs_of ?p2 c) k = Some mp"
    with new have "c < length (coll_heap p)" by (metis find_expiry_proc_frame(6,7) map_of.simps(1) not_le option.distinct(1))
    moreover from this k procs have "map_of (procs_of p c) k = Some mp" by simp
    ultimately have "in_process p (mInterval (mpMetric mp)) (mpExpiry mp)" by (rule interval_wfD [OF iw])
    with mep show "in_process ?p2 (mInterval (mpMetric mp)) (mpExpiry mp)"
      by (auto simp: in_process_def find_expiry_proc_def split: option.split)
  qed
  have q': "q = UpdateMetrics d m ?p2" using q f by (simp add: ReceiveMetric_def)
  show ?thesis
  proof (cases "map_of (procs_of ?p2 d) (cache_key m)")
    case (Some mp0)
    then have "q = keepAlive (mpExpiry mp0) (refresh_proc d m mp0 ?p2)"
      by (simp add: q' UpdateMetrics_eq [OF dl b] del: find_expiry_proc_frame)
    then show ?thesis
      using Some dl by (intro interval_wf_frame [OF iw2]) (auto simp: refresh_proc_def split: if_splits)
  next
    case None
    let ?e = "length (exp_heap ?p2)"
    from None have eq: "q = keepAlive ?e (register_metric_expiry (mInterval m) ?e (add_proc d m ?p2))"
      by (simp add: q' UpdateMetrics_eq [OF dl b] del: find_expiry_proc_frame)
    have mono: "in_process q iv e" if "in_process ?p2 iv e" for iv e
      using that es0 by (auto simp: eq in_process_def register_metric_expiry_def register_def
          simp del: find_expiry_proc_frame)
    have own: "in_process q (mInterval m) ?e"
      using es0 by (simp add: eq in_process_def register_metric_expiry_def register_def
          del: find_expiry_proc_frame)
    show ?thesis
    proof (rule interval_wfI)
      fix c k mp
      assume c: "c < length (coll_heap q)" and k: "map_of (procs_of q c) k = Some mp"
      have procs_q: "procs_of q c = procs_of (add_proc d m ?p2) c" and len: "length (coll_heap q) = length (coll_heap ?p2)"
        by (simp_all add: eq del: find_expiry_proc_frame)
      show "in_process q (mInterval (mpMetric mp)) (mpExpiry mp)"
      proof (cases "c = d \<and> k = cache_key m")
        case True
        with k dl have "mpExpiry mp = ?e \<and> mpMetric mp = m"
          unfolding procs_q by (auto simp del: find_expiry_proc_frame)
        with own show ?thesis by simp
      next
        case False
        with k dl have "map_of (procs_of ?p2 c) k = Some mp"
          unfolding procs_q by (auto simp del: find_expiry_proc_frame split: if_splits)
        with c len show ?thesis by (intro mono interval_wfD [OF iw2]) simp_all
      qed
    qed
  qed
qed

lemma interval_wf_metric_check:
  assumes inv: "prom_inv p" and iw: "interval_wf p"
  shows "interval_wf (metric_check jv p)"
proof (cases "map_of (metricExpiryProcs p) jv")
  case None
  with iw show ?thesis by (simp add: metric_check_def)
next
  case fs: (Some fs)
  let ?q = "metric_check jv p"
  have inv': "prom_inv ?q" by (rule metric_check_inv [OF inv])
  have mep: "metricExpiryProcs ?q =
      AList.update jv (fst (expiry_check (metric_Expired (expiry_interval p jv)) metric_Delete fs p)) (metricExpiryProcs p)"
    using fs expiry_check_preserves [of metricExpiryProcs metric_Delete]
    by (simp add: metric_check_def split_beta)
  have older: "in_process p iv e" if "in_process ?q iv e" for iv e
    using that fs by (auto simp: in_process_def mep dest: expiry_check_entries split: if_splits)
  show ?thesis
  proof (rule interval_wfI)
    fix c k mp
    assume c: "c < length (coll_heap ?q)" and k: "map_of (procs_of ?q c) k = Some mp"
    have k0: "map_of (procs_of p c) k = Some mp"
    proof (cases "map_of (procs_of p c) k")
      case None
      have "gomap_wf (metricExpiryProcs p)" using inv by (simp add: prom_inv_def prom_wf_def heap_wf_def)
      from live_update_existing [OF this fs] obtain others
        where "mset (live_entries p) = mset (others @ somes fs)" by (auto simp: live_entries_def)
      from entries_wf_mset [OF this] inv have "metric_inv others (somes fs) p"
        by (simp add: metric_inv_def prom_inv_def prom_wf_def)
      from check_keeps_absent [OF None this] k fs show ?thesis
        by (simp add: metric_check_def split_beta procs_of_def)
    next
      case (Some mp0)
      with metric_check_lookup [OF inv _ Some fs] c k
      show ?thesis by (auto split: if_splits)
    qed
    with c have own: "in_process p (mInterval (mpMetric mp)) (mpExpiry mp)"
      by (intro interval_wfD [OF iw]) simp_all
    from inv' c k have "mpExpiry mp \<in> set (live_entries ?q)"
      by (simp add: prom_inv_def prom_wf_def entries_wf_def proc_ok_def)
    then obtain iv where "in_process ?q iv (mpExpiry mp)" by (rule live_in_process [OF inv'])
    with in_process_unique [OF inv own older] show "in_process ?q (mInterval (mpMetric mp)) (mpExpiry mp)"
      by blast
  qed
qed

lemma interval_wf_Collect:
  "interval_wf p \<Longrightarrow> d < length (coll_heap p) \<Longrightarrow> interval_wf (fst (Collect ncm d p))"
  by (rule interval_wf_frame) (auto simp: Collect_def map_of_mark split: if_splits)

lemma interval_wf_collect_all:
  "interval_wf p \<Longrightarrow> (\<And>d. d \<in> set cs \<Longrightarrow> d < length (coll_heap p)) \<Longrightarrow>
     interval_wf (fst (collect_all ncm cs p))"
proof (induction cs arbitrary: p)
  case Nil
  then show ?case by simp
next
  case (Cons d cs)
  from Cons.prems have "interval_wf (fst (Collect ncm d p))" by (intro interval_wf_Collect) simp_all
  with Cons.IH [of "fst (Collect ncm d p)"] Cons.prems(2) show ?case by (simp add: split_beta)
qed

lemma interval_wf_step:
  assumes "prom_step p q" and inv: "prom_inv p" and reg: "registry p \<noteq> None" and iw: "interval_wf p"
  shows "interval_wf q"
  using assms(1)
proof cases
  case (receive m)
  from interval_wf_ReceiveMetric [OF inv reg receive(2) iw] show ?thesis .
next
  case (expire_metrics jv)
  with interval_wf_metric_check [OF inv iw] show ?thesis by simp
next
  case expire_collectors
  with iw show ?thesis by (auto simp: interval_wf_def in_process_def)
next
  case (scraping gathered check ncm)
  from scraping(2) have "d < length (coll_heap p)" if "registry p = Some r" "d \<in> set (gathered r)" for r d
    using that by (simp add: gathers_existing_def)
  with scraping(1) iw show ?thesis
    by (auto simp: gather_def intro: interval_wf_collect_all split: option.split)
next
  case (tick d)
  with iw show ?thesis by (simp add: interval_wf_def in_process_def procs_of_def)
qed

lemma reachable_interval_wf: "prom_reachable p \<Longrightarrow> interval_wf p"
proof (induction rule: prom_reachable.induct)
  case (start cf)
  then show ?case by (simp add: interval_wf_def prom_start_def prom_Run_start_def prom_New_def)
next
  case (step p q)
  with interval_wf_step [OF step.hyps(2) prom_reachable_inv reachable_registry] show ?case by blast
qed

lemma metric_check_None: "map_of (metricExpiryProcs p) iv = None \<Longrightarrow> metric_check iv p = p"
  by (simp add: metric_check_def)

lemma metric_check_own_interval:
  assumes p: "prom_reachable p" and c: "c < length (coll_heap p)"
    and mp: "map_of (procs_of p c) k = Some mp"
  shows "map_of (procs_of (metric_check iv p) c) k =
    (if iv = mInterval (mpMetric mp) \<and> scrapped mp
        \<and> metric_Expired (expiry_interval p iv) (mpExpiry mp) p then None else Some mp)"
proof -
  note inv = prom_reachable_inv [OF p]
  have own: "in_process p (mInterval (mpMetric mp)) (mpExpiry mp)"
    by (rule interval_wfD [OF reachable_interval_wf [OF p] c mp])
  show ?thesis
  proof (cases "map_of (metricExpiryProcs p) iv")
    case None
    with own have "iv \<noteq> mInterval (mpMetric mp)" by (auto simp: in_process_def)
    with mp show ?thesis by (simp add: metric_check_None [OF None])
  next
    case (Some es)
    have "Some (mpExpiry mp) \<in> set es \<longleftrightarrow> iv = mInterval (mpMetric mp)"
    proof
      assume "Some (mpExpiry mp) \<in> set es"
      with Some have "in_process p iv (mpExpiry mp)" by (simp add: in_process_def)
      with in_process_unique [OF inv own] show "iv = mInterval (mpMetric mp)" by simp
    next
      assume "iv = mInterval (mpMetric mp)"
      with own Some show "Some (mpExpiry mp) \<in> set es" by (auto simp: in_process_def)
    qed
    with metric_check_lookup [OF inv c mp Some] show ?thesis by (auto simp: conj_commute)
  qed
qed

lemma fresh_zero_interval_pinned:
  assumes p: "prom_reachable p" and q: "ReceiveMetric m p = Inr q" and al: "metric_aligned m"
    and new: "lookup_metric p (length (mLabelKeys m)) (cache_key m) = None" and iv: "mInterval m = 0"
  shows "\<exists>c e. map_of (collectors q) (length (mLabelKeys m)) = Some c \<and> pinned c (cache_key m) e 0 q"
proof -
  from ReceiveMetric_result [OF prom_reachable_inv [OF p] reachable_registry [OF p], of m] q new
  obtain mp where mp: "lookup_metric q (length (mLabelKeys m)) (cache_key m) = Some mp" "mpMetric mp = m"
    by (auto simp: stored_as_def)
  have qr: "prom_reachable q" by (rule prom_reachable.step [OF p receive [OF al q]])
  from mp(1) obtain c where c: "map_of (collectors q) (length (mLabelKeys m)) = Some c"
    and k: "map_of (procs_of q c) (cache_key m) = Some mp"
    by (auto simp: lookup_metric_def split: option.splits)
  with collector_of_inv [OF prom_reachable_inv [OF qr] c] have cl: "c < length (coll_heap q)" by simp
  from interval_wfD [OF reachable_interval_wf [OF qr] cl k] mp(2) iv
  have "in_process q 0 (mpExpiry mp)" by simp
  with cl k have "pinned c (cache_key m) (mpExpiry mp) 0 q"
    by (simp add: pinned_def in_process_def expiry_interval_def wrap64_def)
  with c show ?thesis by blast
qed

section \<open>Properties\<close>

text \<open>
  C7: A check of the expiry process for the interval \<open>iv\<close> removes a cached metric exactly if
  \<open>iv\<close> is the interval recorded in the cache, which is that of the first value received under
  its key, no value arrived for that interval times the configured multiple, and the metric was
  scraped at least once; otherwise it leaves it as it is.
\<close>

theorem metric_expires_after_own_interval:
  assumes "prom_reachable p" and "c < length (coll_heap p)" and "map_of (procs_of p c) k = Some mp"
  shows "map_of (procs_of (metric_check iv p) c) k =
    (if iv = mInterval (mpMetric mp) \<and> scrapped mp
        \<and> wrap64 (iv * expirationMultiple (conf p))
            \<le> time_Since (now p) (lastArrival (exp_heap p ! mpExpiry mp)) then None else Some mp)"
  using metric_check_own_interval [OF assms] by (simp add: metric_Expired_def expiry_interval_def)

text \<open>The example metric, scraped once and then not seen for longer than its interval.\<close>

definition ex_scraped :: prom where
  "ex_scraped = (fst (scrape ex_gathered (\<lambda>_. None) (\<lambda>_ _ _ _. Inr ()) ex_received))\<lparr>now := 100\<rparr>"

lemma ex_scraped_reachable: "prom_reachable ex_scraped"
proof -
  let ?p = "fst (scrape ex_gathered (\<lambda>_. None) (\<lambda>_ _ _ _. Inr ()) ex_received)"
  have "prom_step ex_received ?p"
    by (intro scraping unchecked_gathers_existing [OF ex_unchecked] prom_reachable_inv [OF ex_received_reachable])
  then have "prom_reachable ?p" by (rule prom_reachable.step [OF ex_received_reachable])
  moreover have "now ?p = 0"
    by (simp add: gather_def ex_received_eq ex_gathered_def Collect_def)
  ultimately show ?thesis
    using prom_reachable.step [OF _ tick [of 100 ?p]] by (simp add: ex_scraped_def)
qed

theorem metric_expires_after_own_interval_witness:
  "map_of (procs_of (metric_check 1 ex_scraped) 0) ''cpuh1'' = None
   \<and> map_of (procs_of (metric_check 2 ex_scraped) 0) ''cpuh1'' = map_of (procs_of ex_scraped 0) ''cpuh1''
   \<and> map_of (procs_of ex_scraped 0) ''cpuh1'' \<noteq> None
   \<and> map_of (procs_of (metric_check 1 ex_stale) 0) ''cpuh1'' \<noteq> None"
proof -
  let ?mp = "\<lparr>description = (''cpu'', [''host'']), mpExpiry = 0,
             mpMetric = ex_metric ''cpu'' ''h1'' 1 7, scrapped = False\<rparr>"
  have stale: "map_of (procs_of ex_stale 0) ''cpuh1'' = Some ?mp" "0 < length (coll_heap ex_stale)"
    by (simp_all add: ex_stale_def ex_received_eq procs_of_def)
  have scraped: "map_of (procs_of ex_scraped 0) ''cpuh1'' = Some (?mp\<lparr>scrapped := True\<rparr>)"
    "0 < length (coll_heap ex_scraped)" "mInterval (ex_metric ''cpu'' ''h1'' 1 7) = 1"
    "conf ex_scraped = ex_conf" "now ex_scraped = 100" "lastArrival (exp_heap ex_scraped ! 0) = Some 0"
    by (simp_all add: ex_scraped_def gather_def ex_received_eq ex_gathered_def Collect_def procs_of_def set_procs_def
        set_collector_def ex_metric_def)
  have "expirationMultiple ex_conf = 2" by (simp add: ex_conf_def)
  with scraped(3-) metric_expires_after_own_interval [OF ex_scraped_reachable scraped(2,1), of 1]
    metric_expires_after_own_interval [OF ex_scraped_reachable scraped(2,1), of 2]
    metric_expires_after_own_interval [OF ex_stale_reachable stale(2,1), of 1] scraped(1)
  show ?thesis by (simp add: wrap64_def time_Since_def)
qed

end
