(* ===== verification/PrometheusRun.thy ===== *)
theory PrometheusRun
  imports Prometheus
begin

text \<open>
  The rest of \<open>Run\<close> of the Prometheus application (\<open>plugins/application/prometheus/main.go\<close>): the
  address and the pages of its HTTP server, and what happens at the end.  The HTTP server itself is
  the standard library's.
\<close>

section \<open>The server\<close>

definition metricsURL :: "prom \<Rightarrow> string" where
  "metricsURL p = promHost (conf p) @ '':'' @ itoa (promPort (conf p))"

text \<open>
  The routes: \<open>/metrics\<close> is the handler of the client library on the registry, every other path the
  page that points there.
\<close>

datatype http_page = Metrics_Of "registry_call list" | Root_Page

definition prom_route :: "prom \<Rightarrow> string \<Rightarrow> http_page option" where
  "prom_route p path =
     (case registry p of
        None \<Rightarrow> None
      | Some r \<Rightarrow> Some (if path = ''/metrics'' then Metrics_Of r else Root_Page))"

text \<open>
  How \<open>ListenAndServe\<close> comes back: by the shutdown, or by an error, after which the application
  signals the end of the program on the channel \<open>done\<close>.
\<close>

datatype served = Server_Closed | Serve_Error string

definition signals_done :: "served \<Rightarrow> bool" where
  "signals_done res = (case res of Server_Closed \<Rightarrow> False | Serve_Error e \<Rightarrow> True)"

section \<open>The end\<close>

text \<open>When the context is done every collector in the map is unregistered; the cache stays.\<close>

definition prom_shutdown :: "prom \<Rightarrow> prom" where
  "prom_shutdown p =
     p\<lparr>registry := map_option (\<lambda>r. r @ map (\<lambda>(n, c). Unregister c (Describe c p)) (collectors p)) (registry p)\<rparr>"

lemma prom_shutdown_unregisters:
  assumes "registry p = Some r"
  shows "\<exists>calls. registry (prom_shutdown p) = Some (r @ calls)
    \<and> map (\<lambda>call. case call of Unregister c ds \<Rightarrow> c | MustRegister c ds \<Rightarrow> c) calls = map snd (collectors p)
    \<and> coll_heap (prom_shutdown p) = coll_heap p \<and> collectors (prom_shutdown p) = collectors p"
  using assms by (auto simp: prom_shutdown_def comp_def split_beta)

end
