(* ===== verification/ElasticsearchRun.thy ===== *)
theory ElasticsearchRun
  imports Elasticsearch
begin

text \<open>
  How the Elasticsearch application connects and starts (\<open>Config\<close> and the beginning of \<open>Run\<close> in
  \<open>plugins/application/elasticsearch/main.go\<close>, \<open>Connect\<close> and \<open>createTLSConfig\<close> in
  \<open>pkg/lib/client.go\<close>).  Reading key files and the client library are parameters.
\<close>

section \<open>Connecting\<close>

text \<open>
  The TLS configuration: the certificate and the authorities as they were read, and either a server
  name or no verification of the server at all.
\<close>

record tls_config =
  tlsCertificate :: string
  tlsRootCAs :: string
  tlsServerName :: string
  tlsInsecureSkipVerify :: bool

text \<open>\<open>load_pair\<close> is \<open>tls.LoadX509KeyPair\<close>, \<open>read_file\<close> is \<open>os.ReadFile\<close>.\<close>

definition createTLSConfig ::
  "(string \<Rightarrow> string \<Rightarrow> string + string) \<Rightarrow> (string \<Rightarrow> string + string)
     \<Rightarrow> string \<Rightarrow> string \<Rightarrow> string \<Rightarrow> string \<Rightarrow> string + tls_config" where
  "createTLSConfig load_pair read_file serverName certFile keyFile caFile =
     (case load_pair certFile keyFile of
        Inl err \<Rightarrow> Inl err
      | Inr cert \<Rightarrow>
          (case read_file caFile of
             Inl err \<Rightarrow> Inl err
           | Inr ca \<Rightarrow>
               (let tlsConfig = \<lparr>tlsCertificate = cert, tlsRootCAs = ca, tlsServerName = [],
                                 tlsInsecureSkipVerify = False\<rparr>
                in if length serverName = 0 then Inr (tlsConfig\<lparr>tlsInsecureSkipVerify := True\<rparr>)
                   else Inr (tlsConfig\<lparr>tlsServerName := serverName\<rparr>))))"

text \<open>What the library is given: the address, the TLS configuration, the user and the password.\<close>

record es_client_config =
  esAddresses :: "string list"
  esTLS :: "tls_config option"
  esUsername :: string
  esPassword :: string

text \<open>
  \<open>new_client\<close> makes a connection or an error, \<open>info\<close> is the answer to the request for the server's
  information: an error, or the error that reading the body ends with, if any.
\<close>

definition Connect ::
  "(string \<Rightarrow> string \<Rightarrow> string + string) \<Rightarrow> (string \<Rightarrow> string + string) \<Rightarrow> (es_client_config \<Rightarrow> string + 'conn)
     \<Rightarrow> ('conn \<Rightarrow> string + string option) \<Rightarrow> es_config \<Rightarrow> 'conn option \<times> string option" where
  "Connect load_pair read_file new_client info cfg =
     (case (if UseTLS cfg
            then map_sum id Some (createTLSConfig load_pair read_file (TLSServerName cfg) (TLSClientCert cfg)
                                    (TLSClientKey cfg) (TLSCaCert cfg))
            else Inr None) of
        Inl err \<Rightarrow> (None, Some err)
      | Inr tls \<Rightarrow>
          (let esCfg = \<lparr>esAddresses = [HostURL cfg], esTLS = tls,
                        esUsername = (if UseBasicAuth cfg then User cfg else []),
                        esPassword = (if UseBasicAuth cfg then Password cfg else [])\<rparr>
           in case new_client esCfg of
                Inl err \<Rightarrow> (None, Some (''failed to initialize connection: '' @ err))
              | Inr conn \<Rightarrow>
                  (case info conn of
                     Inl err \<Rightarrow> (Some conn, Some (''failed to get info from connection: '' @ err))
                   | Inr rerr \<Rightarrow> (Some conn, discard_error rerr))))"

text \<open>
  \<open>Config\<close>: the configuration and the connection it leaves behind, whether it warns of a password
  sent without encryption, and its error.  \<open>connect\<close> is \<open>Connect\<close> with its parameters.
\<close>

definition es_Config ::
  "(es_config \<Rightarrow> es_config \<times> string option) \<Rightarrow> (es_config \<Rightarrow> 'conn option \<times> string option)
     \<Rightarrow> es_config \<times> 'conn option \<times> bool \<times> string option" where
  "es_Config ParseConfig connect =
     (let (cfg, err) = ParseConfig default_es_config
      in case err of
           Some e \<Rightarrow> (cfg, None, False, Some e)
         | None \<Rightarrow>
             (let warns = (UseBasicAuth cfg \<and> \<not> UseTLS cfg); (conn, cerr) = connect cfg
              in (cfg, conn, warns,
                  map_option (\<lambda>e. ''failed to connect to Elasticsearch host: '' @ e) cerr)))"

section \<open>Starting\<close>

text \<open>
  What \<open>Run\<close> comes to: it may give up and signal the end, or it starts the flusher with its period
  and the workers.
\<close>

datatype es_started = Gave_Up_And_Signalled | Flusher_And_Workers int64 nat

definition NewTicker :: "int64 \<Rightarrow> int64 go" where
  "NewTicker d = (if d \<le> 0 then Inl Non_Positive_Ticker else Inr d)"

definition es_Run_start :: "'w es_conn \<Rightarrow> es_config \<Rightarrow> 'w \<Rightarrow> (es_started \<times> 'w) go" where
  "es_Run_start conn cfg w =
     (let (err, w') = (case ResetIndices cfg of None \<Rightarrow> (None, w) | Some indices \<Rightarrow> IndicesDelete conn indices w)
      in if err \<noteq> None then Inr (Gave_Up_And_Signalled, w')
         else go_bind (NewTicker (wrap64 (BufferTimeout cfg * time_Second))) (\<lambda>tick.
                Inr (Flusher_And_Workers tick (nat (IndexWorkers cfg)), w')))"

section \<open>Properties\<close>

text \<open>
  The server's certificate is verified exactly if TLS is used with a server name, and the password is
  only given to the library if basic authentication is switched on.
\<close>

theorem tls_is_verified_iff_named:
  assumes "load_pair (TLSClientCert cfg) (TLSClientKey cfg) = Inr cert" and "read_file (TLSCaCert cfg) = Inr ca"
  shows "Connect load_pair read_file Inr (\<lambda>c. Inr None) cfg =
    (Some \<lparr>esAddresses = [HostURL cfg],
           esTLS = (if UseTLS cfg
                    then Some \<lparr>tlsCertificate = cert, tlsRootCAs = ca, tlsServerName = TLSServerName cfg,
                               tlsInsecureSkipVerify = (TLSServerName cfg = [])\<rparr>
                    else None),
           esUsername = (if UseBasicAuth cfg then User cfg else []),
           esPassword = (if UseBasicAuth cfg then Password cfg else [])\<rparr>, None)"
  using assms by (auto simp: Connect_def createTLSConfig_def discard_error_def Let_def)

text \<open>
  The application gives up, and signals the end of the program, exactly if it is to reset
  indices and deleting them fails; a status of 404 is no failure.  Otherwise a buffer timeout that
  is not positive (in nanoseconds, as an \<open>int64\<close>) ends the process with a panic when \<open>Run\<close> starts the
  flusher, although the configuration was accepted, even if nothing is ever buffered.
\<close>

theorem es_Run_start_cases:
  assumes "is_int64 (BufferTimeout cfg * time_Second)"
  shows "es_Run_start conn cfg w =
    (case ResetIndices cfg of
       Some indices \<Rightarrow>
         (case conn (Req_Delete indices) w of
            (Inl err, w') \<Rightarrow> Inr (Gave_Up_And_Signalled, w')
          | (Inr (status, body, rerr), w') \<Rightarrow>
              if status \<notin> {200, 404} \<or> rerr \<noteq> None then Inr (Gave_Up_And_Signalled, w')
              else if BufferTimeout cfg \<le> 0 then Inl Non_Positive_Ticker
              else Inr (Flusher_And_Workers (BufferTimeout cfg * time_Second) (nat (IndexWorkers cfg)), w'))
     | None \<Rightarrow>
         if BufferTimeout cfg \<le> 0 then Inl Non_Positive_Ticker
         else Inr (Flusher_And_Workers (BufferTimeout cfg * time_Second) (nat (IndexWorkers cfg)), w))"
proof -
  have "NewTicker (wrap64 (BufferTimeout cfg * time_Second)) =
      (if BufferTimeout cfg \<le> 0 then Inl Non_Positive_Ticker else Inr (BufferTimeout cfg * time_Second))"
    using assms by (auto simp: NewTicker_def wrap64_id time_Second_def)
  then show ?thesis
    by (auto simp: es_Run_start_def IndicesDelete_def discard_error_def StatusOK_def StatusNotFound_def
        Let_def split: option.split prod.split sum.split)
qed

theorem es_Run_start_cases_witness:
  "es_Run_start (\<lambda>r w. (Inr (404, [], None), w)) (default_es_config\<lparr>ResetIndices := Some [''ix'']\<rparr>) ()
     = Inr (Flusher_And_Workers 5000000000 3, ())
   \<and> es_Run_start (\<lambda>r w. (Inr (200, [], None), w)) (default_es_config\<lparr>BufferTimeout := 0\<rparr>) ()
     = Inl Non_Positive_Ticker"
  using es_Run_start_cases [of "default_es_config\<lparr>ResetIndices := Some [''ix'']\<rparr>" "\<lambda>r w. (Inr (404, [], None), w)" "()"]
    es_Run_start_cases [of "default_es_config\<lparr>BufferTimeout := 0\<rparr>" "\<lambda>r w. (Inr (200, [], None), w)" "()"]
  by (simp add: default_es_config_def is_int64_def time_Second_def)

end
