(* ===== verification/ElasticsearchLife.thy ===== *)
theory ElasticsearchLife
  imports ElasticsearchRun
begin

text \<open>
  The life of the Elasticsearch application (\<open>Run\<close> in \<open>plugins/application/elasticsearch/main.go\<close>): the
  flusher and the index workers, their end when the context is cancelled, and what becomes of the
  records that come later.
\<close>

section \<open>Steps\<close>

text \<open>
  \<open>lifeFlusher\<close> and \<open>lifeWorkers\<close> are the goroutines of \<open>Run\<close> that have not returned;
  \<open>lifeReturned\<close> says that \<open>Run\<close> itself has.
\<close>

record es_life =
  lifeEs :: es
  lifeFlusher :: bool
  lifeWorkers :: nat
  lifeCancelled :: bool
  lifeReturned :: bool

definition life_start :: "es_config \<Rightarrow> es_life" where
  "life_start cf =
     \<lparr>lifeEs = es_New cf, lifeFlusher = True, lifeWorkers = nat (IndexWorkers cf), lifeCancelled = False,
      lifeReturned = False\<rparr>"

text \<open>
  \<open>ReceiveEvent\<close> may be called at any time, by the bus.  When the context is done a goroutine may
  still take another tick or batch, since \<open>select\<close> chooses among the cases that are ready.
  \<open>answers\<close> tells what the client may return for a batch.
\<close>

inductive life_step ::
  "(event \<Rightarrow> string option go) \<Rightarrow> (es_index \<Rightarrow> string option \<Rightarrow> bool) \<Rightarrow> es_life \<Rightarrow> event option \<Rightarrow> es_life \<Rightarrow> bool"
  for fmt answers where
  life_receive: "es_ReceiveEvent fmt e (lifeEs s) = Inr es' \<Longrightarrow>
     life_step fmt answers s (Some e) (s\<lparr>lifeEs := es'\<rparr>)"
| life_send: "sending (lifeEs s) = pre @ d # post \<Longrightarrow> length (dump (lifeEs s)) < dump_capacity \<Longrightarrow>
     life_step fmt answers s None
       (s\<lparr>lifeEs := (lifeEs s)\<lparr>sending := pre @ post, dump := dump (lifeEs s) @ [d]\<rparr>\<rparr>)"
| life_work: "0 < lifeWorkers s \<Longrightarrow> dump (lifeEs s) = d # ds \<Longrightarrow> answers d err \<Longrightarrow>
     life_step fmt answers s None (s\<lparr>lifeEs := es_work err (lifeEs s)\<rparr>)"
| life_flush: "lifeFlusher s \<Longrightarrow> list_all (\<lambda>b. answers b (res b)) (es_buffer (lifeEs s)) \<Longrightarrow>
     life_step fmt answers s None (s\<lparr>lifeEs := es_flush res (lifeEs s)\<rparr>)"
| life_cancel: "life_step fmt answers s None (s\<lparr>lifeCancelled := True\<rparr>)"
| life_flusher_ends: "lifeCancelled s \<Longrightarrow> lifeFlusher s \<Longrightarrow>
     life_step fmt answers s None (s\<lparr>lifeFlusher := False\<rparr>)"
| life_worker_ends: "lifeCancelled s \<Longrightarrow> lifeWorkers s = Suc n \<Longrightarrow>
     life_step fmt answers s None (s\<lparr>lifeWorkers := n\<rparr>)"
| life_return: "\<not> lifeFlusher s \<Longrightarrow> lifeWorkers s = 0 \<Longrightarrow>
     life_step fmt answers s None (s\<lparr>lifeReturned := True\<rparr>)"

abbreviation life_run ::
  "(event \<Rightarrow> string option go) \<Rightarrow> (es_index \<Rightarrow> string option \<Rightarrow> bool) \<Rightarrow> es_life \<Rightarrow> event list \<Rightarrow> es_life \<Rightarrow> bool"
  where
  "life_run fmt answers \<equiv> traced (life_step fmt answers)"

section \<open>Lemmas\<close>

text \<open>The goroutines that are left are some of those that were started, and \<open>Run\<close> waits for them.\<close>

definition life_inv :: "es_config \<Rightarrow> es_life \<Rightarrow> bool" where
  "life_inv cf s \<longleftrightarrow>
     lifeWorkers s \<le> nat (IndexWorkers cf) \<and> (lifeReturned s \<longrightarrow> \<not> lifeFlusher s \<and> lifeWorkers s = 0)"

lemma life_run_inv: "life_run fmt answers (life_start cf) evs s \<Longrightarrow> life_inv cf s"
  by (erule traced_invariant) (auto simp: life_inv_def life_start_def elim!: life_step.cases)

text \<open>Every run of the whole application is a run of its buffers and channel.\<close>

lemma life_step_simulated:
  assumes "life_step fmt answers s oe t" and "es_run fmt answers cf evs (lifeEs s)" and "life_inv cf s"
  shows "es_run fmt answers cf (evs @ input_of oe) (lifeEs t)"
  using assms(1)
proof cases
  case (life_receive e es')
  with assms(2) show ?thesis by (simp add: es_run.receive)
next
  case (life_send pre d post)
  with assms(2) show ?thesis by (simp add: es_run.send)
next
  case (life_work d ds err)
  then have "0 < IndexWorkers cf" using assms(3) by (auto simp: life_inv_def)
  with life_work assms(2) show ?thesis by (simp add: es_run.work)
next
  case (life_flush res)
  with assms(2) show ?thesis by (simp add: es_run.flush)
qed (use assms(2) in simp_all)

lemma life_run_simulated: "life_run fmt answers (life_start cf) evs s \<Longrightarrow> es_run fmt answers cf evs (lifeEs s)"
proof (induction "life_start cf" evs s rule: traced.induct)
  case traced_refl
  then show ?case by (simp add: life_start_def es_run.start)
next
  case (traced_step evs s oe t)
  then show ?case using life_step_simulated life_run_inv by blast
qed

text \<open>What the client has been asked for, with its answers.\<close>

definition asked :: "es \<Rightarrow> es_index list \<times> es_index list" where
  "asked es = (indexed es, disregarded es)"

lemma es_ReceiveEvent_asked: "es_ReceiveEvent fmt e es = Inr es' \<Longrightarrow> asked es' = asked es"
  by (auto simp: asked_def es_ReceiveEvent_def es_store_def go_bind_eq_Inr_iff Let_def split: option.split)

lemma asked_frame [simp]: "asked (es\<lparr>sending := x, dump := y\<rparr>) = asked es"
  by (simp add: asked_def)

text \<open>Once the goroutines have ended nothing is indexed any more.\<close>

lemma life_run_ended:
  assumes "life_run fmt answers s evs t" and "\<not> lifeFlusher s" and "lifeWorkers s = 0"
  shows "\<not> lifeFlusher t \<and> lifeWorkers t = 0 \<and> asked (lifeEs t) = asked (lifeEs s)"
  using assms(1)
  by (rule traced_invariant
        [where P = "\<lambda>t. \<not> lifeFlusher t \<and> lifeWorkers t = 0 \<and> asked (lifeEs t) = asked (lifeEs s)"])
     (auto simp: assms(2,3) es_ReceiveEvent_asked elim!: life_step.cases)

text \<open>After the cancellation the goroutines can end one after the other.\<close>

lemma life_workers_end:
  "lifeCancelled s \<Longrightarrow> life_run fmt answers s [] (s\<lparr>lifeWorkers := 0\<rparr>)"
proof (induction "lifeWorkers s" arbitrary: s)
  case 0
  then have "s\<lparr>lifeWorkers := 0\<rparr> = s" by simp
  then show ?case using traced_refl [of "life_step fmt answers" s] by simp
next
  case (Suc n)
  then have "life_run fmt answers s [] (s\<lparr>lifeWorkers := n\<rparr>)"
    by (intro traced_silent [where step = "life_step fmt answers", OF traced_refl] life_worker_ends) simp_all
  moreover have "life_run fmt answers (s\<lparr>lifeWorkers := n\<rparr>) [] (s\<lparr>lifeWorkers := 0\<rparr>)"
    using Suc.hyps(1) [of "s\<lparr>lifeWorkers := n\<rparr>"] Suc.prems by simp
  ultimately show ?case using traced_append by fastforce
qed

lemma life_can_return:
  assumes "lifeCancelled s"
  shows "\<exists>t. life_run fmt answers s [] t \<and> lifeReturned t \<and> asked (lifeEs t) = asked (lifeEs s)"
proof -
  have "life_run fmt answers s [] (s\<lparr>lifeWorkers := 0, lifeFlusher := False\<rparr>)"
  proof (cases "lifeFlusher s")
    case True
    with assms show ?thesis
      by (intro traced_silent [where step = "life_step fmt answers", OF life_workers_end [OF assms] life_flusher_ends]) simp_all
  next
    case False
    then have "s\<lparr>lifeWorkers := 0, lifeFlusher := False\<rparr> = s\<lparr>lifeWorkers := 0\<rparr>" by simp
    with life_workers_end [OF assms] show ?thesis by simp
  qed
  from traced_silent [where step = "life_step fmt answers", OF this life_return] show ?thesis
    by (intro exI [of _ "s\<lparr>lifeWorkers := 0, lifeFlusher := False, lifeReturned := True\<rparr>"]) simp
qed

section \<open>Properties\<close>

text \<open>
  C13: At any moment every record of the events received is once in one of five places: indexed,
  dropped with a batch for which the client returned an error, in the channel, waiting to be sent or
  buffered; so as long as the client returns no error nothing is dropped.  Once the context is
  cancelled \<open>Run\<close> can return at once, without calling the client any more, and after that it is not
  called in any further run: the records that have not been indexed by then, and those of all later
  events, are lost.
\<close>

theorem es_records_lost_at_end:
  assumes "life_run fmt answers (life_start cf) evs s" and "life_run fmt answers s evs' t"
  shows "records_of (indexed (lifeEs t)) + records_of (disregarded (lifeEs t)) + records_of (dump (lifeEs t))
         + records_of (sending (lifeEs t)) + records_of (es_buffer (lifeEs t)) = stored_records fmt (evs @ evs')
     \<and> list_all (\<lambda>b. answers b None) (indexed (lifeEs t))
     \<and> list_all (\<lambda>b. \<exists>err. answers b (Some err)) (disregarded (lifeEs t))
     \<and> (lifeCancelled s \<longrightarrow> (\<exists>u. life_run fmt answers s [] u \<and> lifeReturned u
          \<and> indexed (lifeEs u) = indexed (lifeEs s) \<and> disregarded (lifeEs u) = disregarded (lifeEs s)))
     \<and> (lifeReturned s \<longrightarrow>
          indexed (lifeEs t) = indexed (lifeEs s) \<and> disregarded (lifeEs t) = disregarded (lifeEs s))"
proof (intro conjI impI)
  from traced_append [OF assms(2,1)] have run: "es_run fmt answers cf (evs @ evs') (lifeEs t)"
    by (rule life_run_simulated)
  from es_run_conserves [OF run] show "records_of (indexed (lifeEs t)) + records_of (disregarded (lifeEs t))
      + records_of (dump (lifeEs t)) + records_of (sending (lifeEs t)) + records_of (es_buffer (lifeEs t))
      = stored_records fmt (evs @ evs')"
    by (simp add: all_records_def)
  from es_run_answers [OF run] show "list_all (\<lambda>b. answers b None) (indexed (lifeEs t))"
    and "list_all (\<lambda>b. \<exists>err. answers b (Some err)) (disregarded (lifeEs t))" by simp_all
  show "\<exists>u. life_run fmt answers s [] u \<and> lifeReturned u \<and> indexed (lifeEs u) = indexed (lifeEs s)
      \<and> disregarded (lifeEs u) = disregarded (lifeEs s)" if "lifeCancelled s"
    using life_can_return [OF that] by (auto simp: asked_def)
  assume "lifeReturned s"
  with life_run_inv [OF assms(1)] life_run_ended [OF assms(2)] have "asked (lifeEs t) = asked (lifeEs s)"
    by (simp add: life_inv_def)
  then show "indexed (lifeEs t) = indexed (lifeEs s)" "disregarded (lifeEs t) = disregarded (lifeEs s)"
    by (simp_all add: asked_def)
qed

text \<open>A client that refuses the batch with the record \<open>a\<close>.\<close>

definition ex_answers :: "es_index \<Rightarrow> string option \<Rightarrow> bool" where
  "ex_answers b err \<longleftrightarrow> err = (if ''a'' \<in> set (snd b) then Some ''refused'' else None)"

text \<open>
  Records of one each: the first is dropped after the error of the client, the second is sent after
  the end of \<open>Run\<close> and stays in the channel.
\<close>

theorem es_records_lost_at_end_witness:
  "\<exists>s t. life_run ex_es_format ex_answers (life_start default_es_config) [ex_es_event ''a''] s \<and> lifeReturned s
     \<and> life_run ex_es_format ex_answers s [ex_es_event ''b''] t
     \<and> indexed (lifeEs t) = [] \<and> disregarded (lifeEs t) = [(''ix'', [''a''])]
     \<and> records_of (dump (lifeEs t)) + records_of (sending (lifeEs t)) = {#(''ix'', ''b'')#}"
proof -
  let ?step = "life_step ex_es_format ex_answers" and ?run = "life_run ex_es_format ex_answers"
  let ?put = "\<lambda>r u. u\<lparr>lifeEs := es_store ''ix'' r (lifeEs u)\<rparr>"
  have rec: "?step u (Some (ex_es_event r)) (?put r u)" for r u
    by (rule life_receive) (simp add: es_ReceiveEvent_def ex_es_format_def ex_es_event_def)
  define s0 where "s0 = life_start default_es_config"
  define s1 where "s1 = ?put ''a'' s0"
  define s2 where "s2 = s1\<lparr>lifeEs := (lifeEs s1)\<lparr>sending := [], dump := [(''ix'', [''a''])]\<rparr>\<rparr>"
  define s3 where "s3 = s2\<lparr>lifeEs := es_work (Some ''refused'') (lifeEs s2)\<rparr>"
  define s4 where "s4 = s3\<lparr>lifeCancelled := True\<rparr>"
  have e1: "sending (lifeEs s1) = [] @ (''ix'', [''a'']) # []" "dump (lifeEs s1) = []"
    by (simp_all add: s1_def s0_def life_start_def es_store_def es_New_def default_es_config_def)
  have "?run s0 [ex_es_event ''a''] s1"
    using traced_input [where step = "?step", OF traced_refl rec] by (simp add: s1_def)
  moreover have "?step s1 None s2"
    using life_send [OF e1(1), of ex_es_format ex_answers] by (simp add: e1 s2_def dump_capacity_def)
  moreover have "?step s2 None s3"
    unfolding s3_def
    by (rule life_work [where d = "(''ix'', [''a''])" and ds = "[]"])
       (simp_all add: s2_def s1_def s0_def life_start_def default_es_config_def ex_answers_def)
  moreover have "?step s3 None s4" unfolding s4_def by (rule life_cancel)
  ultimately have run4: "?run s0 [ex_es_event ''a''] s4"
    using traced_silent [where step = "?step"] by blast
  have e4: "indexed (lifeEs s4) = []" "disregarded (lifeEs s4) = [(''ix'', [''a''])]"
    by (simp_all add: s4_def s3_def s2_def s1_def s0_def life_start_def es_store_def es_New_def es_work_def
        default_es_config_def)
  from es_records_lost_at_end [OF run4 [unfolded s0_def] traced_refl] obtain s where
    s: "?run s4 [] s" "lifeReturned s" "indexed (lifeEs s) = []" "disregarded (lifeEs s) = [(''ix'', [''a''])]"
    unfolding e4 by (auto simp: s4_def)
  from traced_append [OF s(1) run4] have run: "?run s0 [ex_es_event ''a''] s" by simp
  have t: "?run s [ex_es_event ''b''] (?put ''b'' s)"
    using traced_input [where step = "?step", OF traced_refl rec] by simp
  have "es_configuration (lifeEs s) = default_es_config"
    using es_run_inv [OF life_run_simulated [OF run [unfolded s0_def]]] by (simp add: es_inv_def)
  moreover have "BufferSize default_es_config = 1" by (simp add: default_es_config_def)
  moreover have "es_buffer (lifeEs s) = []"
    using es_run_inv [OF life_run_simulated [OF run [unfolded s0_def]]] by (simp add: es_inv_def default_es_config_def)
  ultimately have "es_buffer (lifeEs (?put ''b'' s)) = []" by (simp add: es_store_def)
  moreover have "stored_records ex_es_format ([ex_es_event ''a''] @ [ex_es_event ''b''])
      = {#(''ix'', ''a''), (''ix'', ''b'')#}"
    by (simp add: ex_es_format_def ex_es_event_def)
  moreover have "indexed (lifeEs (?put ''b'' s)) = indexed (lifeEs s)
      \<and> disregarded (lifeEs (?put ''b'' s)) = disregarded (lifeEs s)"
    using es_records_lost_at_end [OF run [unfolded s0_def] t] s(2) by blast
  then have e: "indexed (lifeEs (?put ''b'' s)) = []" "disregarded (lifeEs (?put ''b'' s)) = [(''ix'', [''a''])]"
    using s(3,4) by simp_all
  ultimately have "records_of (dump (lifeEs (?put ''b'' s))) + records_of (sending (lifeEs (?put ''b'' s)))
      = {#(''ix'', ''b'')#}"
    using es_records_lost_at_end [OF run [unfolded s0_def] t, THEN conjunct1] unfolding e by simp
  with e run t s(2) show ?thesis unfolding s0_def by blast
qed

end
