(* ===== verification/Alertmanager.thy ===== *)
theory Alertmanager
  imports Data "HOL-Library.List_Lexorder" "HOL-Library.Char_ord"
begin

text \<open>
  The alerting application (\<open>plugins/application/alertmanager/main.go\<close>, \<open>pkg/lib/alert.go\<close>,
  \<open>pkg/lib/generator.go\<close>): an event becomes an alert with string labels and a summary.  The
  function \<open>AssimilateMap\<close> of \<open>apputils\<close>, which collects the strings of a map, is a parameter,
  as is the clock and the formatting of its time.
\<close>

section \<open>Alerts\<close>

record alert =
  aLabels :: "(string, string) gomap"
  aAnnotations :: "(string, string) gomap"
  aStartsAt :: string
  aEndsAt :: string
  aGeneratorURL :: string

text \<open>\<open>alert.Labels[k]\<close>: the empty string for a missing key.\<close>

definition get_or_empty :: "(string, string) gomap \<Rightarrow> string \<Rightarrow> string" where
  "get_or_empty m k = (case map_of m k of Some v \<Rightarrow> v | None \<Rightarrow> [])"

text \<open>
  \<open>SetName\<close>, which nothing calls.  The capacity \<open>len(alert.Labels)-1\<close> is negative if there
  are no labels.
\<close>

definition SetName :: "alert \<Rightarrow> alert go" where
  "SetName alert =
     (case map_of (aLabels alert) ''name'' of
        Some v \<Rightarrow> Inr alert
      | None \<Rightarrow>
          if int (length (aLabels alert)) - 1 < 0 then Inl Makeslice_Out_Of_Range
          else (let keys = sort (map fst (aLabels alert));
                    values = map (get_or_empty (aLabels alert)) (filter (\<lambda>k. k \<noteq> ''severity'') keys)
                in Inr (alert\<lparr>aLabels := AList.update ''name'' (join ''_'' values) (aLabels alert)\<rparr>)))"

definition agentSurrogates :: "string list" where
  "agentSurrogates = [''source_type'']"

definition eventSurrogates :: "string list" where
  "eventSurrogates = [''eventSourceType'', ''type'', ''domain'', ''service'']"

definition entitySurrogates :: "string list" where
  "entitySurrogates = [''name'', ''DataSource'', ''check'', ''connectivity'', ''procevent'', ''interface'']"

definition statusSurrogates :: "string list" where
  "statusSurrogates = [''severity'']"

text \<open>The inner loop: the first key of a group that is a label or an annotation.\<close>

fun first_surrogate :: "(string, string) gomap \<Rightarrow> (string, string) gomap \<Rightarrow> string list \<Rightarrow> string list" where
  "first_surrogate labels annots [] = []"
| "first_surrogate labels annots (k # ks) =
     (case map_of labels k of
        Some v \<Rightarrow> [v]
      | None \<Rightarrow>
          (case map_of annots k of Some v \<Rightarrow> [v] | None \<Rightarrow> first_surrogate labels annots ks))"

definition generated_summary :: "(string, string) gomap \<Rightarrow> (string, string) gomap \<Rightarrow> string" where
  "generated_summary labels annots =
     join '' '' (concat (map (first_surrogate labels annots)
       [agentSurrogates, eventSurrogates, entitySurrogates, statusSurrogates]))"

definition SetSummary :: "alert \<Rightarrow> alert" where
  "SetSummary alert =
     (let generate = (case map_of (aAnnotations alert) ''summary'' of Some s \<Rightarrow> s = [] | None \<Rightarrow> True)
      in if generate then
           (let summary = (case map_of (aLabels alert) ''summary'' of
                  Some v \<Rightarrow> if v \<noteq> [] then v else generated_summary (aLabels alert) (aAnnotations alert)
                | None \<Rightarrow> generated_summary (aLabels alert) (aAnnotations alert))
            in alert\<lparr>aAnnotations := AList.update ''summary'' summary (aAnnotations alert)\<rparr>)
         else alert)"

definition GenerateAlert ::
  "((string, ivalue) gomap \<Rightarrow> (string, string) gomap) \<Rightarrow> string \<Rightarrow> string \<Rightarrow> event \<Rightarrow> alert go" where
  "GenerateAlert assimilate now_text generatorURL e =
     go_bind (event_severity_String (eSeverity e)) (\<lambda>sev.
       Inr (SetSummary
         \<lparr>aLabels =
            AList.update ''publisher'' (ePublisher e)
              (AList.update ''alertsource'' ''SmartGateway''
                (AList.update ''severity'' sev
                  (AList.update ''alertname'' (eIndex e) (assimilate (eLabels e))))),
          aAnnotations = assimilate (eAnnotations e),
          aStartsAt = (if eTime e \<noteq> 0 then now_text else []),
          aEndsAt = [],
          aGeneratorURL = generatorURL\<rparr>))"

section \<open>The application\<close>

record am_config =
  AlertManagerURL :: string
  GeneratorURL :: string

definition default_am_config :: am_config where
  "default_am_config =
     \<lparr>AlertManagerURL = ''http://localhost'', GeneratorURL = ''http://sg.localhost.localdomain''\<rparr>"

text \<open>What \<open>ReceiveEvent\<close> sends to the channel, if anything.\<close>

definition am_ReceiveEvent ::
  "((string, ivalue) gomap \<Rightarrow> (string, string) gomap) \<Rightarrow> string \<Rightarrow> am_config \<Rightarrow> event \<Rightarrow> alert option go" where
  "am_ReceiveEvent assimilate now_text cf e =
     (case eType e of
        EVENT \<Rightarrow> go_bind (GenerateAlert assimilate now_text (GeneratorURL cf) e) (\<lambda>a. Inr (Some a))
      | _ \<Rightarrow> Inr None)"

definition am_Config :: "(am_config \<Rightarrow> am_config \<times> string option) \<Rightarrow> am_config \<times> string option" where
  "am_Config ParseConfig = ParseConfig default_am_config"

text \<open>The body of the request for an alert: a list of the one alert.\<close>

definition am_body :: "(alert \<Rightarrow> string + string) \<Rightarrow> alert \<Rightarrow> string option" where
  "am_body marshal a = (case marshal a of Inl err \<Rightarrow> None | Inr s \<Rightarrow> Some (''['' @ s @ '']''))"

section \<open>Lemmas\<close>

text \<open>The summary an alert ends up with.\<close>

definition summary_of :: "alert \<Rightarrow> string" where
  "summary_of a =
     (if get_or_empty (aAnnotations a) ''summary'' \<noteq> [] then get_or_empty (aAnnotations a) ''summary''
      else if get_or_empty (aLabels a) ''summary'' \<noteq> [] then get_or_empty (aLabels a) ''summary''
      else generated_summary (aLabels a) (aAnnotations a))"

lemma SetSummary_annotations:
  "map_of (aAnnotations (SetSummary a)) = (map_of (aAnnotations a))(''summary'' \<mapsto> summary_of a)"
  by (auto simp: SetSummary_def summary_of_def get_or_empty_def Let_def fun_eq_iff split: option.splits)

lemma SetSummary_frame [simp]:
  "aLabels (SetSummary a) = aLabels a" "aStartsAt (SetSummary a) = aStartsAt a"
  "aEndsAt (SetSummary a) = aEndsAt a" "aGeneratorURL (SetSummary a) = aGeneratorURL a"
  by (simp_all add: SetSummary_def Let_def)

section \<open>Properties\<close>

text \<open>
  The alert of an event carries the event's index, severity and publisher in its labels,
  whatever the event's own labels say, and all other strings of the event's labels and
  annotations as they are.  Its summary is the first non-empty one of the summary annotation,
  the summary label and the generated summary.
\<close>

theorem alert_of_event:
  assumes "GenerateAlert assimilate now_text url e = Inr a"
  shows "event_severity_String (eSeverity e) = Inr (get_or_empty (aLabels a) ''severity'')
     \<and> map_of (aLabels a) ''alertname'' = Some (eIndex e)
     \<and> map_of (aLabels a) ''publisher'' = Some (ePublisher e)
     \<and> map_of (aLabels a) ''alertsource'' = Some ''SmartGateway''
     \<and> (\<forall>k. k \<notin> {''severity'', ''alertname'', ''publisher'', ''alertsource''} \<longrightarrow>
           map_of (aLabels a) k = map_of (assimilate (eLabels e)) k)
     \<and> (\<forall>k. k \<noteq> ''summary'' \<longrightarrow> map_of (aAnnotations a) k = map_of (assimilate (eAnnotations e)) k)
     \<and> map_of (aAnnotations a) ''summary'' =
         Some (summary_of (a\<lparr>aAnnotations := assimilate (eAnnotations e)\<rparr>))"
proof -
  from assms obtain sev where sev: "event_severity_String (eSeverity e) = Inr sev"
    and a: "a = SetSummary
         \<lparr>aLabels =
            AList.update ''publisher'' (ePublisher e)
              (AList.update ''alertsource'' ''SmartGateway''
                (AList.update ''severity'' sev
                  (AList.update ''alertname'' (eIndex e) (assimilate (eLabels e))))),
          aAnnotations = assimilate (eAnnotations e),
          aStartsAt = (if eTime e \<noteq> 0 then now_text else []),
          aEndsAt = [],
          aGeneratorURL = url\<rparr>"
    by (auto simp: GenerateAlert_def go_bind_eq_Inr_iff)
  show ?thesis unfolding a SetSummary_annotations
    by (simp add: sev get_or_empty_def) (simp add: summary_of_def)
qed

definition ex_alert_event :: event where
  "ex_alert_event =
     \<lparr>eIndex = ''image'', eTime = 1583504009, eType = EVENT, ePublisher = ''p'', eSeverity = INFO,
      eLabels = [(''service'', IString ''image.localhost''), (''name'', IString ''cirros'')],
      eAnnotations = [(''source_type'', IString ''ceilometer'')], eMessage = []\<rparr>"

definition ex_assimilate :: "(string, ivalue) gomap \<Rightarrow> (string, string) gomap" where
  "ex_assimilate m = concat (map (\<lambda>(k, v). case v of IString s \<Rightarrow> [(k, s)] | _ \<Rightarrow> []) m)"

theorem alert_of_event_witness:
  "\<exists>a. GenerateAlert ex_assimilate ''now'' ''url'' ex_alert_event = Inr a
     \<and> map_of (aAnnotations a) ''summary'' = Some ''ceilometer image.localhost cirros info''
     \<and> map_of (aLabels a) ''alertname'' = Some ''image''"
proof -
  have "\<exists>a. GenerateAlert ex_assimilate ''now'' ''url'' ex_alert_event = Inr a"
    by (simp add: GenerateAlert_def ex_alert_event_def event_severity_String_def slice_get_def)
  then obtain a where a: "GenerateAlert ex_assimilate ''now'' ''url'' ex_alert_event = Inr a" by blast
  then have l: "aLabels a = [(''service'', ''image.localhost''), (''name'', ''cirros''), (''alertname'', ''image''),
      (''severity'', ''info''), (''alertsource'', ''SmartGateway''), (''publisher'', ''p'')]"
    by (auto simp: GenerateAlert_def ex_alert_event_def event_severity_String_def slice_get_def ex_assimilate_def)
  from alert_of_event [OF a] have "map_of (aAnnotations a) ''summary'' = Some ''ceilometer image.localhost cirros info''"
    and "map_of (aLabels a) ''alertname'' = Some ''image''"
    by (simp_all add: l summary_of_def get_or_empty_def ex_alert_event_def ex_assimilate_def generated_summary_def
         agentSurrogates_def eventSurrogates_def entitySurrogates_def statusSurrogates_def)
  with a show ?thesis by blast
qed

text \<open>
  The start of an alert is the time at which it is generated, whatever the (non-zero) time
  of the event: two events that differ in their time only give the same alert.
\<close>

theorem alert_start_ignores_event_time:
  assumes "eTime e \<noteq> 0" and "t \<noteq> 0"
  shows "GenerateAlert assimilate now_text url (e\<lparr>eTime := t\<rparr>) = GenerateAlert assimilate now_text url e"
  using assms by (simp add: GenerateAlert_def)

theorem alert_start_ignores_event_time_witness:
  "GenerateAlert ex_assimilate ''now'' ''url'' (ex_alert_event\<lparr>eTime := 1\<rparr>)
     = GenerateAlert ex_assimilate ''now'' ''url'' ex_alert_event"
  using alert_start_ignores_event_time [of ex_alert_event 1 ex_assimilate "''now''" "''url''"]
  by (simp add: ex_alert_event_def)

end
