(* ===== verification/AlertmanagerRun.thy ===== *)
theory AlertmanagerRun
  imports Alertmanager
begin

text \<open>
  The loop of the alerting application (\<open>Run\<close> in \<open>plugins/application/alertmanager/main.go\<close>): for
  every alert in the channel a goroutine reports it in an HTTP request of its own.  The JSON encoder,
  the parser of URLs and the HTTP client are parameters.
\<close>

section \<open>One report\<close>

record http_request =
  rMethod :: string
  rURL :: string
  rHeader :: "(string \<times> string) list"
  rBody :: string

text \<open>How a report ends; \<open>Refused\<close> carries the status of an answer other than 200, which is logged.\<close>

datatype am_outcome = Not_Encoded | Not_Sent string | Refused int | Reported

definition am_request :: "am_config \<Rightarrow> string \<Rightarrow> http_request" where
  "am_request cf body =
     \<lparr>rMethod = ''POST'', rURL = AlertManagerURL cf,
      rHeader = [(''X-Custom-Header'', ''smartgateway''), (''Content-Type'', ''application/json'')],
      rBody = body\<rparr>"

text \<open>
  \<open>url_error\<close> is the error \<open>http.NewRequest\<close> returns for a URL; the request is then nil, and used
  all the same.  \<open>client_Do\<close> gives an error or the status of the answer.
\<close>

definition am_report ::
  "(alert \<Rightarrow> string + string) \<Rightarrow> (string \<Rightarrow> string option) \<Rightarrow> (http_request \<Rightarrow> string + int) \<Rightarrow> am_config
     \<Rightarrow> alert \<Rightarrow> (http_request option \<times> am_outcome) go" where
  "am_report marshal url_error client_Do cf dumped =
     (case am_body marshal dumped of
        None \<Rightarrow> Inr (None, Not_Encoded)
      | Some buff \<Rightarrow>
          if url_error (AlertManagerURL cf) \<noteq> None then Inl Nil_Dereference
          else (let req = am_request cf buff
                in case client_Do req of
                     Inl err \<Rightarrow> Inr (Some req, Not_Sent err)
                   | Inr status \<Rightarrow> Inr (Some req, if status \<noteq> 200 then Refused status else Reported)))"

section \<open>The loop\<close>

definition am_capacity :: nat where
  "am_capacity = 100"

text \<open>The channel, and the requests of the goroutines in the order in which they were started.\<close>

record am =
  amDump :: "alert list"
  amRequests :: "http_request list"

definition am_New :: am where
  "am_New = \<lparr>amDump = [], amRequests = []\<rparr>"

text \<open>Receiving an event; a send to the full channel blocks, there is no next state.\<close>

definition am_receive :: "(event \<Rightarrow> alert option go) \<Rightarrow> event \<Rightarrow> am \<Rightarrow> am option go" where
  "am_receive ReceiveEvent e s =
     go_bind (ReceiveEvent e) (\<lambda>r. Inr (case r of
        None \<Rightarrow> Some s
      | Some a \<Rightarrow> if length (amDump s) < am_capacity then Some (s\<lparr>amDump := amDump s @ [a]\<rparr>) else None))"

definition am_take :: "(alert \<Rightarrow> (http_request option \<times> am_outcome) go) \<Rightarrow> am \<Rightarrow> am go" where
  "am_take report s =
     (case amDump s of
        [] \<Rightarrow> Inr s
      | dumped # rest \<Rightarrow>
          go_bind (report dumped) (\<lambda>(req, res).
            Inr (s\<lparr>amDump := rest,
                   amRequests := amRequests s @ (case req of Some r \<Rightarrow> [r] | None \<Rightarrow> [])\<rparr>)))"

inductive am_run ::
  "(event \<Rightarrow> alert option go) \<Rightarrow> (alert \<Rightarrow> (http_request option \<times> am_outcome) go) \<Rightarrow> event list \<Rightarrow> am \<Rightarrow> bool"
  for ReceiveEvent report where
  am_start: "am_run ReceiveEvent report [] am_New"
| am_event: "am_run ReceiveEvent report evs s \<Longrightarrow> am_receive ReceiveEvent e s = Inr (Some s') \<Longrightarrow>
     am_run ReceiveEvent report (evs @ [e]) s'"
| am_dumped: "am_run ReceiveEvent report evs s \<Longrightarrow> am_take report s = Inr s' \<Longrightarrow> am_run ReceiveEvent report evs s'"

section \<open>Lemmas\<close>

text \<open>The alerts of received events, and the requests alerts lead to.\<close>

definition alerts_of :: "(event \<Rightarrow> alert option go) \<Rightarrow> event list \<Rightarrow> alert list" where
  "alerts_of ReceiveEvent evs =
     concat (map (\<lambda>e. case ReceiveEvent e of Inr (Some a) \<Rightarrow> [a] | _ \<Rightarrow> []) evs)"

definition requests_of :: "(alert \<Rightarrow> string + string) \<Rightarrow> am_config \<Rightarrow> alert list \<Rightarrow> http_request list" where
  "requests_of marshal cf as =
     concat (map (\<lambda>a. case am_body marshal a of Some b \<Rightarrow> [am_request cf b] | None \<Rightarrow> []) as)"

lemma alerts_of_snoc:
  "alerts_of R (evs @ [e]) = alerts_of R evs @ (case R e of Inr (Some a) \<Rightarrow> [a] | _ \<Rightarrow> [])"
  by (simp add: alerts_of_def)

lemma requests_of_Cons:
  "requests_of marshal cf (a # as) =
     (case am_body marshal a of Some b \<Rightarrow> [am_request cf b] | None \<Rightarrow> []) @ requests_of marshal cf as"
  by (simp add: requests_of_def)

lemma requests_of_append [simp]:
  "requests_of marshal cf (as @ bs) = requests_of marshal cf as @ requests_of marshal cf bs"
  by (simp add: requests_of_def)

lemma am_report_request:
  "am_report marshal ue cd cf a = Inr (req, res) \<Longrightarrow>
     (case req of Some r \<Rightarrow> [r] | None \<Rightarrow> []) = requests_of marshal cf [a]"
  by (auto simp: am_report_def requests_of_def Let_def split: option.splits if_splits sum.splits)

lemma am_run_conserves:
  "am_run R (am_report marshal ue cd cf) evs s \<Longrightarrow>
     \<exists>sent. alerts_of R evs = sent @ amDump s \<and> amRequests s = requests_of marshal cf sent
          \<and> length (amDump s) \<le> am_capacity"
proof (induction rule: am_run.induct)
  case am_start
  then show ?case by (simp add: alerts_of_def am_New_def requests_of_def)
next
  case (am_event evs s e s')
  then obtain r where r: "R e = Inr r"
    "(case r of None \<Rightarrow> Some s
      | Some a \<Rightarrow> if length (amDump s) < am_capacity then Some (s\<lparr>amDump := amDump s @ [a]\<rparr>) else None) = Some s'"
    by (auto simp: am_receive_def go_bind_eq_Inr_iff)
  with am_event.IH show ?case
    by (cases r) (auto simp: alerts_of_snoc split: if_splits)
next
  case (am_dumped evs s s')
  show ?case
  proof (cases "amDump s")
    case Nil
    with am_dumped show ?thesis by (simp add: am_take_def)
  next
    case (Cons a rest)
    with am_dumped.hyps obtain req res where rep: "am_report marshal ue cd cf a = Inr (req, res)"
      and s': "s' = s\<lparr>amDump := rest, amRequests := amRequests s @ (case req of Some r \<Rightarrow> [r] | None \<Rightarrow> [])\<rparr>"
      by (auto simp: am_take_def go_bind_eq_Inr_iff)
    from am_dumped.IH Cons obtain sent where "alerts_of R evs = (sent @ [a]) @ rest"
      "amRequests s = requests_of marshal cf sent" "length (a # rest) \<le> am_capacity" by auto
    with am_report_request [OF rep] show ?thesis
      by (intro exI [of _ "sent @ [a]"]) (simp add: s')
  qed
qed

section \<open>Properties\<close>



end
