(* ===== verification/Loki.thy ===== *)
theory Loki
  imports Data
begin

text \<open>
  The Loki application (\<open>plugins/application/loki/main.go\<close>, \<open>pkg/lib/loki.go\<close>): a log event
  becomes a record for Loki's connector, which is a library.  \<open>AssimilateMap\<close> is a parameter.
\<close>

record loki_log =
  llMessage :: string
  llTimestamp :: int64
  llLabels :: "(string, string) gomap"

definition createLabels ::
  "((string, ivalue) gomap \<Rightarrow> (string, string) gomap) \<Rightarrow> (string, ivalue) gomap
     \<Rightarrow> string + (string, string) gomap" where
  "createLabels assimilate rawLabels =
     (let result = assimilate rawLabels
      in if length result = 0 then Inl ''unable to create log labels'' else Inr result)"

definition CreateLokiLog ::
  "((string, ivalue) gomap \<Rightarrow> (string, string) gomap) \<Rightarrow> event \<Rightarrow> (string + loki_log) go" where
  "CreateLokiLog assimilate e =
     (case createLabels assimilate (eLabels e) of
        Inl err \<Rightarrow> Inr (Inl err)
      | Inr labels \<Rightarrow>
          go_bind (event_severity_String (eSeverity e)) (\<lambda>sev.
            Inr (Inr \<lparr>llMessage = eMessage e,
                      llTimestamp = wrap64 (int64_of_f64 (eTime e) * time_Second),
                      llLabels = AList.update ''severity'' sev labels\<rparr>)))"

record loki_config =
  Connection :: string
  BatchSize :: int64
  MaxWaitTime :: int64

definition default_loki_config :: loki_config where
  "default_loki_config = \<lparr>Connection = [], BatchSize = 20, MaxWaitTime = 100\<rparr>"

text \<open>What \<open>ReceiveEvent\<close> sends to the connector's channel.\<close>

definition loki_ReceiveEvent ::
  "((string, ivalue) gomap \<Rightarrow> (string, string) gomap) \<Rightarrow> event \<Rightarrow> loki_log option go" where
  "loki_ReceiveEvent assimilate e =
     (case eType e of
        LOG \<Rightarrow> go_bind (CreateLokiLog assimilate e) (\<lambda>res.
                 Inr (case res of Inl err \<Rightarrow> None | Inr l \<Rightarrow> Some l))
      | _ \<Rightarrow> Inr None)"

text \<open>
  The channel to the connector has a hundred places; a send to the full channel blocks, there is no
  next state.
\<close>

definition loki_capacity :: nat where
  "loki_capacity = 100"

definition loki_enqueue :: "loki_log option \<Rightarrow> loki_log list \<Rightarrow> loki_log list option" where
  "loki_enqueue l logChannel =
     (case l of
        None \<Rightarrow> Some logChannel
      | Some lokiLog \<Rightarrow> if length logChannel < loki_capacity then Some (logChannel @ [lokiLog]) else None)"

text \<open>
  \<open>Config\<close>: the configuration \<open>ParseConfig\<close> leaves, the connector that \<open>create\<close> makes from it, and
  the error.
\<close>

definition loki_Config ::
  "(loki_config \<Rightarrow> loki_config \<times> string option) \<Rightarrow> (string \<Rightarrow> int64 \<Rightarrow> int64 \<Rightarrow> string \<Rightarrow> 'conn option \<times> string option)
     \<Rightarrow> loki_config \<times> 'conn option \<times> string option" where
  "loki_Config ParseConfig create =
     (let (c, err) = ParseConfig default_loki_config
      in case err of
           Some e \<Rightarrow> (c, None, Some e)
         | None \<Rightarrow>
             (let (client, cerr) = create (Connection c) (MaxWaitTime c) (BatchSize c) ''fake''
              in (c, client, map_option (\<lambda>e. ''failed to connect to Loki host: '' @ e) cerr)))"

lemma loki_log_total: "\<exists>res. CreateLokiLog assimilate e = Inr res"
  using severity_String_total [of "eSeverity e"]
  by (auto simp: CreateLokiLog_def go_bind_eq_Inr_iff split: sum.split)

text \<open>
  A log event with at least one label is sent to Loki with its message, its time in
  nanoseconds (for the times an \<open>int64\<close> of nanoseconds can hold) and its labels, the severity
  being the event's; a log event without labels, and any other event, is dropped.
\<close>

theorem loki_receives_logs:
  assumes "is_int64 (\<lfloor>eTime e\<rfloor> * 1000000000)" and "0 \<le> eTime e"
  shows "(eType e = LOG \<and> assimilate (eLabels e) \<noteq> [] \<longrightarrow>
            (\<exists>l. loki_ReceiveEvent assimilate e = Inr (Some l) \<and> llMessage l = eMessage e
               \<and> llTimestamp l = \<lfloor>eTime e\<rfloor> * 1000000000
               \<and> event_severity_String (eSeverity e) = Inr (the (map_of (llLabels l) ''severity''))
               \<and> (\<forall>k. k \<noteq> ''severity'' \<longrightarrow> map_of (llLabels l) k = map_of (assimilate (eLabels e)) k)))
     \<and> (\<not> (eType e = LOG \<and> assimilate (eLabels e) \<noteq> []) \<longrightarrow> loki_ReceiveEvent assimilate e = Inr None)"
proof -
  obtain sev where sev: "event_severity_String (eSeverity e) = Inr sev"
    using severity_String_total by blast
  have "is_int64 i" if "is_int64 (i * 1000000000)" for i
    using that by (simp add: is_int64_def)
  then have "is_int64 \<lfloor>eTime e\<rfloor>" using assms(1) .
  then have "int64_of_f64 (eTime e) = \<lfloor>eTime e\<rfloor>" using assms(2) by (simp add: int64_of_f64_def wrap64_id)
  with assms(1) sev show ?thesis
    by (auto simp: loki_ReceiveEvent_def CreateLokiLog_def createLabels_def time_Second_def wrap64_id
        split: event_type.split)
qed

definition ex_loki_event :: event where
  "ex_loki_event =
     \<lparr>eIndex = ''ix'', eTime = 3, eType = LOG, ePublisher = [], eSeverity = INFO,
      eLabels = [(''host'', IString ''h'')], eAnnotations = [], eMessage = ''text''\<rparr>"

theorem loki_receives_logs_witness:
  "\<exists>l. loki_ReceiveEvent (\<lambda>m. [(''host'', ''h'')]) ex_loki_event = Inr (Some l)
     \<and> llMessage l = ''text'' \<and> llTimestamp l = 3000000000"
  using loki_receives_logs [of ex_loki_event "\<lambda>m. [(''host'', ''h'')]"]
  by (auto simp: ex_loki_event_def is_int64_def)

end
