(* ===== verification/LokiRun.thy ===== *)
theory LokiRun
  imports Loki
begin

text \<open>
  The life of the Loki application (\<open>Run\<close> and \<open>ReceiveEvent\<close> in \<open>plugins/application/loki/main.go\<close>): the
  bus calls \<open>ReceiveEvent\<close> in goroutines of its own from the moment the application is configured,
  before \<open>Run\<close> as well as after its end; the connector takes from the channel between \<open>Start\<close> and
  \<open>Disconnect\<close> only.
\<close>

section \<open>Steps\<close>

datatype loki_phase = Loki_Configured | Loki_Started | Loki_Exited

text \<open>
  \<open>lokiSending\<close> are the logs whose goroutine is at the send to the channel, \<open>lokiTaken\<close> what the
  connector has taken.
\<close>

record loki =
  lokiPhase :: loki_phase
  lokiSending :: "loki_log list"
  lokiChannel :: "loki_log list"
  lokiTaken :: "loki_log list"

definition loki_New :: loki where
  "loki_New = \<lparr>lokiPhase = Loki_Configured, lokiSending = [], lokiChannel = [], lokiTaken = []\<rparr>"

inductive loki_step ::
  "((string, ivalue) gomap \<Rightarrow> (string, string) gomap) \<Rightarrow> loki \<Rightarrow> event option \<Rightarrow> loki \<Rightarrow> bool"
  for assimilate where
  loki_event: "loki_ReceiveEvent assimilate e = Inr res \<Longrightarrow>
     loki_step assimilate s (Some e)
       (s\<lparr>lokiSending := lokiSending s @ (case res of None \<Rightarrow> [] | Some l \<Rightarrow> [l])\<rparr>)"
| loki_send: "lokiSending s = pre @ l # post \<Longrightarrow> loki_enqueue (Some l) (lokiChannel s) = Some ch \<Longrightarrow>
     loki_step assimilate s None (s\<lparr>lokiSending := pre @ post, lokiChannel := ch\<rparr>)"
| loki_start: "lokiPhase s = Loki_Configured \<Longrightarrow> loki_step assimilate s None (s\<lparr>lokiPhase := Loki_Started\<rparr>)"
| loki_take: "lokiPhase s = Loki_Started \<Longrightarrow> lokiChannel s = l # ch \<Longrightarrow>
     loki_step assimilate s None (s\<lparr>lokiChannel := ch, lokiTaken := lokiTaken s @ [l]\<rparr>)"
| loki_exit: "lokiPhase s = Loki_Started \<Longrightarrow> loki_step assimilate s None (s\<lparr>lokiPhase := Loki_Exited\<rparr>)"

abbreviation loki_run ::
  "((string, ivalue) gomap \<Rightarrow> (string, string) gomap) \<Rightarrow> loki \<Rightarrow> event list \<Rightarrow> loki \<Rightarrow> bool" where
  "loki_run assimilate \<equiv> traced (loki_step assimilate)"

section \<open>Lemmas\<close>

text \<open>The logs that events lead to.\<close>

definition loki_logs :: "((string, ivalue) gomap \<Rightarrow> (string, string) gomap) \<Rightarrow> event list \<Rightarrow> loki_log list" where
  "loki_logs assimilate evs =
     concat (map (\<lambda>e. case loki_ReceiveEvent assimilate e of Inr (Some l) \<Rightarrow> [l] | _ \<Rightarrow> []) evs)"

definition loki_all :: "loki \<Rightarrow> loki_log multiset" where
  "loki_all s = mset (lokiTaken s) + mset (lokiChannel s) + mset (lokiSending s)"

lemma loki_logs_simps [simp]:
  "loki_logs assimilate [] = []"
  "loki_logs assimilate (as @ bs) = loki_logs assimilate as @ loki_logs assimilate bs"
  by (simp_all add: loki_logs_def)

lemma loki_step_all:
  "loki_step assimilate s oe t \<Longrightarrow> loki_all t = loki_all s + mset (loki_logs assimilate (input_of oe))"
  by (cases rule: loki_step.cases)
     (auto simp: loki_all_def loki_enqueue_def loki_logs_def split: option.split if_splits)

lemma loki_run_all: "loki_run assimilate s evs t \<Longrightarrow> loki_all t = loki_all s + mset (loki_logs assimilate evs)"
  by (induction rule: traced.induct) (simp_all add: loki_step_all add.assoc)

lemma loki_run_channel:
  "loki_run assimilate s evs t \<Longrightarrow> length (lokiChannel s) \<le> loki_capacity \<Longrightarrow>
     length (lokiChannel t) \<le> loki_capacity"
  by (erule traced_invariant [where P = "\<lambda>s. length (lokiChannel s) \<le> loki_capacity"])
     (auto elim!: loki_step.cases simp: loki_enqueue_def split: if_splits)

text \<open>After the end the connector takes nothing any more.\<close>

lemma loki_run_exited:
  assumes "loki_run assimilate s evs t" and "lokiPhase s = Loki_Exited"
  shows "lokiPhase t = Loki_Exited \<and> lokiTaken t = lokiTaken s"
  using assms(1)
  by (rule traced_invariant [where P = "\<lambda>t. lokiPhase t = Loki_Exited \<and> lokiTaken t = lokiTaken s"])
     (auto simp: assms(2) elim!: loki_step.cases)

section \<open>Properties\<close>

text \<open>
  C18: No log is lost or duplicated: at any moment what the connector has taken, what is in the channel
  (at most a hundred logs) and what waits to be sent are together exactly the logs of the events
  received.  But once the application has exited, what has not been taken stays: of the logs that
  come then, all but those that the rest of the channel holds leave a goroutine at the send for ever.
\<close>

theorem loki_conserves_logs:
  assumes "loki_run assimilate loki_New evs s" and "loki_run assimilate s evs' t"
  shows "mset (lokiTaken s) + mset (lokiChannel s) + mset (lokiSending s) = mset (loki_logs assimilate evs)
     \<and> length (lokiChannel s) \<le> loki_capacity
     \<and> (lokiPhase s = Loki_Exited \<longrightarrow> lokiTaken t = lokiTaken s
          \<and> length (lokiSending s) + length (lokiChannel s) + length (loki_logs assimilate evs') - loki_capacity
              \<le> length (lokiSending t))"
proof (intro conjI impI)
  show "mset (lokiTaken s) + mset (lokiChannel s) + mset (lokiSending s) = mset (loki_logs assimilate evs)"
    using loki_run_all [OF assms(1)] by (simp add: loki_all_def loki_New_def)
  show ch: "length (lokiChannel s) \<le> loki_capacity"
    using loki_run_channel [OF assms(1)] by (simp add: loki_New_def)
  assume ex: "lokiPhase s = Loki_Exited"
  from loki_run_exited [OF assms(2) ex] show taken: "lokiTaken t = lokiTaken s" by simp
  have "size (loki_all t) = size (loki_all s) + length (loki_logs assimilate evs')"
    using loki_run_all [OF assms(2)] by simp
  with taken loki_run_channel [OF assms(2) ch]
  show "length (lokiSending s) + length (lokiChannel s) + length (loki_logs assimilate evs') - loki_capacity
      \<le> length (lokiSending t)"
    by (simp add: loki_all_def)
qed

definition ex_loki_run :: loki where
  "ex_loki_run = \<lparr>lokiPhase = Loki_Exited, lokiSending = [], lokiChannel = [], lokiTaken = []\<rparr>"

lemma ex_loki_exited: "loki_run assimilate loki_New [] ex_loki_run"
proof -
  have "loki_run assimilate loki_New [] (loki_New\<lparr>lokiPhase := Loki_Started\<rparr>)"
    by (rule traced_silent [where step = "loki_step assimilate", OF traced_refl loki_start]) (simp add: loki_New_def)
  from traced_silent [where step = "loki_step assimilate", OF this loki_exit] show ?thesis by (simp add: ex_loki_run_def loki_New_def)
qed

theorem loki_conserves_logs_witness:
  "\<exists>t. loki_run (\<lambda>m. [(''host'', ''h'')]) ex_loki_run (replicate 101 ex_loki_event) t
     \<and> 1 \<le> length (lokiSending t) \<and> lokiTaken t = []"
proof -
  let ?as = "\<lambda>m :: (string, ivalue) gomap. [(''host'', ''h'')]"
  obtain sev where "event_severity_String INFO = Inr sev" using severity_String_total by blast
  then obtain l where l: "loki_ReceiveEvent ?as ex_loki_event = Inr (Some l)"
    by (simp add: loki_ReceiveEvent_def CreateLokiLog_def createLabels_def ex_loki_event_def)
  have run: "\<exists>t. loki_run ?as ex_loki_run (replicate n ex_loki_event) t" for n
  proof (induction n)
    case 0
    show ?case by (auto intro: traced_refl)
  next
    case (Suc n)
    then obtain t where "loki_run ?as ex_loki_run (replicate n ex_loki_event) t" by blast
    from traced_input [where step = "loki_step ?as", OF this loki_event [OF l]] show ?case
      by (auto simp: replicate_append_same)
  qed
  then obtain t where t: "loki_run ?as ex_loki_run (replicate 101 ex_loki_event) t" by blast
  have "length (loki_logs ?as (replicate n ex_loki_event)) = n" for n
    by (induction n) (simp_all add: loki_logs_def l)
  with loki_conserves_logs [OF ex_loki_exited t] t show ?thesis
    by (intro exI [of _ t]) (simp add: ex_loki_run_def loki_capacity_def)
qed

end
