(* ===== verification/DummyAlertmanager.thy ===== *)
theory DummyAlertmanager
  imports GoStrings
begin

text \<open>
  The dummy alert manager (\<open>plugins/transport/dummy-alertmanager/main.go\<close>): an HTTP server that writes
  the bodies of the requests to a file.  The server is the standard library's.
\<close>

section \<open>Configuration and requests\<close>

record dam_conf =
  damPort :: int64
  damOutput :: string

definition dam_New :: dam_conf where
  "dam_New = \<lparr>damPort = 16661, damOutput = ''/dev/stdout''\<rparr>"

definition dam_Config :: "(dam_conf \<Rightarrow> dam_conf \<times> string option) \<Rightarrow> dam_conf \<Rightarrow> dam_conf \<times> string option" where
  "dam_Config ParseConfig c = ParseConfig c"

text \<open>
  The handler of a request: what is appended to the output file.  Without the file, or if the body
  cannot be read, nothing is (writing to the nil file is an error that is not looked at).
\<close>

definition dam_handle :: "string option \<Rightarrow> string + string \<Rightarrow> string" where
  "dam_handle open_err body =
     (case body of
        Inl err \<Rightarrow> []
      | Inr msg \<Rightarrow> if open_err \<noteq> None then [] else msg @ [newline])"

text \<open>The output file after requests; every path is matched by the pattern \<open>/\<close>.\<close>

definition dam_output :: "(string option \<times> (string + string)) list \<Rightarrow> string" where
  "dam_output reqs = concat (map (\<lambda>(open_err, body). dam_handle open_err body) reqs)"

section \<open>Running\<close>

text \<open>
  \<open>http.HandleFunc\<close> registers a pattern with the default multiplexer of the process, all of whose
  plugins share the package: it panics if the pattern is registered already.
\<close>

definition http_HandleFunc :: "string \<Rightarrow> string list \<Rightarrow> string list go" where
  "http_HandleFunc pattern mux =
     (if pattern \<in> set mux then Inl Duplicate_Pattern else Inr (mux @ [pattern]))"

text \<open>\<open>Run\<close> up to the start of the server: the multiplexer and the address.\<close>

definition dam_Run :: "dam_conf \<Rightarrow> string list \<Rightarrow> (string list \<times> string) go" where
  "dam_Run c mux =
     go_bind (http_HandleFunc ''/'' mux) (\<lambda>mux'. Inr (mux', '':'' @ itoa (damPort c)))"

text \<open>
  The rest of \<open>Run\<close>: a second goroutine shuts the server down when the context is done;
  \<open>ListenAndServe\<close> returns then, or with another error before.  The goroutine gets the answer of
  \<open>Shutdown\<close>; the log is the two messages in the order of the goroutines' ends.  Nothing is signalled
  on \<open>done\<close>.
\<close>

definition dam_shutdown_log :: "string option \<Rightarrow> string" where
  "dam_shutdown_log err =
     (case err of Some e \<Rightarrow> ''failed to shut down HTTP server'' | None \<Rightarrow> ''shutting down HTTP server'')"

definition dam_returns :: "string option \<Rightarrow> bool \<Rightarrow> bool" where
  "dam_returns listen_err ctx_done \<longleftrightarrow> listen_err \<noteq> None \<or> ctx_done"

definition dam_start_all :: "dam_conf list \<Rightarrow> string list go" where
  "dam_start_all cs = go_foldM (\<lambda>mux c. go_bind (dam_Run c mux) (\<lambda>(mux', addr). Inr mux')) [] cs"

section \<open>Properties\<close>

text \<open>
  At most one dummy alert manager can run: a second one, on whatever port, ends the process, since
  both register the same pattern.
\<close>

theorem second_dummy_alertmanager_panics:
  "dam_start_all cs = (if length cs \<le> 1 then Inr (replicate (length cs) ''/'') else Inl Duplicate_Pattern)"
  by (cases cs rule: remdups_adj.cases)
     (simp_all add: dam_start_all_def dam_Run_def http_HandleFunc_def)

end
