(* ===== verification/MainInit.thy ===== *)
theory MainInit
  imports Manager PluginConfig
begin

text \<open>
  \<open>cmd/main.go\<close> from its first line to the start of the plugins: the flags, the logger, the profile,
  the configuration file and the level of the log.  The operating system, the YAML decoder, the
  validator and the logger are an argument, the record \<open>main_env\<close>.
\<close>

section \<open>Flags\<close>

record main_flags =
  configPath :: string
  cpuprofile :: string

definition default_flags :: main_flags where
  "default_flags = \<lparr>configPath = ''/etc/sg-core.conf.yaml'', cpuprofile = []\<rparr>"

text \<open>Why \<open>flag.Parse\<close> ends the program, with the status 0 or 2.\<close>

datatype flag_exit = Exit_Help | Exit_Usage string

definition set_flag :: "string \<Rightarrow> string \<Rightarrow> main_flags \<Rightarrow> main_flags option" where
  "set_flag name v fl =
     (if name = ''config'' then Some (fl\<lparr>configPath := v\<rparr>)
      else if name = ''cpuprofile'' then Some (fl\<lparr>cpuprofile := v\<rparr>)
      else None)"

text \<open>The name of a flag ends at an equals sign after its first byte, which begins its value.\<close>

definition split_flag :: "string \<Rightarrow> string \<times> string option" where
  "split_flag s =
     (case str_index ''='' (tl s) of
        None \<Rightarrow> (s, None)
      | Some i \<Rightarrow> (take (Suc i) s, Some (drop (i + 2) s)))"

text \<open>The minus signs of an argument: \<open>None\<close> if it is not a flag, otherwise what follows.\<close>

definition flag_text :: "string \<Rightarrow> string option" where
  "flag_text s =
     (if length s < 2 \<or> hd s \<noteq> CHR ''-'' then None
      else if s ! 1 = CHR ''-'' then Some (drop 2 s) else Some (drop 1 s))"

fun parse_flags :: "string list \<Rightarrow> main_flags \<Rightarrow> flag_exit + main_flags" where
  "parse_flags [] fl = Inr fl"
| "parse_flags (s # rest) fl =
     (case flag_text s of
        None \<Rightarrow> Inr fl
      | Some t \<Rightarrow>
          if s = ''--'' then Inr fl
          else if t = [] \<or> hd t = CHR ''-'' \<or> hd t = CHR ''='' then Inl (Exit_Usage (''bad flag syntax: '' @ s))
          else
            (let (name, v) = split_flag t
             in if set_flag name [] fl = None then
                  Inl (if name = ''help'' \<or> name = ''h'' then Exit_Help
                       else Exit_Usage (''flag provided but not defined: -'' @ name))
                else
                  (case v of
                     Some x \<Rightarrow> parse_flags rest (the (set_flag name x fl))
                   | None \<Rightarrow>
                       (case rest of
                          [] \<Rightarrow> Inl (Exit_Usage (''flag needs an argument: -'' @ name))
                        | x # rest' \<Rightarrow> parse_flags rest' (the (set_flag name x fl))))))"

lemma parse_flags_examples:
  "parse_flags [''-config'', ''/tmp/c'', ''--cpuprofile=p'', ''x'', ''-h''] default_flags
     = Inr \<lparr>configPath = ''/tmp/c'', cpuprofile = ''p''\<rparr>"
  "parse_flags [''-config''] default_flags = Inl (Exit_Usage ''flag needs an argument: -config'')"
  "parse_flags [''--help''] default_flags = Inl Exit_Help"
  by code_simp+

section \<open>The configuration\<close>

text \<open>Each field is the answer of one call; an error is \<open>Inl\<close> or \<open>Some\<close>.\<close>

record ('c, 'l) main_env =
  NewLogger :: "string option"
  os_Create :: "string \<Rightarrow> string option"
  StartCPUProfile :: "string \<Rightarrow> string option"
  os_Open :: "string \<Rightarrow> string + (string + string)"
  yaml_Unmarshal :: "string \<Rightarrow> 'c sg_config \<Rightarrow> 'c sg_config \<times> string option"
  Validate_Struct :: "'c sg_config \<Rightarrow> validation"
  level_ERROR :: 'l
  level_WARN :: 'l
  level_INFO :: 'l
  level_DEBUG :: 'l
  level_zero :: 'l

text \<open>An entry of the log: the text and the error.\<close>

type_synonym log_entry = "string \<times> string"

definition start_profile :: "('c, 'l) main_env \<Rightarrow> string \<Rightarrow> log_entry list" where
  "start_profile env path =
     (if path = [] then []
      else (case os_Create env path of None \<Rightarrow> [] | Some e \<Rightarrow> [(''failed to start cpu profile'', e)])
         @ (case StartCPUProfile env path of None \<Rightarrow> [] | Some e \<Rightarrow> [(''failed to start cpu profile'', e)]))"

text \<open>The map from names to levels gives the zero value for any other name.\<close>

definition log_level :: "('c, 'l) main_env \<Rightarrow> string \<Rightarrow> 'l" where
  "log_level env name =
     (case map_of [(''error'', level_ERROR env), (''warn'', level_WARN env), (''info'', level_INFO env),
                   (''debug'', level_DEBUG env)] name of
        Some l \<Rightarrow> l
      | None \<Rightarrow> level_zero env)"

text \<open>
  The configuration, the level and the log, or how \<open>main\<close> ended before.  A failure to make the
  logger is printed; the others are the last entry of the log.
\<close>

datatype ('c, 'l) main_begun =
    No_Logger string
  | Not_Configured "log_entry list"
  | Configured "'c sg_config" 'l "log_entry list"

definition main_config :: "('c, 'l) main_env \<Rightarrow> main_flags \<Rightarrow> ('c, 'l) main_begun go" where
  "main_config env fl =
     (case NewLogger env of
        Some err \<Rightarrow> Inr (No_Logger (''failed initializing logger: '' @ err))
      | None \<Rightarrow>
          (let lg = start_profile env (cpuprofile fl)
           in case os_Open env (configPath fl) of
                Inl err \<Rightarrow> Inr (Not_Configured (lg @ [(''failed opening configuration file'', err)]))
              | Inr r \<Rightarrow>
                  go_bind (ParseConfig (yaml_Unmarshal env) (Validate_Struct env) r default_config) (\<lambda>(cf, err).
                    case err of
                      Some e \<Rightarrow> Inr (Not_Configured (lg @ [(''failed parsing config file'', e)]))
                    | None \<Rightarrow> Inr (Configured cf (log_level env (cfgLogLevel cf)) lg))))"

text \<open>\<open>main\<close> up to the start of the plugins; \<open>Some\<close> is the manager it starts them from.\<close>

definition main_begin ::
  "('c, 'l) main_env \<Rightarrow> ('t, 'h, 'a, 'c) plugins \<Rightarrow> main_flags \<Rightarrow> ('l \<times> ('t, 'h, 'a) manager) option go" where
  "main_begin env pl fl =
     go_bind (main_config env fl) (\<lambda>b.
       Inr (case b of
              Configured cf level lg \<Rightarrow> map_option (Pair level) (main_load pl cf)
            | _ \<Rightarrow> None))"

section \<open>Lemmas\<close>

text \<open>What \<open>ParseConfig\<close> accepts: the file that says nothing, and one that decodes and is valid.\<close>

lemma ParseConfig_accepts:
  "ParseConfig yaml validate (Inr blob) c = Inr (c', None) \<longleftrightarrow>
     (if blob = ''null'' @ [newline] then c' = c else yaml blob c = (c', None) \<and> validate c' = Valid)"
  by (auto simp: ParseConfig_def go_bind_eq_Inr_iff split: prod.split option.split validation.split)

lemma ParseConfig_read_error: "ParseConfig yaml validate (Inl err) c \<noteq> Inr (c', None)"
  by (simp add: ParseConfig_def)

lemma main_config_Configured:
  "main_config env fl = Inr (Configured cf level lg) \<longleftrightarrow>
     NewLogger env = None
     \<and> (\<exists>r. os_Open env (configPath fl) = Inr r
          \<and> ParseConfig (yaml_Unmarshal env) (Validate_Struct env) r default_config = Inr (cf, None))
     \<and> level = log_level env (cfgLogLevel cf) \<and> lg = start_profile env (cpuprofile fl)"
  by (auto simp: main_config_def go_bind_eq_Inr_iff Let_def split: option.splits sum.splits)

text \<open>The configuration that a file gives.\<close>

definition file_config :: "('c, 'l) main_env \<Rightarrow> string \<Rightarrow> 'c sg_config option" where
  "file_config env blob =
     (if blob = ''null'' @ [newline] then Some default_config
      else case yaml_Unmarshal env blob default_config of
             (cf, None) \<Rightarrow> if Validate_Struct env cf = Valid then Some cf else None
           | (cf, Some e) \<Rightarrow> None)"

lemma file_config_parses:
  "ParseConfig (yaml_Unmarshal env) (Validate_Struct env) (Inr blob) default_config = Inr (cf, None) \<longleftrightarrow>
     file_config env blob = Some cf"
  by (auto simp: ParseConfig_accepts file_config_def split: prod.split option.split)

section \<open>Properties\<close>

text \<open>
  C19: The program comes to start plugins exactly if the logger can be made, the configuration file can
  be opened and read, it is empty or decodes to a valid configuration, and the plugins of that
  configuration load; a profile that cannot be written does not keep it from starting.  The level of
  the log is then the one the configuration names, never the zero value that the map gives for an
  unknown name, if the validator keeps to the four names that the struct tag lists.
\<close>

theorem main_starts_iff:
  assumes "\<forall>cf. Validate_Struct env cf = Valid \<longrightarrow> cfgLogLevel cf \<in> {''error'', ''warn'', ''info'', ''debug''}"
  shows "main_begin env pl fl = Inr (Some (level, mg)) \<longleftrightarrow>
     NewLogger env = None
     \<and> (\<exists>blob cf. os_Open env (configPath fl) = Inr (Inr blob) \<and> file_config env blob = Some cf
          \<and> main_load pl cf = Some mg
          \<and> (cfgLogLevel cf, level) \<in> {(''error'', level_ERROR env), (''warn'', level_WARN env),
               (''info'', level_INFO env), (''debug'', level_DEBUG env)})"
proof -
  have lvl: "(cfgLogLevel cf, level) \<in> {(''error'', level_ERROR env), (''warn'', level_WARN env),
      (''info'', level_INFO env), (''debug'', level_DEBUG env)} \<longleftrightarrow> level = log_level env (cfgLogLevel cf)"
    if "file_config env blob = Some cf" for blob cf
  proof -
    from that have "cfgLogLevel cf \<in> {''error'', ''warn'', ''info'', ''debug''}"
      using assms
      by (auto simp: file_config_def default_config_def split: if_splits prod.splits option.splits)
    then show ?thesis by (auto simp: log_level_def)
  qed
  have opened: "(\<exists>r. os_Open env p = Inr r
        \<and> ParseConfig (yaml_Unmarshal env) (Validate_Struct env) r default_config = Inr (cf, None))
      \<longleftrightarrow> (\<exists>blob. os_Open env p = Inr (Inr blob) \<and> file_config env blob = Some cf)" for p cf
  proof (cases "os_Open env p")
    case (Inr r)
    then show ?thesis by (cases r) (simp_all add: ParseConfig_read_error file_config_parses)
  qed simp
  have "main_begin env pl fl = Inr (Some (level, mg)) \<longleftrightarrow>
      (\<exists>cf lg. main_config env fl = Inr (Configured cf level lg) \<and> main_load pl cf = Some mg)"
    by (cases "main_config env fl") (auto simp: main_begin_def split: main_begun.split)
  also have "\<dots> \<longleftrightarrow> NewLogger env = None
      \<and> (\<exists>blob cf. os_Open env (configPath fl) = Inr (Inr blob) \<and> file_config env blob = Some cf
           \<and> main_load pl cf = Some mg \<and> level = log_level env (cfgLogLevel cf))"
    unfolding main_config_Configured opened by auto
  finally show ?thesis using lvl by auto
qed

definition ex_main_env :: "(unit, nat) main_env" where
  "ex_main_env =
     \<lparr>NewLogger = None, os_Create = (\<lambda>p. Some ''permission denied''), StartCPUProfile = (\<lambda>p. Some ''invalid argument''),
      os_Open = (\<lambda>p. if p = ''/etc/sg-core.conf.yaml'' then Inr (Inr ''logLevel: debug'') else Inl ''no such file''),
      yaml_Unmarshal = (\<lambda>b c. (c\<lparr>cfgLogLevel := ''debug''\<rparr>, None)),
      Validate_Struct = (\<lambda>c. if cfgLogLevel c \<in> {''error'', ''warn'', ''info'', ''debug''} then Valid
                            else Field_Errors [''configT.LogLevel'']),
      level_ERROR = 3, level_WARN = 2, level_INFO = 1, level_DEBUG = 0, level_zero = 0\<rparr>"

theorem main_starts_iff_witness:
  "main_begin ex_main_env (ex_plugins Inl) (default_flags\<lparr>cpuprofile := ''/p''\<rparr>)
     = Inr (Some (0, SetEventBusBlocking False (SetPluginDir ''/usr/lib64/sg-core/'' manager_init)))
   \<and> main_begin ex_main_env (ex_plugins Inl) (default_flags\<lparr>configPath := ''/x''\<rparr>) \<noteq> Inr (Some (0, manager_init))"
proof -
  have v: "\<forall>cf. Validate_Struct ex_main_env cf = Valid \<longrightarrow> cfgLogLevel cf \<in> {''error'', ''warn'', ''info'', ''debug''}"
    by (simp add: ex_main_env_def)
  let ?mg = "SetEventBusBlocking False (SetPluginDir ''/usr/lib64/sg-core/'' manager_init)"
  show ?thesis
    using main_starts_iff [OF v, of "ex_plugins Inl" "default_flags\<lparr>cpuprofile := ''/p''\<rparr>" 0 ?mg]
      main_starts_iff [OF v, of "ex_plugins Inl" "default_flags\<lparr>configPath := ''/x''\<rparr>" 0 manager_init]
    by (simp add: ex_main_env_def default_flags_def file_config_def default_config_def main_load_def newline_def)
qed

end
