(* ===== verification/Print.thy ===== *)
theory Print
  imports Data
begin

text \<open>
  The print application (\<open>plugins/application/print/main.go\<close>): what arrives from the buses goes
  through two channels of five places each to the loop of \<open>Run\<close>, which writes it to two files.  The
  JSON encoder is a parameter, as are the errors of opening the files.
\<close>

section \<open>State\<close>

record print_config =
  MetricOutput :: string
  EventsOutput :: string

text \<open>Where \<open>Run\<close> is; \<open>Writing\<close> is its loop.\<close>

datatype print_status = Not_Run | Writing | Returned

text \<open>The two channels, what was written to the files, and the errors that were logged.\<close>

record print_app =
  pConfiguration :: print_config
  eChan :: "event list"
  mChan :: "metric list"
  pStatus :: print_status
  evtsF :: "string list"
  metrF :: "string list"
  logged :: "string list"

definition print_capacity :: nat where
  "print_capacity = 5"

definition print_New :: print_app where
  "print_New =
     \<lparr>pConfiguration = \<lparr>MetricOutput = ''/dev/stdout'', EventsOutput = ''/dev/stdout''\<rparr>, eChan = [],
      mChan = [], pStatus = Not_Run, evtsF = [], metrF = [], logged = []\<rparr>"

definition print_Config ::
  "(print_config \<Rightarrow> print_config \<times> string option) \<Rightarrow> print_app \<Rightarrow> print_app \<times> string option" where
  "print_Config ParseConfig p =
     (let (c, err) = ParseConfig (pConfiguration p) in (p\<lparr>pConfiguration := c\<rparr>, err))"

section \<open>Operations\<close>

text \<open>A send to a full channel blocks: there is no next state.\<close>

definition print_ReceiveEvent :: "event \<Rightarrow> print_app \<Rightarrow> print_app option" where
  "print_ReceiveEvent e p =
     (if length (eChan p) < print_capacity then Some (p\<lparr>eChan := eChan p @ [e]\<rparr>) else None)"

definition print_ReceiveMetric ::
  "string \<Rightarrow> float64 \<Rightarrow> metric_type \<Rightarrow> int64 \<Rightarrow> float64 \<Rightarrow> string list \<Rightarrow> string list \<Rightarrow> print_app
     \<Rightarrow> print_app option" where
  "print_ReceiveMetric name t mT interval value labelKeys labelVals p =
     (let metric = \<lparr>mName = name, mTime = t, mType = mT, mInterval = interval, mValue = value,
                    mLabelKeys = labelKeys, mLabelVals = labelVals\<rparr>
      in if length (mChan p) < print_capacity then Some (p\<lparr>mChan := mChan p @ [metric]\<rparr>) else None)"

text \<open>
  The start of \<open>Run\<close>, with the errors of opening the file for metrics and the file for events.  The
  second test asks for the first error again.
\<close>

definition print_Run_start :: "string option \<Rightarrow> string option \<Rightarrow> print_app \<Rightarrow> print_app" where
  "print_Run_start err errr p =
     (let p1 = (if err \<noteq> None
                then p\<lparr>logged := logged p @ [''failed to open metrics data output file'']\<rparr> else p);
          p2 = (if err \<noteq> None
                then p1\<lparr>logged := logged p1 @ [''failed to open events data output file'']\<rparr> else p1)
      in if err = None \<and> errr = None then p2\<lparr>pStatus := Writing\<rparr> else p2\<lparr>pStatus := Returned\<rparr>)"

record event_output =
  oIndex :: string
  oType :: string
  oPublisher :: string
  oSeverity :: event_severity
  oMessage :: string
  oLabels :: "(string, ivalue) gomap"
  oAnnotations :: "(string, ivalue) gomap"

text \<open>What is written for an event and for a metric; if it cannot be encoded, an empty text.\<close>

definition encoded :: "string option \<Rightarrow> string" where
  "encoded r = (case r of Some s \<Rightarrow> s | None \<Rightarrow> [])"

definition event_text :: "(event_output \<Rightarrow> string option) \<Rightarrow> event \<Rightarrow> string go" where
  "event_text marshal event =
     go_bind (event_type_String (eType event)) (\<lambda>et.
       Inr (''Processed event:'' @ [newline]
            @ encoded (marshal \<lparr>oIndex = eIndex event, oType = et, oPublisher = ePublisher event,
                 oSeverity = eSeverity event, oMessage = eMessage event, oLabels = eLabels event,
                 oAnnotations = eAnnotations event\<rparr>)
            @ [newline]))"

definition metric_text :: "(metric \<Rightarrow> string option) \<Rightarrow> metric \<Rightarrow> string" where
  "metric_text marshal m = ''Processed metric:'' @ [newline] @ encoded (marshal m) @ [newline]"

text \<open>The two cases of the loop that take something from a channel.\<close>

definition print_take_event :: "(event_output \<Rightarrow> string option) \<Rightarrow> print_app \<Rightarrow> print_app go" where
  "print_take_event marshal p =
     (case eChan p of
        [] \<Rightarrow> Inr p
      | event # rest \<Rightarrow>
          go_bind (event_text marshal event) (\<lambda>t. Inr (p\<lparr>eChan := rest, evtsF := evtsF p @ [t]\<rparr>)))"

definition print_take_metric :: "(metric \<Rightarrow> string option) \<Rightarrow> print_app \<Rightarrow> print_app" where
  "print_take_metric marshal p =
     (case mChan p of
        [] \<Rightarrow> p
      | m # rest \<Rightarrow> p\<lparr>mChan := rest, metrF := metrF p @ [metric_text marshal m]\<rparr>)"

text \<open>
  Runs, with the events and metrics accepted so far, for given results of opening the files.
  \<open>select\<close> takes any case that is ready.
\<close>

inductive print_run ::
  "(event_output \<Rightarrow> string option) \<Rightarrow> (metric \<Rightarrow> string option) \<Rightarrow> string option \<Rightarrow> string option
     \<Rightarrow> event list \<Rightarrow> metric list \<Rightarrow> print_app \<Rightarrow> bool"
  for me mm err errr where
  print_init: "print_run me mm err errr [] [] (fst (print_Config pc print_New))"
| print_event: "print_run me mm err errr es ms p \<Longrightarrow> print_ReceiveEvent e p = Some p' \<Longrightarrow>
     print_run me mm err errr (es @ [e]) ms p'"
| print_metric: "print_run me mm err errr es ms p \<Longrightarrow>
     print_ReceiveMetric (mName m) (mTime m) (mType m) (mInterval m) (mValue m) (mLabelKeys m)
       (mLabelVals m) p = Some p' \<Longrightarrow>
     print_run me mm err errr es (ms @ [m]) p'"
| print_start: "print_run me mm err errr es ms p \<Longrightarrow> pStatus p = Not_Run \<Longrightarrow>
     print_run me mm err errr es ms (print_Run_start err errr p)"
| print_write_event: "print_run me mm err errr es ms p \<Longrightarrow> pStatus p = Writing \<Longrightarrow>
     print_take_event me p = Inr p' \<Longrightarrow> print_run me mm err errr es ms p'"
| print_write_metric: "print_run me mm err errr es ms p \<Longrightarrow> pStatus p = Writing \<Longrightarrow>
     print_run me mm err errr es ms (print_take_metric mm p)"
| print_cancelled: "print_run me mm err errr es ms p \<Longrightarrow> pStatus p = Writing \<Longrightarrow>
     print_run me mm err errr es ms (p\<lparr>pStatus := Returned\<rparr>)"

section \<open>Lemmas\<close>

lemma event_text_total: "\<exists>t. event_text marshal e = Inr t"
proof -
  obtain et where "event_type_String (eType e) = Inr et" using event_type_String_total by blast
  then show ?thesis by (simp add: event_text_def)
qed

definition text_of :: "(event_output \<Rightarrow> string option) \<Rightarrow> event \<Rightarrow> string" where
  "text_of marshal e = projr (event_text marshal e)"

lemma event_text_eq: "event_text marshal e = Inr (text_of marshal e)"
  using event_text_total [of marshal e] by (auto simp: text_of_def)

definition print_inv ::
  "(event_output \<Rightarrow> string option) \<Rightarrow> (metric \<Rightarrow> string option) \<Rightarrow> bool \<Rightarrow> event list \<Rightarrow> metric list \<Rightarrow> print_app \<Rightarrow> bool" where
  "print_inv me mm files_ok es ms p \<longleftrightarrow>
     map (text_of me) es = evtsF p @ map (text_of me) (eChan p)
     \<and> map (metric_text mm) ms = metrF p @ map (metric_text mm) (mChan p)
     \<and> length (eChan p) \<le> print_capacity \<and> length (mChan p) \<le> print_capacity
     \<and> (\<not> files_ok \<longrightarrow> evtsF p = [] \<and> metrF p = [] \<and> pStatus p \<noteq> Writing)"

lemma print_run_inv:
  "print_run me mm err errr es ms p \<Longrightarrow> print_inv me mm (err = None \<and> errr = None) es ms p"
proof (induction rule: print_run.induct)
  case (print_init pc)
  then show ?case by (simp add: print_inv_def print_Config_def print_New_def split: prod.split)
next
  case (print_event es ms p e p')
  then show ?case by (auto simp: print_inv_def print_ReceiveEvent_def split: if_splits)
next
  case (print_metric es ms p m p')
  then show ?case
    by (cases m) (auto simp: print_inv_def print_ReceiveMetric_def Let_def split: if_splits)
next
  case (print_start es ms p)
  then show ?case by (auto simp: print_inv_def print_Run_start_def Let_def)
next
  case (print_write_event es ms p p')
  then show ?case
    by (cases "eChan p") (auto simp: print_inv_def print_take_event_def event_text_eq)
next
  case (print_write_metric es ms p)
  then show ?case by (cases "mChan p") (auto simp: print_inv_def print_take_metric_def)
next
  case (print_cancelled es ms p)
  then show ?case by (simp add: print_inv_def)
qed

section \<open>Properties\<close>

text \<open>
  C36: In every run the texts written to the events file and those of the events still in the
  channel are together the texts of the events received, in the order of their arrival, and the same
  holds for the metrics; a channel never holds more than five.  If one of the files could not be
  opened, nothing is ever written and no more than five events and five metrics are ever taken from
  the buses; the next \<open>ReceiveEvent\<close> blocks for ever, even though the application was started.
\<close>

theorem print_keeps_order:
  assumes "print_run me mm err errr es ms p"
  shows "map (text_of me) es = evtsF p @ map (text_of me) (eChan p)
    \<and> map (metric_text mm) ms = metrF p @ map (metric_text mm) (mChan p)
    \<and> length (eChan p) \<le> 5 \<and> length (mChan p) \<le> 5
    \<and> (if err = None \<and> errr = None then True
       else evtsF p = [] \<and> metrF p = [] \<and> length es \<le> 5 \<and> length ms \<le> 5
          \<and> (print_ReceiveEvent e p = None \<longleftrightarrow> length es = 5))"
proof -
  from print_run_inv [OF assms] have inv: "print_inv me mm (err = None \<and> errr = None) es ms p" .
  have "length es = length (eChan p)" "length ms = length (mChan p)" if "\<not> (err = None \<and> errr = None)"
    using inv that unfolding print_inv_def by (metis append_Nil length_map)+
  with inv show ?thesis
    by (auto simp: print_inv_def print_capacity_def print_ReceiveEvent_def)
qed

definition ex_print_event :: "string \<Rightarrow> event" where
  "ex_print_event i =
     \<lparr>eIndex = i, eTime = 0, eType = EVENT, ePublisher = [], eSeverity = INFO, eLabels = [], eAnnotations = [],
      eMessage = []\<rparr>"

definition ex_print :: print_app where
  "ex_print =
     (print_Run_start None (Some ''no such directory'') print_New)
       \<lparr>eChan := map ex_print_event [''a'', ''b'', ''c'', ''d'', ''e'']\<rparr>"

lemma ex_print_run:
  "print_run (\<lambda>e. Some (oIndex e)) (\<lambda>m. None) None (Some ''no such directory'')
     (map ex_print_event [''a'', ''b'', ''c'', ''d'', ''e'']) [] ex_print"
proof -
  let ?run = "print_run (\<lambda>e. Some (oIndex e)) (\<lambda>m. None) None (Some ''no such directory'')"
  have "?run [] [] (fst (print_Config (\<lambda>c. (c, None)) print_New))" by (rule print_init)
  then have "?run [] [] print_New" by (simp add: print_Config_def)
  from print_start [OF this] have s: "?run [] [] (print_Run_start None (Some ''no such directory'') print_New)"
    by (simp add: print_New_def)
  let ?p = "\<lambda>es. (print_Run_start None (Some ''no such directory'') print_New)\<lparr>eChan := es\<rparr>"
  have step: "?run es [] (?p es) \<Longrightarrow> length es < 5 \<Longrightarrow> ?run (es @ [e]) [] (?p (es @ [e]))" for es e
    by (erule print_event) (simp add: print_ReceiveEvent_def print_capacity_def)
  have "?run [] [] (?p [])" using s by (simp add: print_Run_start_def print_New_def)
  from step [OF step [OF step [OF step [OF step [OF this]]]],
      of "ex_print_event ''a''" "ex_print_event ''b''" "ex_print_event ''c''" "ex_print_event ''d''"
        "ex_print_event ''e''"]
  show ?thesis by (simp add: ex_print_def)
qed

theorem print_keeps_order_witness:
  "evtsF ex_print = [] \<and> logged ex_print = [] \<and> pStatus ex_print = Returned
   \<and> print_ReceiveEvent (ex_print_event ''f'') ex_print = None"
  using print_keeps_order [OF ex_print_run, of "ex_print_event ''f''"]
  by (simp add: ex_print_def print_Run_start_def print_New_def)

end
