(* ===== verification/BoundedApps.thy ===== *)
theory BoundedApps
  imports MetricBus Print LokiRun AlertmanagerRun
begin

text \<open>
  The event bus with applications whose channels are bounded: a subscriber's goroutine ends only
  when the application has room for what it brings, and an application that has returned from \<open>Run\<close>
  makes no room any more.
\<close>

section \<open>A bus and its applications\<close>

text \<open>
  Steps of the bus in which no subscriber returns; the return of a subscriber, if its application
  accepts the item; and a step of an application by itself.  The state is the bus (theory \<open>Bus\<close>) and
  the applications in the order in which they subscribed.
\<close>

inductive fed_step ::
  "(nat \<Rightarrow> bool) \<Rightarrow> ('e \<Rightarrow> 'a \<Rightarrow> 'a option) \<Rightarrow> ('a \<Rightarrow> 'a \<Rightarrow> bool) \<Rightarrow> ('r, 'e) bus \<times> 'a list
     \<Rightarrow> ('r, 'e) bus \<times> 'a list \<Rightarrow> bool"
  for bl accept work where
  fed_bus: "bus_step bl b b' \<Longrightarrow> received b' = received b \<Longrightarrow> fed_step bl accept work (b, as) (b', as)"
| fed_return: "bus_step bl b b' \<Longrightarrow> received b' = received b @ [(j, i, e)] \<Longrightarrow> j < length as \<Longrightarrow>
     accept e (as ! j) = Some a \<Longrightarrow> fed_step bl accept work (b, as) (b', as[j := a])"
| fed_work: "j < length as \<Longrightarrow> work (as ! j) a \<Longrightarrow> fed_step bl accept work (b, as) (b, as[j := a])"

text \<open>The calls of subscriber \<open>j\<close> that have not returned, or will be started.\<close>

definition outstanding :: "nat \<Rightarrow> ('r, 'e) bus \<Rightarrow> 'e multiset" where
  "outstanding j b = image_mset (snd \<circ> snd) (filter_mset (\<lambda>g. fst g = j) (running b + pending b))"

text \<open>All publishers have returned from their last call.\<close>

definition publishers_returned :: "('r, 'e) bus \<Rightarrow> bool" where
  "publishers_returned b \<longleftrightarrow> (\<forall>pub \<in> set (publishers b). pub = ([], False))"

section \<open>Lemmas about the bus\<close>

lemma bus_step_received:
  "bus_step bl b b' \<Longrightarrow> received b' = received b \<or> (\<exists>j i e. (j, i, e) \<in># running b \<and> received b' = received b @ [(j, i, e)])"
  by (cases rule: bus_step.cases) (auto simp: Publish_def PublishBlocking_def)

lemma bus_step_calls:
  assumes "bus_step bl b b'"
  shows "mset (received b') + running b' + pending b' = mset (received b) + running b + pending b"
  using calls_inv_step [OF assms, of "mset (received b) + running b + pending b"] by (simp add: calls_inv_def)

lemma outstanding_silent:
  assumes "bus_step bl b b'" and "received b' = received b"
  shows "outstanding j b' = outstanding j b"
proof -
  have "running b' + pending b' = running b + pending b"
    using bus_step_calls [OF assms(1)] assms(2) by (simp add: add.assoc)
  then show ?thesis by (simp only: outstanding_def)
qed

lemma outstanding_return:
  assumes "bus_step bl b b'" and "received b' = received b @ [(j, i, e)]"
  shows "outstanding k b = (if k = j then {#e#} else {#}) + outstanding k b'"
proof -
  have "running b + pending b = add_mset (j, i, e) (running b' + pending b')"
    using bus_step_calls [OF assms(1)] assms(2) by (simp add: add.assoc)
  then show ?thesis by (simp add: outstanding_def)
qed

lemma outstanding_finished: "bus_finished b \<Longrightarrow> outstanding j b = {#}"
  by (simp add: outstanding_def bus_finished_def pending_finished)

lemma subscribers_step: "bus_step bl b b' \<Longrightarrow> subscribers b' = subscribers b"
  by (cases rule: bus_step.cases) auto

lemma fed_step_bus: "fed_step bl accept work (b, as) (b', as') \<Longrightarrow> b' = b \<or> bus_step bl b b'"
  by (auto elim: fed_step.cases)

lemma fed_steps_inv:
  assumes "(fed_step bl accept work)\<^sup>*\<^sup>* (b, as) (b', as')" and "bus_inv bl rfs progs b"
  shows "bus_inv bl rfs progs b' \<and> length as' = length as"
  using assms(1)
proof (induction rule: rtranclp_induct2)
  case refl
  then show ?case using assms(2) by simp
next
  case (step b1 as1 b2 as2)
  from step(2) have "length as2 = length as1" by (auto elim: fed_step.cases)
  with step fed_step_bus [OF step(2)] show ?case by (auto intro: bus_step_inv)
qed

text \<open>If everybody waits, the publishers return only when all goroutines have ended.\<close>

lemma blocking_returned_finished:
  assumes "bus_inv bl rfs progs b" and "\<forall>i. bl i"
  shows "publishers_returned b \<longleftrightarrow> bus_finished b"
proof
  assume r: "publishers_returned b"
  have "g \<notin># running b" for g
  proof
    assume g: "g \<in># running b"
    obtain j i e where g_def: "g = (j, i, e)" by (cases g)
    with assms(1) g have j: "j < length rfs" and i: "i < length progs" by (auto simp: bus_inv_def)
    then have "publishers b ! i \<in> set (publishers b)" using assms(1) by (simp add: bus_inv_def)
    with r have "snd (publishers b ! i) = False" by (auto simp: publishers_returned_def)
    with assms i j have "running_for b j i = {#}" by (auto simp: bus_inv_def pub_inv_def in_order_def)
    with g g_def show False by (auto simp: running_for_def filter_mset_none_iff between_def)
  qed
  then have "running b = {#}" by (metis multiset_nonemptyE)
  with r show "bus_finished b" by (simp add: bus_finished_def publishers_returned_def)
qed (simp add: bus_finished_def publishers_returned_def)

section \<open>Applications with bounded channels\<close>

text \<open>
  What is assumed of an application: one that has stopped accepts an item exactly if it has room
  for it, and its room only shrinks; one that has not stopped can work until it accepts an item.
\<close>

locale bounded_app =
  fixes accept :: "'e \<Rightarrow> 'a \<Rightarrow> 'a option" and work :: "'a \<Rightarrow> 'a \<Rightarrow> bool"
    and stopped :: "'a \<Rightarrow> bool" and room :: "'a \<Rightarrow> nat" and uses :: "'a \<Rightarrow> 'e \<Rightarrow> nat"
  assumes stopped_accepts: "stopped a \<Longrightarrow> accept e a \<noteq> None \<longleftrightarrow> uses a e \<le> room a"
    and accept_frame: "accept e a = Some a' \<Longrightarrow> stopped a' = stopped a \<and> uses a' = uses a"
    and accept_room: "stopped a \<Longrightarrow> accept e a = Some a' \<Longrightarrow> room a' + uses a e = room a"
    and work_stopped: "stopped a \<Longrightarrow> work a a' \<Longrightarrow> stopped a' \<and> room a' = room a \<and> uses a' = uses a"
    and makes_room: "\<not> stopped a \<Longrightarrow> \<exists>a'. work\<^sup>*\<^sup>* a a' \<and> \<not> stopped a' \<and> accept e a' \<noteq> None"
begin

text \<open>What the outstanding calls will use of the room of application \<open>j\<close>, and when that is enough.\<close>

definition demand :: "nat \<Rightarrow> ('r, 'e) bus \<times> 'a list \<Rightarrow> nat" where
  "demand j s = sum_mset (image_mset (uses (snd s ! j)) (outstanding j (fst s)))"

definition enough :: "('r, 'e) bus \<times> 'a list \<Rightarrow> bool" where
  "enough s \<longleftrightarrow> (\<forall>j < length (snd s). stopped (snd s ! j) \<longrightarrow> demand j s \<le> room (snd s ! j))"

lemma stopped_step:
  assumes "fed_step bl accept work s t" and "j < length (snd s)" and "stopped (snd s ! j)"
  shows "length (snd t) = length (snd s) \<and> stopped (snd t ! j)
     \<and> room (snd s ! j) + demand j t = room (snd t ! j) + demand j s"
  using assms
proof (cases rule: fed_step.cases)
  case (fed_bus b b' as)
  with assms(3) outstanding_silent [OF fed_bus(3,4), of j] show ?thesis by (simp add: demand_def)
next
  case (fed_return b b' k i e as a)
  show ?thesis
  proof (cases "k = j")
    case True
    with assms(3) fed_return have st: "stopped (as ! j)" and ac: "accept e (as ! j) = Some a" by simp_all
    from accept_frame [OF ac] accept_room [OF st ac] st True fed_return(1,2,5)
      outstanding_return [OF fed_return(3,4), of j]
    show ?thesis by (simp add: demand_def)
  next
    case False
    with assms(3) fed_return(1,2) outstanding_return [OF fed_return(3,4), of j] show ?thesis
      by (simp add: demand_def)
  qed
next
  case (fed_work k as a b)
  with assms(2,3) work_stopped [of "as ! k" a] show ?thesis by (cases "k = j") (simp_all add: demand_def)
qed

lemma stopped_steps:
  assumes "(fed_step bl accept work)\<^sup>*\<^sup>* s t" and "j < length (snd s)" and "stopped (snd s ! j)"
  shows "j < length (snd t) \<and> stopped (snd t ! j)
     \<and> room (snd s ! j) + demand j t = room (snd t ! j) + demand j s"
  using assms(1)
proof (induction rule: rtranclp_induct)
  case base
  then show ?case using assms(2,3) by simp
next
  case (step t u)
  from stopped_step [OF step(2), of j] step(3) show ?case by auto
qed

text \<open>A run that finishes had enough room from the beginning.\<close>

lemma finished_enough:
  assumes "(fed_step bl accept work)\<^sup>*\<^sup>* s t" and "bus_finished (fst t)"
  shows "enough s"
  unfolding enough_def
proof (intro allI impI)
  fix j
  assume "j < length (snd s)" "stopped (snd s ! j)"
  from stopped_steps [OF assms(1) this] outstanding_finished [OF assms(2), of j]
  show "demand j s \<le> room (snd s ! j)" by (simp add: demand_def)
qed

lemma works:
  assumes "work\<^sup>*\<^sup>* a a'" and "j < length as" and "as ! j = a"
  shows "(fed_step bl accept work)\<^sup>*\<^sup>* (b, as) (b, as[j := a'])"
  using assms(1)
proof (induction rule: rtranclp_induct)
  case base
  show ?case using assms(3) by (metis list_update_id rtranclp.rtrancl_refl)
next
  case (step a1 a2)
  have "fed_step bl accept work (b, as[j := a1]) (b, (as[j := a1])[j := a2])"
    using step(2) assms(2) by (intro fed_work) simp_all
  with step(3) show ?case by simp
qed

text \<open>With enough room a call that the bus allows can return.\<close>

lemma can_return:
  assumes "bus_step bl b c" and "received c = received b @ [(j, i, e)]" and "j < length as"
    and "enough (b, as)"
  shows "\<exists>a. (fed_step bl accept work)\<^sup>*\<^sup>* (b, as) (c, as[j := a]) \<and> enough (c, as[j := a])"
proof -
  note out = outstanding_return [OF assms(1,2)]
  have others: "demand k (c, as[j := a]) = demand k (b, as)" if "k \<noteq> j" for k a
    using that out [of k] by (simp add: demand_def)
  show ?thesis
  proof (cases "stopped (as ! j)")
    case True
    have "uses (as ! j) e \<le> demand j (b, as)" using out [of j] by (simp add: demand_def)
    also have "\<dots> \<le> room (as ! j)" using assms(3,4) True by (simp add: enough_def)
    finally obtain a where a: "accept e (as ! j) = Some a" using stopped_accepts [OF True, of e] by auto
    have s: "fed_step bl accept work (b, as) (c, as[j := a])" by (rule fed_return [where accept = accept, OF assms(1-3) a])
    have "enough (c, as[j := a])"
      unfolding enough_def
    proof (intro allI impI)
      fix k
      assume k: "k < length (snd (c, as[j := a]))" "stopped (snd (c, as[j := a]) ! k)"
      show "demand k (c, as[j := a]) \<le> room (snd (c, as[j := a]) ! k)"
      proof (cases "k = j")
        case True
        with stopped_step [OF s, of j] \<open>stopped (as ! j)\<close> assms(3,4) show ?thesis
          by (auto simp: enough_def)
      next
        case False
        with others [OF False] k assms(4) show ?thesis by (simp add: enough_def)
      qed
    qed
    with s show ?thesis by blast
  next
    case False
    from makes_room [OF False, of e] obtain a1 a where
      a: "work\<^sup>*\<^sup>* (as ! j) a1" "\<not> stopped a1" "accept e a1 = Some a" by auto
    have "(fed_step bl accept work)\<^sup>*\<^sup>* (b, as) (b, as[j := a1])" using works [OF a(1) assms(3) refl] .
    moreover have "fed_step bl accept work (b, as[j := a1]) (c, (as[j := a1])[j := a])"
      using assms(3) a(3) by (intro fed_return [where accept = accept, OF assms(1,2)]) simp_all
    moreover have "enough (c, as[j := a])"
      unfolding enough_def
    proof (intro allI impI)
      fix k
      assume k: "k < length (snd (c, as[j := a]))" "stopped (snd (c, as[j := a]) ! k)"
      have "k \<noteq> j" using k a(2) accept_frame [OF a(3)] assms(3) by auto
      with others k assms(4) show "demand k (c, as[j := a]) \<le> room (snd (c, as[j := a]) ! k)"
        by (simp add: enough_def)
    qed
    ultimately show ?thesis by (intro exI [of _ a]) auto
  qed
qed

lemma enough_finishes:
  assumes "bus_inv bl rfs progs b" and "length as = length rfs" and "enough (b, as)"
  shows "\<exists>t. (fed_step bl accept work)\<^sup>*\<^sup>* (b, as) t \<and> bus_finished (fst t)"
  using assms
proof (induction "bus_work b" arbitrary: b as rule: less_induct)
  case less
  show ?case
  proof (cases "bus_finished b")
    case True
    then show ?thesis by (intro exI [of _ "(b, as)"]) simp
  next
    case False
    with bus_progress less.prems(1) obtain c where c: "bus_step bl b c" by blast
    note IH = less.hyps [OF bus_step_work [OF c] bus_step_inv [OF c less.prems(1)]]
    from bus_step_received [OF c] show ?thesis
    proof (elim disjE exE conjE)
      assume r: "received c = received b"
      have "enough (c, as)"
        using less.prems(3) outstanding_silent [OF c r] by (simp add: enough_def demand_def)
      from IH [OF less.prems(2) this] fed_bus [OF c r, of accept work as] show ?thesis
        by (meson converse_rtranclp_into_rtranclp)
    next
      fix j i e
      assume g: "(j, i, e) \<in># running b" and r: "received c = received b @ [(j, i, e)]"
      from g less.prems(1,2) have "j < length as" by (auto simp: bus_inv_def)
      from can_return [OF c r this less.prems(3)] obtain a where
        "(fed_step bl accept work)\<^sup>*\<^sup>* (b, as) (c, as[j := a])" "enough (c, as[j := a])" by blast
      with IH [of "as[j := a]"] less.prems(2) show ?thesis by (metis length_list_update rtranclp_trans)
    qed
  qed
qed

lemma finishes_iff:
  assumes "bus_inv bl rfs progs b" and "length as = length rfs"
  shows "(\<exists>t. (fed_step bl accept work)\<^sup>*\<^sup>* (b, as) t \<and> bus_finished (fst t)) \<longleftrightarrow> enough (b, as)"
  using enough_finishes [OF assms] finished_enough by blast

end

end
