(* ===== verification/EventApps.thy ===== *)
theory EventApps
  imports BoundedApps
begin

text \<open>
  The applications that put every event in a bounded channel (\<open>print\<close>, \<open>loki\<close> and \<open>alertmanager\<close>) behind
  the event bus: when a bus that waits for its subscribers, and with it a transport, gets stuck.
\<close>

section \<open>The applications\<close>

text \<open>
  The parameters of the applications: the JSON encoders, the errors of opening the two files of
  \<open>print\<close>, \<open>AssimilateMap\<close>, the clock, and the HTTP client.  The URL of the alert manager is one.
\<close>

record app_env =
  envEncode :: "event_output \<Rightarrow> string option"
  envFiles :: "string option \<times> string option"
  envAssimilate :: "(string, ivalue) gomap \<Rightarrow> (string, string) gomap"
  envNow :: "event \<Rightarrow> string"
  envAlert :: am_config
  envMarshal :: "alert \<Rightarrow> string + string"
  envClient :: "http_request \<Rightarrow> string + int"

text \<open>An application that is subscribed; for the alerting one, also whether its loop has ended.\<close>

datatype event_app = Print_App print_app | Loki_App loki | Alert_App am bool

text \<open>\<open>ReceiveEvent\<close>, up to the end of its send to the channel.\<close>

definition app_accept :: "app_env \<Rightarrow> event \<Rightarrow> event_app \<Rightarrow> event_app option" where
  "app_accept env e a =
     (case a of
        Print_App p \<Rightarrow> map_option Print_App (print_ReceiveEvent e p)
      | Loki_App s \<Rightarrow>
          (case loki_ReceiveEvent (envAssimilate env) e of
             Inl err \<Rightarrow> None
           | Inr l \<Rightarrow> map_option (\<lambda>ch. Loki_App (s\<lparr>lokiChannel := ch\<rparr>)) (loki_enqueue l (lokiChannel s)))
      | Alert_App s ended \<Rightarrow>
          (case am_receive (am_ReceiveEvent (envAssimilate env) (envNow env e) (envAlert env)) e s of
             Inl err \<Rightarrow> None
           | Inr r \<Rightarrow> map_option (\<lambda>s'. Alert_App s' ended) r))"

definition app_report :: "app_env \<Rightarrow> alert \<Rightarrow> (http_request option \<times> am_outcome) go" where
  "app_report env = am_report (envMarshal env) (\<lambda>url. None) (envClient env) (envAlert env)"

text \<open>What an application does by itself: \<open>Run\<close> starts, takes from its channel, or ends.\<close>

inductive app_work :: "app_env \<Rightarrow> event_app \<Rightarrow> event_app \<Rightarrow> bool" for env where
  print_opens: "pStatus p = Not_Run \<Longrightarrow>
     app_work env (Print_App p) (Print_App (print_Run_start (fst (envFiles env)) (snd (envFiles env)) p))"
| print_writes: "pStatus p = Writing \<Longrightarrow> print_take_event (envEncode env) p = Inr p' \<Longrightarrow>
     app_work env (Print_App p) (Print_App p')"
| print_ends: "pStatus p = Writing \<Longrightarrow> app_work env (Print_App p) (Print_App (p\<lparr>pStatus := Returned\<rparr>))"
| loki_works: "loki_step (envAssimilate env) s None s' \<Longrightarrow> lokiSending s' = lokiSending s \<Longrightarrow>
     app_work env (Loki_App s) (Loki_App s')"
| alert_takes: "am_take (app_report env) s = Inr s' \<Longrightarrow> app_work env (Alert_App s False) (Alert_App s' False)"
| alert_ends: "app_work env (Alert_App s False) (Alert_App s True)"

text \<open>
  An application that will not take from its channel any more: its \<open>Run\<close> has returned, or will as
  soon as it is called because a file of \<open>print\<close> cannot be opened.
\<close>

definition app_stopped :: "app_env \<Rightarrow> event_app \<Rightarrow> bool" where
  "app_stopped env a =
     (case a of
        Print_App p \<Rightarrow> pStatus p = Returned \<or> pStatus p = Not_Run \<and> envFiles env \<noteq> (None, None)
      | Loki_App s \<Rightarrow> lokiPhase s = Loki_Exited
      | Alert_App s ended \<Rightarrow> ended)"

text \<open>The free places of the channel, and how many of them an event takes.\<close>

definition app_room :: "event_app \<Rightarrow> nat" where
  "app_room a =
     (case a of
        Print_App p \<Rightarrow> print_capacity - length (eChan p)
      | Loki_App s \<Rightarrow> loki_capacity - length (lokiChannel s)
      | Alert_App s ended \<Rightarrow> am_capacity - length (amDump s))"

definition app_uses :: "app_env \<Rightarrow> event_app \<Rightarrow> event \<Rightarrow> nat" where
  "app_uses env a e =
     (case a of
        Print_App p \<Rightarrow> 1
      | Loki_App s \<Rightarrow> if eType e = LOG \<and> envAssimilate env (eLabels e) \<noteq> [] then 1 else 0
      | Alert_App s ended \<Rightarrow> if eType e = EVENT then 1 else 0)"

section \<open>Lemmas\<close>

lemma loki_ReceiveEvent_cases:
  "\<exists>r. loki_ReceiveEvent assimilate e = Inr r
     \<and> (if eType e = LOG \<and> assimilate (eLabels e) \<noteq> [] then r \<noteq> None else r = None)"
proof -
  obtain sev where "event_severity_String (eSeverity e) = Inr sev" using severity_String_total by blast
  then show ?thesis
    by (auto simp: loki_ReceiveEvent_def CreateLokiLog_def createLabels_def Let_def split: event_type.split)
qed

lemma am_ReceiveEvent_cases:
  "\<exists>r. am_ReceiveEvent assimilate now_text cf e = Inr r \<and> (if eType e = EVENT then r \<noteq> None else r = None)"
proof -
  obtain sev where "event_severity_String (eSeverity e) = Inr sev" using severity_String_total by blast
  then show ?thesis by (auto simp: am_ReceiveEvent_def GenerateAlert_def split: event_type.split)
qed

lemma app_report_total: "\<exists>r. app_report env a = Inr r"
  by (auto simp: app_report_def am_report_def Let_def split: option.split sum.split)

text \<open>Accepting an event: when the channel has a place for it, and what changes.\<close>

lemma app_accept_print [simp]:
  "app_accept env e (Print_App p) =
     (if length (eChan p) < print_capacity then Some (Print_App (p\<lparr>eChan := eChan p @ [e]\<rparr>)) else None)"
  by (simp add: app_accept_def print_ReceiveEvent_def)

lemma app_accept_loki:
  obtains "app_uses env (Loki_App s) e = 0" "app_accept env e (Loki_App s) = Some (Loki_App s)"
  | l where "app_uses env (Loki_App s) e = 1"
      "app_accept env e (Loki_App s) =
         (if length (lokiChannel s) < loki_capacity then Some (Loki_App (s\<lparr>lokiChannel := lokiChannel s @ [l]\<rparr>)) else None)"
proof -
  from loki_ReceiveEvent_cases [of "envAssimilate env" e] obtain r where
    r: "loki_ReceiveEvent (envAssimilate env) e = Inr r"
      "if eType e = LOG \<and> envAssimilate env (eLabels e) \<noteq> [] then r \<noteq> None else r = None" by blast
  show ?thesis
  proof (cases r)
    case None
    with r that(1) show ?thesis by (simp add: app_accept_def app_uses_def loki_enqueue_def split: if_splits)
  next
    case (Some l)
    with r that(2) [of l] show ?thesis by (simp add: app_accept_def app_uses_def loki_enqueue_def split: if_splits)
  qed
qed

lemma app_accept_alert:
  obtains "app_uses env (Alert_App s ended) e = 0" "app_accept env e (Alert_App s ended) = Some (Alert_App s ended)"
  | l where "app_uses env (Alert_App s ended) e = 1"
      "app_accept env e (Alert_App s ended) =
         (if length (amDump s) < am_capacity then Some (Alert_App (s\<lparr>amDump := amDump s @ [l]\<rparr>) ended) else None)"
proof -
  from am_ReceiveEvent_cases [of "envAssimilate env" "envNow env e" "envAlert env" e] obtain r where
    r: "am_ReceiveEvent (envAssimilate env) (envNow env e) (envAlert env) e = Inr r"
      "if eType e = EVENT then r \<noteq> None else r = None" by blast
  show ?thesis
  proof (cases r)
    case None
    with r that(1) show ?thesis by (simp add: app_accept_def app_uses_def am_receive_def split: if_splits)
  next
    case (Some l)
    with r that(2) [of l] show ?thesis by (simp add: app_accept_def app_uses_def am_receive_def split: if_splits)
  qed
qed

lemma app_uses_simps [simp]:
  "app_uses env (Print_App p) = (\<lambda>e. 1)"
  "app_uses env (Loki_App s) = (\<lambda>e. if eType e = LOG \<and> envAssimilate env (eLabels e) \<noteq> [] then 1 else 0)"
  "app_uses env (Alert_App t ended) = (\<lambda>e. if eType e = EVENT then 1 else 0)"
  by (simp_all add: app_uses_def fun_eq_iff)

lemma app_room_simps [simp]:
  "app_room (Print_App p) = print_capacity - length (eChan p)"
  "app_room (Loki_App s) = loki_capacity - length (lokiChannel s)"
  "app_room (Alert_App t ended) = am_capacity - length (amDump t)"
  by (simp_all add: app_room_def)

lemma app_stopped_simps [simp]:
  "app_stopped env (Print_App p) \<longleftrightarrow> pStatus p = Returned \<or> pStatus p = Not_Run \<and> envFiles env \<noteq> (None, None)"
  "app_stopped env (Loki_App s) \<longleftrightarrow> lokiPhase s = Loki_Exited"
  "app_stopped env (Alert_App t ended) \<longleftrightarrow> ended"
  by (simp_all add: app_stopped_def)

text \<open>An application whose \<open>Run\<close> goes on can empty its channel.\<close>

lemma print_drains:
  "pStatus p = Writing \<Longrightarrow>
     \<exists>p'. (app_work env)\<^sup>*\<^sup>* (Print_App p) (Print_App p') \<and> pStatus p' = Writing \<and> eChan p' = []"
proof (induction "eChan p" arbitrary: p)
  case Nil
  then show ?case by auto
next
  case (Cons e es)
  let ?p = "p\<lparr>eChan := es, evtsF := evtsF p @ [text_of (envEncode env) e]\<rparr>"
  have "print_take_event (envEncode env) p = Inr ?p"
    by (simp add: print_take_event_def event_text_eq flip: Cons.hyps(2))
  from print_writes [OF Cons.prems this] Cons.hyps(1) [of ?p] Cons.prems show ?case
    by (auto intro: converse_rtranclp_into_rtranclp)
qed

lemma loki_drains:
  "lokiPhase s = Loki_Started \<Longrightarrow>
     \<exists>s'. (app_work env)\<^sup>*\<^sup>* (Loki_App s) (Loki_App s') \<and> lokiPhase s' = Loki_Started \<and> lokiChannel s' = []"
proof (induction "lokiChannel s" arbitrary: s)
  case Nil
  then show ?case by auto
next
  case (Cons l ch)
  let ?s = "s\<lparr>lokiChannel := ch, lokiTaken := lokiTaken s @ [l]\<rparr>"
  have "app_work env (Loki_App s) (Loki_App ?s)"
    using loki_take [OF Cons.prems Cons.hyps(2) [symmetric]] by (intro loki_works) simp_all
  with Cons.hyps(1) [of ?s] Cons.prems show ?case by (auto intro: converse_rtranclp_into_rtranclp)
qed

lemma alert_drains:
  "\<exists>s'. (app_work env)\<^sup>*\<^sup>* (Alert_App s False) (Alert_App s' False) \<and> amDump s' = []"
proof (induction "amDump s" arbitrary: s)
  case Nil
  then show ?case by auto
next
  case (Cons a rest)
  obtain req res where "app_report env a = Inr (req, res)" using app_report_total by (metis surj_pair)
  then obtain s1 where s1: "am_take (app_report env) s = Inr s1" "amDump s1 = rest"
    by (simp add: am_take_def flip: Cons.hyps(2))
  from alert_takes [OF s1(1)] Cons.hyps(1) [of s1] s1(2) show ?case
    by (auto intro: converse_rtranclp_into_rtranclp)
qed

lemma app_accept_empty:
  "app_accept env e (Print_App p) \<noteq> None" if "eChan p = []" for p
  using that by (simp add: print_capacity_def)

lemma app_makes_room:
  assumes "\<not> app_stopped env a"
  shows "\<exists>a'. (app_work env)\<^sup>*\<^sup>* a a' \<and> \<not> app_stopped env a' \<and> app_accept env e a' \<noteq> None"
proof (cases a)
  case (Print_App p)
  have "\<exists>q. (app_work env)\<^sup>*\<^sup>* a (Print_App q) \<and> pStatus q = Writing"
  proof (cases "pStatus p")
    case Not_Run
    with assms Print_App have "envFiles env = (None, None)" by (simp add: app_stopped_def)
    with print_opens [OF Not_Run, of env] Print_App show ?thesis
      by (intro exI [of _ "print_Run_start None None p"]) (auto simp: print_Run_start_def Let_def)
  qed (use assms Print_App in \<open>auto simp: app_stopped_def\<close>)
  then obtain q where q: "(app_work env)\<^sup>*\<^sup>* a (Print_App q)" "pStatus q = Writing" by blast
  from print_drains [OF q(2), of env] obtain p' where
    "(app_work env)\<^sup>*\<^sup>* (Print_App q) (Print_App p')" "pStatus p' = Writing" "eChan p' = []" by blast
  with q(1) app_accept_empty [of p' env e] show ?thesis
    by (intro exI [of _ "Print_App p'"]) (auto simp: app_stopped_def)
next
  case (Loki_App s)
  have "\<exists>t. (app_work env)\<^sup>*\<^sup>* a (Loki_App t) \<and> lokiPhase t = Loki_Started"
  proof (cases "lokiPhase s")
    case Loki_Configured
    have "app_work env (Loki_App s) (Loki_App (s\<lparr>lokiPhase := Loki_Started\<rparr>))"
      using loki_start [OF Loki_Configured] by (intro loki_works) simp_all
    with Loki_App show ?thesis by (intro exI [of _ "s\<lparr>lokiPhase := Loki_Started\<rparr>"]) auto
  qed (use assms Loki_App in \<open>auto simp: app_stopped_def\<close>)
  then obtain t where t: "(app_work env)\<^sup>*\<^sup>* a (Loki_App t)" "lokiPhase t = Loki_Started" by blast
  from loki_drains [OF t(2), of env] obtain s' where
    "(app_work env)\<^sup>*\<^sup>* (Loki_App t) (Loki_App s')" "lokiPhase s' = Loki_Started" "lokiChannel s' = []" by blast
  moreover from this(3) have "app_accept env e (Loki_App s') \<noteq> None"
    by (cases rule: app_accept_loki [of env s' e]) (simp_all add: loki_capacity_def)
  ultimately show ?thesis using t(1) by (intro exI [of _ "Loki_App s'"]) (auto simp: app_stopped_def)
next
  case (Alert_App s ended)
  with assms have "\<not> ended" by (simp add: app_stopped_def)
  from alert_drains [of env s] obtain s' where
    "(app_work env)\<^sup>*\<^sup>* (Alert_App s False) (Alert_App s' False)" "amDump s' = []" by blast
  moreover from this(2) have "app_accept env e (Alert_App s' False) \<noteq> None"
    by (cases rule: app_accept_alert [of env s' False e]) (simp_all add: am_capacity_def)
  ultimately show ?thesis using Alert_App \<open>\<not> ended\<close>
    by (intro exI [of _ "Alert_App s' False"]) (auto simp: app_stopped_def)
qed

section \<open>The laws\<close>

lemma app_stopped_accepts: "app_accept env e a \<noteq> None \<longleftrightarrow> app_uses env a e \<le> app_room a"
proof (cases a)
  case (Loki_App s)
  then show ?thesis by (cases rule: app_accept_loki [of env s e]) auto
next
  case (Alert_App s ended)
  then show ?thesis by (cases rule: app_accept_alert [of env s ended e]) auto
qed auto

lemma app_accept_changes:
  assumes "app_accept env e a = Some a'"
  shows "app_stopped env a' = app_stopped env a \<and> app_uses env a' = app_uses env a
     \<and> app_room a' + app_uses env a e = app_room a"
proof (cases a)
  case (Print_App p)
  with assms show ?thesis by (auto split: if_splits)
next
  case (Loki_App s)
  with assms show ?thesis by (cases rule: app_accept_loki [of env s e]) (auto split: if_splits)
next
  case (Alert_App s ended)
  with assms show ?thesis by (cases rule: app_accept_alert [of env s ended e]) (auto split: if_splits)
qed

lemma app_work_stopped:
  "app_work env a a' \<Longrightarrow> app_stopped env a \<Longrightarrow>
     app_stopped env a' \<and> app_room a' = app_room a \<and> app_uses env a' = app_uses env a"
proof (induction rule: app_work.induct)
  case (print_opens p)
  then show ?case by (cases "envFiles env") (auto simp: print_Run_start_def Let_def)
next
  case (loki_works s s')
  then show ?case by (cases rule: loki_step.cases) auto
qed auto

text \<open>The three applications together are what the bus needs.\<close>

interpretation eapp: bounded_app "app_accept env" "app_work env" "app_stopped env" app_room "app_uses env"
proof unfold_locales
  show "app_accept env e a \<noteq> None \<longleftrightarrow> app_uses env a e \<le> app_room a" for e a
    by (rule app_stopped_accepts)
  show "\<exists>a'. (app_work env)\<^sup>*\<^sup>* a a' \<and> \<not> app_stopped env a' \<and> app_accept env e a' \<noteq> None"
    if "\<not> app_stopped env a" for a e
    using that by (rule app_makes_room)
qed (simp_all add: app_accept_changes app_work_stopped)

section \<open>Nobody waits\<close>

lemma silent_steps:
  assumes "silent_step\<^sup>*\<^sup>* b b'"
  shows "(fed_step no_wait accept work)\<^sup>*\<^sup>* (b, as) (b', as)"
  using assms
  by (induction rule: rtranclp_induct) (auto simp: silent_step_def intro: rtranclp.rtrancl_into_rtrancl fed_bus)

lemma nobody_waits_steps:
  assumes "(fed_step no_wait accept work)\<^sup>*\<^sup>* s t" and "nobody_waits (fst s)"
  shows "nobody_waits (fst t)"
  using assms(1)
proof (induction rule: rtranclp_induct)
  case base
  show ?case by (rule assms(2))
next
  case (step t u)
  have "nobody_waits b'" if "bus_step no_wait b b'" "nobody_waits b" for b b' :: "('a, 'b) bus"
    using that
    by (cases rule: bus_step.cases)
       (auto simp: nobody_waits_def Publish_def dest: set_update_subset_insert [THEN subsetD])
  with step fed_step_bus [of no_wait accept work "fst t" "snd t" "fst u" "snd u"] show ?case by auto
qed

section \<open>Properties\<close>

text \<open>All applications that have stopped have room for the events that are still to come.\<close>

definition all_fit :: "app_env \<Rightarrow> (event_app, event) bus \<Rightarrow> event_app list \<Rightarrow> bool" where
  "all_fit env b as \<longleftrightarrow>
     list_all (\<lambda>j. app_stopped env (as ! j) \<longrightarrow>
        sum_mset (image_mset (app_uses env (as ! j)) (outstanding j b)) \<le> app_room (as ! j)) [0..<length as]"

lemma all_fit_enough: "all_fit env b as \<longleftrightarrow> eapp.enough env (b, as)"
  by (auto simp: all_fit_def eapp.enough_def eapp.demand_def list_all_iff)

text \<open>
  C2: Whatever has happened so far, all calls of the subscribers can still return exactly if every
  application that has stopped has free places in its channel for all events that are on their way or
  will be published.  If the bus waits for its subscribers, this is also exactly when the publishers,
  and with them the transports, can get to their end: one stopped application without room stops them
  all.  If it does not wait, the publishers always get to their end, and only goroutines stay.
\<close>

theorem bus_of_bounded_apps_completes_iff:
  assumes "(fed_step bl (app_accept env) (app_work env))\<^sup>*\<^sup>* (bus_start apps progs, apps) (b, as)"
  shows "((\<exists>t. (fed_step bl (app_accept env) (app_work env))\<^sup>*\<^sup>* (b, as) t \<and> bus_finished (fst t))
            \<longleftrightarrow> all_fit env b as)
     \<and> ((\<forall>i. bl i) \<longrightarrow>
          ((\<exists>t. (fed_step bl (app_accept env) (app_work env))\<^sup>*\<^sup>* (b, as) t \<and> publishers_returned (fst t))
            \<longleftrightarrow> all_fit env b as))
     \<and> ((\<forall>i. \<not> bl i) \<longrightarrow>
          (\<exists>t. (fed_step bl (app_accept env) (app_work env))\<^sup>*\<^sup>* (b, as) t \<and> publishers_returned (fst t)))"
proof (intro conjI impI)
  from fed_steps_inv [OF assms bus_start_inv] have inv: "bus_inv bl apps progs b" and len: "length as = length apps"
    by simp_all
  show fin: "(\<exists>t. (fed_step bl (app_accept env) (app_work env))\<^sup>*\<^sup>* (b, as) t \<and> bus_finished (fst t))
      \<longleftrightarrow> all_fit env b as"
    using eapp.finishes_iff [OF inv len] by (simp add: all_fit_enough)
  show "(\<exists>t. (fed_step bl (app_accept env) (app_work env))\<^sup>*\<^sup>* (b, as) t \<and> publishers_returned (fst t))
      \<longleftrightarrow> all_fit env b as" if "\<forall>i. bl i"
  proof -
    have "publishers_returned (fst t) \<longleftrightarrow> bus_finished (fst t)"
      if "(fed_step bl (app_accept env) (app_work env))\<^sup>*\<^sup>* (b, as) t" for t
      using fed_steps_inv [of bl "app_accept env" "app_work env" b as "fst t" "snd t"] that inv
        blocking_returned_finished \<open>\<forall>i. bl i\<close> by (metis prod.collapse)
    with fin show ?thesis by blast
  qed
  show "\<exists>t. (fed_step bl (app_accept env) (app_work env))\<^sup>*\<^sup>* (b, as) t \<and> publishers_returned (fst t)"
    if "\<forall>i. \<not> bl i"
  proof -
    have bl: "bl = no_wait" using that by blast
    have "nobody_waits (bus_start apps progs)" by (auto simp: nobody_waits_def bus_start_eq)
    with nobody_waits_steps assms have "nobody_waits b" unfolding bl by fastforce
    from publish_all_silently [OF this] obtain b' where
      b': "silent_step\<^sup>*\<^sup>* b b'" "publishers_returned b'" by (auto simp: publishers_returned_def)
    from silent_steps [OF b'(1), of "app_accept env" "app_work env" as] b'(2) show ?thesis
      unfolding bl by (intro exI [of _ "(b', as)"]) simp
  qed
qed

text \<open>
  \<open>print\<close> with a file that it cannot open: a transport that publishes six events on a bus that waits
  gets stuck, one that publishes five does not, and on a bus that does not wait both end.
\<close>

definition ex_app_env :: app_env where
  "ex_app_env =
     \<lparr>envEncode = (\<lambda>e. Some (oIndex e)), envFiles = (None, Some ''no such directory''),
      envAssimilate = ex_assimilate, envNow = (\<lambda>e. ''now''), envAlert = default_am_config,
      envMarshal = (\<lambda>a. Inr ''{}''), envClient = (\<lambda>r. Inr 200)\<rparr>"

abbreviation ex_fed ::
  "bool \<Rightarrow> nat \<Rightarrow> (event_app, event) bus \<times> event_app list \<Rightarrow> bool" where
  "ex_fed blocking n t \<equiv>
     (fed_step (\<lambda>_. blocking) (app_accept ex_app_env) (app_work ex_app_env))\<^sup>*\<^sup>*
       (bus_start [Print_App print_New, Alert_App am_New False] [replicate n (ex_print_event ''x'')],
        [Print_App print_New, Alert_App am_New False]) t"

theorem bus_of_bounded_apps_completes_iff_witness:
  "\<not> (\<exists>t. ex_fed True 6 t \<and> publishers_returned (fst t))
   \<and> (\<exists>t. ex_fed True 5 t \<and> publishers_returned (fst t))
   \<and> (\<exists>t. ex_fed False 6 t \<and> publishers_returned (fst t))
   \<and> \<not> (\<exists>t. ex_fed False 6 t \<and> bus_finished (fst t))"
proof -
  let ?apps = "[Print_App print_New, Alert_App am_New False]"
  let ?b = "\<lambda>n. bus_start ?apps [replicate n (ex_print_event ''x'')]"
  have fit: "all_fit ex_app_env (?b n) ?apps \<longleftrightarrow> n \<le> 5" for n
  proof -
    have "outstanding 0 (?b n) = replicate_mset n (ex_print_event ''x'')"
    proof -
      have "filter_mset (\<lambda>g. fst g = 0) (calls_of 2 0 (replicate n (ex_print_event ''x'')))
          = replicate_mset n (0, 0, ex_print_event ''x'')"
        by (induction n) (simp_all add: numeral_2_eq_2)
      then show ?thesis
        by (simp add: outstanding_def bus_start_eq pending_def numeral_2_eq_2)
    qed
    then show ?thesis
      by (simp add: all_fit_def ex_app_env_def print_New_def print_capacity_def)
  qed
  have "(\<exists>t. ex_fed True n t \<and> publishers_returned (fst t)) \<longleftrightarrow> n \<le> 5"
    "\<exists>t. ex_fed False n t \<and> publishers_returned (fst t)"
    "(\<exists>t. ex_fed False n t \<and> bus_finished (fst t)) \<longleftrightarrow> n \<le> 5" for n
    using bus_of_bounded_apps_completes_iff
        [of "\<lambda>_. True" ex_app_env ?apps "[replicate n (ex_print_event ''x'')]" "?b n" ?apps]
      bus_of_bounded_apps_completes_iff
        [of "\<lambda>_. False" ex_app_env ?apps "[replicate n (ex_print_event ''x'')]" "?b n" ?apps] fit [of n]
    by simp_all
  then show ?thesis by simp
qed

end
