(* ===== verification/Shutdown.thy ===== *)
theory Shutdown
  imports Prelude
begin

text \<open>
  How the program ends (the last part of \<open>main\<close> in \<open>cmd/main.go\<close>): it waits for a plugin to signal on
  the channel \<open>pluginDone\<close> or for an interrupt, once, then cancels the context and waits for all
  goroutines that \<open>RunTransports\<close> and \<open>RunApplications\<close> of \<open>cmd/manager/manager.go\<close> have started.  The
  channel has no buffer: a plugin that signals blocks until the signal is received.
\<close>

section \<open>Steps\<close>

text \<open>
  A goroutine of the wait group is running its plugin, blocked at the send to \<open>pluginDone\<close>, or has
  returned.
\<close>

datatype routine = Routine_Running | Routine_Signalling | Routine_Returned

record main_state =
  routines :: "routine list"
  cancelled :: bool
  exited :: bool

definition main_start :: "nat \<Rightarrow> main_state" where
  "main_start n = \<lparr>routines = replicate n Routine_Running, cancelled = False, exited = False\<rparr>"

text \<open>
  Which goroutines can do what is a property of the plugins: \<open>signals i\<close> if it may send on the
  channel itself (it returns after that), as \<open>Run\<close> of Elasticsearch does when the indices cannot be
  reset; \<open>fails i\<close> if it may return by itself, \<open>honours i\<close> if it returns when the context is cancelled.
  Prometheus and the socket transport signal in goroutines of their own, for which nobody waits: to
  the program such a signal is what an interrupt is.
\<close>

record routine_kinds =
  signals :: "nat \<Rightarrow> bool"
  fails :: "nat \<Rightarrow> bool"
  honours :: "nat \<Rightarrow> bool"

inductive main_step :: "routine_kinds \<Rightarrow> main_state \<Rightarrow> main_state \<Rightarrow> bool" for k where
  step_signal: "i < length (routines s) \<Longrightarrow> routines s ! i = Routine_Running \<Longrightarrow> signals k i \<Longrightarrow>
     main_step k s (s\<lparr>routines := (routines s)[i := Routine_Signalling]\<rparr>)"
| step_received: "\<not> cancelled s \<Longrightarrow> i < length (routines s) \<Longrightarrow> routines s ! i = Routine_Signalling \<Longrightarrow>
     main_step k s (s\<lparr>routines := (routines s)[i := Routine_Returned], cancelled := True\<rparr>)"
| step_interrupt: "\<not> cancelled s \<Longrightarrow> main_step k s (s\<lparr>cancelled := True\<rparr>)"
| step_return: "i < length (routines s) \<Longrightarrow> routines s ! i = Routine_Running \<Longrightarrow>
     fails k i \<or> cancelled s \<and> honours k i \<Longrightarrow>
     main_step k s (s\<lparr>routines := (routines s)[i := Routine_Returned]\<rparr>)"
| step_exit: "cancelled s \<Longrightarrow> \<not> exited s \<Longrightarrow> list_all (\<lambda>r. r = Routine_Returned) (routines s) \<Longrightarrow>
     main_step k s (s\<lparr>exited := True\<rparr>)"

section \<open>Lemmas\<close>

text \<open>A goroutine the program would wait for, for ever, once the context is cancelled.\<close>

definition hangs :: "routine_kinds \<Rightarrow> main_state \<Rightarrow> nat \<Rightarrow> bool" where
  "hangs k s i \<longleftrightarrow>
     routines s ! i = Routine_Signalling \<or>
     routines s ! i = Routine_Running \<and> \<not> fails k i \<and> \<not> honours k i"

lemma hang_step:
  assumes "main_step k s s'" and "cancelled s" and "i < length (routines s)" and "hangs k s i" and "\<not> exited s"
  shows "cancelled s' \<and> i < length (routines s') \<and> hangs k s' i \<and> \<not> exited s'"
  using assms
proof (cases rule: main_step.cases)
  case (step_signal j)
  with assms show ?thesis by (cases "i = j") (auto simp: hangs_def)
next
  case (step_return j)
  with assms show ?thesis by (cases "i = j") (auto simp: hangs_def)
next
  case step_exit
  with assms have "routines s ! i = Routine_Returned" by (auto simp: list_all_length)
  with assms show ?thesis by (simp add: hangs_def)
qed auto

lemma hang_steps:
  assumes "(main_step k)\<^sup>*\<^sup>* s s'" and "cancelled s" and "i < length (routines s)" and "hangs k s i"
    and "\<not> exited s"
  shows "\<not> exited s'"
proof -
  have "cancelled s' \<and> i < length (routines s') \<and> hangs k s' i \<and> \<not> exited s'"
    using assms by (induction rule: rtranclp_induct) (auto dest: hang_step)
  then show ?thesis by simp
qed

lemma finish:
  assumes "cancelled s" and "\<not> exited s" and "\<And>i. i < length (routines s) \<Longrightarrow> \<not> hangs k s i"
  shows "\<exists>s'. (main_step k)\<^sup>*\<^sup>* s s' \<and> exited s'"
  using assms
proof (induction "length (filter (\<lambda>r. r \<noteq> Routine_Returned) (routines s))" arbitrary: s)
  case 0
  then have "list_all (\<lambda>r. r = Routine_Returned) (routines s)" by (simp add: list_all_iff filter_empty_conv)
  from step_exit [OF 0(2,3) this, of k] show ?case by (intro exI [of _ "s\<lparr>exited := True\<rparr>"]) auto
next
  case (Suc n)
  have "filter (\<lambda>r. r \<noteq> Routine_Returned) (routines s) \<noteq> []" using Suc.hyps(2) by auto
  then obtain i where i: "i < length (routines s)" "routines s ! i \<noteq> Routine_Returned"
    by (auto simp: filter_empty_conv in_set_conv_nth)
  from i(2) Suc.prems(3) [OF i(1)] have run: "routines s ! i = Routine_Running" "fails k i \<or> honours k i"
    by (cases "routines s ! i"; auto simp: hangs_def)+
  let ?s = "s\<lparr>routines := (routines s)[i := Routine_Returned]\<rparr>"
  have step: "main_step k s ?s" using step_return [OF i(1) run(1)] run(2) Suc.prems(1) by blast
  have parts: "routines s = take i (routines s) @ Routine_Running # drop (Suc i) (routines s)"
    using id_take_nth_drop [OF i(1)] run(1) by simp
  have "(routines s)[i := Routine_Returned] = take i (routines s) @ Routine_Returned # drop (Suc i) (routines s)"
    using i(1) by (simp add: upd_conv_take_nth_drop)
  moreover have "length (filter (\<lambda>r. r \<noteq> Routine_Returned) (take i (routines s) @ Routine_Running # drop (Suc i) (routines s))) = Suc n"
    using Suc.hyps(2) parts by simp
  ultimately have "n = length (filter (\<lambda>r. r \<noteq> Routine_Returned) (routines ?s))" by simp
  moreover have "\<not> hangs k ?s j" if "j < length (routines ?s)" for j
    using Suc.prems(3) [of j] that by (cases "j = i") (auto simp: hangs_def)
  ultimately obtain s' where "(main_step k)\<^sup>*\<^sup>* ?s s'" "exited s'"
    using Suc.hyps(1) [of ?s] Suc.prems(1,2) by auto
  with step show ?case by (meson converse_rtranclp_into_rtranclp)
qed

section \<open>Properties\<close>

text \<open>
  C38: Once the context is cancelled, the program can still end exactly if no goroutine is at the
  signal, which nobody receives any more, and every plugin that still runs returns by itself or
  honours the cancellation: one plugin that signals too late, or ignores the context, and \<open>main\<close>
  waits for ever.
\<close>

theorem shutdown_completes_iff:
  assumes "cancelled s" and "\<not> exited s"
  shows "(\<exists>s'. (main_step k)\<^sup>*\<^sup>* s s' \<and> exited s') \<longleftrightarrow> (\<forall>i < length (routines s). \<not> hangs k s i)"
  using finish [OF assms] hang_steps [OF _ assms(1) _ _ assms(2)] by blast

text \<open>
  Two plugins that fail, of which the program only hears the first: the second is never heard, and
  the program does not end, although nobody ignores the cancellation.
\<close>

definition ex_kinds :: routine_kinds where
  "ex_kinds = \<lparr>signals = (\<lambda>i. True), fails = (\<lambda>i. False), honours = (\<lambda>i. True)\<rparr>"

definition ex_two_failures :: main_state where
  "ex_two_failures = \<lparr>routines = [Routine_Returned, Routine_Signalling], cancelled = True, exited = False\<rparr>"

lemma two_failures_reachable: "(main_step ex_kinds)\<^sup>*\<^sup>* (main_start 2) ex_two_failures"
proof -
  let ?s0 = "main_start 2"
  let ?s1 = "?s0\<lparr>routines := (routines ?s0)[0 := Routine_Signalling]\<rparr>"
  let ?s2 = "?s1\<lparr>routines := (routines ?s1)[1 := Routine_Signalling]\<rparr>"
  let ?s3 = "?s2\<lparr>routines := (routines ?s2)[0 := Routine_Returned], cancelled := True\<rparr>"
  have "main_step ex_kinds ?s0 ?s1" by (rule step_signal) (simp_all add: main_start_def ex_kinds_def)
  moreover have "main_step ex_kinds ?s1 ?s2"
    by (rule step_signal) (simp_all add: main_start_def ex_kinds_def numeral_2_eq_2)
  moreover have "main_step ex_kinds ?s2 ?s3"
    by (rule step_received) (simp_all add: main_start_def numeral_2_eq_2)
  moreover have "?s3 = ex_two_failures" by (simp add: main_start_def ex_two_failures_def numeral_2_eq_2)
  ultimately show ?thesis
    by (metis (no_types, lifting) converse_rtranclp_into_rtranclp rtranclp.rtrancl_refl)
qed

theorem shutdown_completes_iff_witness:
  "(main_step ex_kinds)\<^sup>*\<^sup>* (main_start 2) ex_two_failures
   \<and> \<not> (\<exists>s'. (main_step ex_kinds)\<^sup>*\<^sup>* ex_two_failures s' \<and> exited s')
   \<and> (\<exists>s'. (main_step ex_kinds)\<^sup>*\<^sup>* ((main_start 2)\<lparr>cancelled := True\<rparr>) s' \<and> exited s')"
proof -
  have "hangs ex_kinds ex_two_failures 1" by (simp add: hangs_def ex_two_failures_def)
  moreover have "cancelled ex_two_failures" "\<not> exited ex_two_failures" "1 < length (routines ex_two_failures)"
    by (simp_all add: ex_two_failures_def)
  moreover have "\<not> hangs ex_kinds ((main_start 2)\<lparr>cancelled := True\<rparr>) i" if "i < 2" for i
    using that by (simp add: hangs_def main_start_def ex_kinds_def)
  ultimately show ?thesis
    using two_failures_reachable shutdown_completes_iff [of ex_two_failures ex_kinds]
      shutdown_completes_iff [of "(main_start 2)\<lparr>cancelled := True\<rparr>" ex_kinds]
    by (auto simp: main_start_def)
qed

end
