(* ===== verification/Spec2Isabelle.thy ===== *)
theory Spec2Isabelle
  imports ScrapePipeline LogPipeline Socket SocketRun Amqp DummyTransports CollectdMetrics CeilometerMetrics Sensubility Events Logs
    GoTimeParse Bus Manager PluginConfig PrometheusIntervals PrometheusRun ElasticsearchLife AlertmanagerRun
    LokiRun DummyAlertmanager MainInit Print EventApps Shutdown
begin

text \<open>
  sg-core, the core of a telemetry smart gateway.  The program loads plugins of three kinds.
  A transport reads blobs from outside (\<open>plugins/transport\<close>); the manager hands every
  blob to the handlers configured for that transport (\<open>plugins/handler\<close>), which turn it
  into metrics and events and publish them on the metric bus and on the event bus
  (\<open>pkg/bus\<close>); the buses call the applications that subscribed (\<open>plugins/application\<close>),
  which store, export or forward what they receive.  \<open>cmd/main.go\<close> and
  \<open>cmd/manager/manager.go\<close> read the configuration, load the plugins and start them.

  Conventions.  A Go \<open>panic\<close> is a value: code that may panic returns \<open>Inl\<close> of a
  \<open>go_panic\<close> or \<open>Inr\<close> of its result, composed with \<open>go_bind\<close> (theory
  \<open>Prelude\<close>).  An \<open>error\<close> that a function returns is part of the result.  A struct
  that a method changes is a record that is passed in and returned.  Everything a handler
  publishes is returned as a list of \<open>published\<close> items in the order of the calls
  (theory \<open>Handler\<close>).  A slice is a list; a map that the code iterates over or serialises
  is an association list, and where Go leaves the order of the iteration open the definitions
  take the list in an arbitrary order.  Strings are lists of bytes (\<open>char\<close>).  64-bit
  integers have their wrap-around written out (\<open>wrap64\<close>, words).  A \<open>float64\<close> is a real number:
  no statement depends on NaN, on infinities or on the rounding of arithmetic; an integer becomes one
  by \<open>f64_of_int\<close>, which rounds to 53 bits as Go does.  Lower case is that of ASCII, and the regular
  expressions match bytes.  Effects outside the program (files, sockets, HTTP, the clock) are
  arguments of the definitions that use them: the results of the calls in the order they are made.

  Theories, and what they model (paths below \<open>src/\<close>):
  \<^item> \<open>Prelude\<close>, \<open>GoStrings\<close>, \<open>GoPath\<close>, \<open>GoRegexp\<close>, \<open>GoTime\<close>, \<open>GoTimeParse\<close>, \<open>GoCalendar\<close>: the parts of
    Go's language and standard library that the components share: panics, slices, loops, runs with a
    trace, \<open>strings\<close>, \<open>strconv\<close>, \<open>filepath.Join\<close>, a matcher for the regular expressions of the program
    with the \<open>regexp\<close> operations on them, the search for a time layout
    (\<open>plugins/handler/events/pkg/lib/time.go\<close>, its copy \<open>pkg/lib/time.go\<close>, and
    \<open>plugins/handler/logs/pkg/lib/time.go\<close>), \<open>time.Parse\<close> for the layouts that occur and the calendar
    (\<open>t.Date()\<close> of a parsed date is that date).  The definitions of the handlers take \<open>time_Parse\<close> as
    an argument; \<open>iso_stamps_to_epoch\<close>, \<open>log_stamps_accepted\<close> (theory \<open>LogTime\<close>) and
    \<open>ceilometer_time_needs_zone\<close> put this model in its place.
  \<^item> \<open>Data\<close>: \<open>pkg/data/data.go\<close> and the mode of \<open>pkg/transport/transport.go\<close>.
  \<^item> \<open>PluginConfig\<close>: \<open>pkg/config/config.go\<close>, by which every plugin reads its configuration.
  \<^item> \<open>Handler\<close>: the interface of the handlers (\<open>pkg/handler/handler.go\<close>) and of the metric receivers
    (\<open>pkg/application/application.go\<close>) as locales, which the handlers and Prometheus interpret.
  \<^item> Transports: \<open>Socket\<close> (\<open>plugins/transport/socket/main.go\<close>: framing, reads bounded by
    the buffer, the receive loop, buffer growth)
    and \<open>SocketRun\<close> (binding, accepting connections, the end); \<open>Amqp\<close> (\<open>plugins/transport/amqp1\<close>);
    \<open>DummyTransports\<close>, \<open>DummyAlertmanager\<close> (the four \<open>plugins/transport/dummy-*\<close>).
  \<^item> Handlers: \<open>CollectdMetrics\<close>, \<open>CeilometerMetrics\<close>, \<open>Sensubility\<close>, \<open>Logs\<close>, \<open>LogTime\<close>, below
    \<open>plugins/handler/\<close>; \<open>CollectdSanitize\<close>, \<open>EventParsers\<close>, \<open>EventSource\<close>, \<open>Events\<close> for
    \<open>plugins/handler/events\<close>: the clean-up of collectd's messages, the two parsers, the recognition of
    the source, the handler with its counters.
  \<^item> \<open>Bus\<close>, \<open>MetricBus\<close>: \<open>pkg/bus/bus.go\<close>, goroutines as steps of an inductive relation: what the
    publishers and the subscribers see with and without waiting, when the wait group that all
    publishers share panics, and that a bus without waiting delivers in every order there is.  There a
    subscriber can return at any time; one that has to wait is the subject of \<open>BoundedApps\<close>.
  \<^item> Applications, below \<open>plugins/application/\<close>: \<open>Expiry\<close>, \<open>Prometheus\<close>, \<open>PrometheusInv\<close>,
    \<open>PrometheusProps\<close>, \<open>PrometheusTheorems\<close>, \<open>PrometheusIntervals\<close>, \<open>PrometheusRun\<close> (the cache, the
    expiry processes, scraping, the routes and the end; the library's check of the gathered samples,
    which can turn a scrape into an error, is a parameter); \<open>EsClient\<close>, \<open>Elasticsearch\<close>,
    \<open>ElasticsearchRun\<close>, \<open>ElasticsearchLife\<close> (requests, buffers and workers with the records they
    disregard when the client fails, connecting and starting, the end, where every run of the whole is
    shown to be a run of the buffers); \<open>Alertmanager\<close>,
    \<open>AlertmanagerRun\<close> (alerts, reporting them); \<open>Loki\<close>, \<open>LokiRun\<close> (the log of an event; the channel, the
    start and the end); \<open>Print\<close>.
  \<^item> \<open>Manager\<close>: \<open>cmd/manager/manager.go\<close>, \<open>cmd/config.go\<close> and the loops of \<open>cmd/main.go\<close> over the
    configured plugins; \<open>MainInit\<close>: \<open>main\<close> before them, flags, logger, profile, configuration and level;
    \<open>Shutdown\<close>: the end of \<open>main\<close>, with the goroutines of the plugins as a step relation.
  \<^item> \<open>MetricPipeline\<close>: the metric handlers, the metric bus and Prometheus put together;
    \<open>ScrapePipeline\<close>: what a scrape exports of metrics with slots of their own, whatever the order in
    which the bus delivers them, and when the library accepts it; \<open>LogPipeline\<close>: the logs handler, the event bus and Elasticsearch.
  \<^item> \<open>BoundedApps\<close>, \<open>EventApps\<close>: the event bus with applications that put each event in a bounded
    channel (print, Loki, the alerting one), and when a bus that waits gets stuck.  Elasticsearch is not
    among them, since what it puts in its channel depends on its buffer.
  \<^item> This theory: further statements across components, from the stream of a transport to the metrics
    of a handler and on to the scrape of Prometheus (\<open>wire_to_scrape\<close>), what is true of everything on
    the buses, metrics that Prometheus keeps, two instances of Prometheus, the time of ceilometer's samples, and what an AMQP transport does to the end of the
    program.

  Loops.  A loop over a slice is recursion on a list.  A loop that waits for its environment (the
  receive loops, the workers, the tickers) is either a function of the list of what the environment
  has answered so far, so that its statements speak of every finite part of a run, or a step relation
  with its reachable states.  The only loop that may not end by itself, the one of \<open>sanitize\<close> for
  collectd events, is a \<open>partial_function\<close> into \<open>option\<close>, and \<open>collectd_sanitize_returns_iff\<close> says when
  it ends.  No definition uses fuel.

  Interleaving.  Concurrency is modelled where the code's goroutines share state, at the grain of the
  step relations: a publisher's loop over the subscribers, \<open>ReceiveMetric\<close> of Prometheus, a check of an
  expiry process and a scrape are one step each.  The code does not lock the last three against each
  other; \<open>collector_race_breaks_scrape\<close> shows a run in which that matters.

  Not modelled.  Log messages, except those a statement is about.  The libraries behind the program:
  decoders and encoders for JSON, YAML and MessagePack, the HTTP server and client, the clients of
  AMQP, Elasticsearch, Loki and Prometheus, \<open>apputils\<close>; they are parameters.  Of \<open>main\<close>, the usage
  text and the signal handler, which is the step of an interrupt.  The wrappers of the logger, and
  \<open>Listen\<close> of the transports, which only prints and which nothing calls.  The interfaces of the plugins (\<open>pkg/application\<close>,
  \<open>pkg/transport\<close>, \<open>pkg/handler\<close>) are declarations without behaviour: what they ask of a plugin is
  stated by the locales.  The C program under
  \<open>generator/\<close>, a load generator for tests, and the tests.
\<close>

section \<open>From the wire to the handlers\<close>

text \<open>
  Messages that a TCP peer frames reach the collectd-metrics handler behind the transport whole,
  once and in order, however the stream is cut into reads: it publishes exactly what the
  messages contain, and has counted each of them.
\<close>

theorem tcp_stream_to_collectd:
  assumes "sType c = ''tcp''" and "[] \<notin> set ms" and "length (concat (map frame ms)) < 2 ^ 62"
    and "concat cs = concat (map frame ms)" and "[] \<notin> set cs"
    and "list_all (cd_message_ok parse) ms"
  shows "\<exists>s es h. receive_data c new_receiver (map Arrived cs) = Inr (s, es, True)
     \<and> handle_all (cd_Handle parse cf ae) cd_New (delivered es) r
         = Inr (h, concat (map (cd_message_outputs parse cf ae r) ms))
     \<and> cdMessagesReceived h = of_nat (length ms)"
proof -
  from receive_data_frames [OF assms(1-5)] obtain s es
    where s: "receive_data c new_receiver (map Arrived cs) = Inr (s, es, True)" "delivered es = ms"
    by blast
  from cd_handle_all_outputs [OF assms(6)] obtain h
    where h: "handle_all (cd_Handle parse cf ae) cd_New ms r
                = Inr (h, concat (map (cd_message_outputs parse cf ae r) ms))" by blast
  from cdh.handle_all_counts [OF TrueI h] have "cdMessagesReceived h = of_nat (length ms)"
    by (simp add: cd_New_def)
  with s h show ?thesis by auto
qed

theorem tcp_stream_to_collectd_witness:
  "\<exists>s es h. receive_data (default_sock_conf\<lparr>sType := ''tcp''\<rparr>) new_receiver
        (map Arrived [take 3 (frame ''abc''), drop 3 (frame ''abc'')]) = Inr (s, es, True)
     \<and> handle_all (cd_Handle (\<lambda>_. Inr [cd_example [''rx'']]) (\<lambda>_. 0) []) cd_New (delivered es) True
         = Inr (h, concat (map (cd_message_outputs (\<lambda>_. Inr [cd_example [''rx'']]) (\<lambda>_. 0) [] True) [''abc'']))
     \<and> cdMessagesReceived h = of_nat (length [''abc''])"
  by (rule tcp_stream_to_collectd)
     (simp, simp, simp add: frame_def, simp, code_simp,
      simp add: cd_message_ok_def cd_in_bounds_def cd_example_def slice_of_def)

text \<open>
  C1: From the wire to the scrape.  Messages framed on a TCP stream, however it is divided into reads,
  handled as collectd metrics, passed through the metric bus to Prometheus in any order and collected:
  the samples gathered by a scrape are those of the metrics that the messages contain, each once, if no
  two of these share a slot.  A client library that checks what it gathered as documented answers with
  these samples, if no two of the metrics have the same name and labels and those of one name have one
  type.
\<close>

theorem wire_to_scrape:
  assumes "sType c = ''tcp''" and "[] \<notin> set ms" and "length (concat (map frame ms)) < 2 ^ 62"
    and "concat cs = concat (map frame ms)" and "[] \<notin> set cs"
    and "list_all (cd_message_ok parse) ms"
    and "outs = concat (map (cd_message_outputs parse cf ae r) ms)"
    and "distinct (map metric_slot (metrics_of outs))" and "unchecked_registry gathered"
    and "bus_reachable no_wait rfs [metrics_of outs] b" and "bus_finished b" and "j < length rfs"
  shows "\<exists>s es h q. receive_data c new_receiver (map Arrived cs) = Inr (s, es, True)
     \<and> handle_all (cd_Handle parse cf ae) cd_New (delivered es) r = Inr (h, outs)
     \<and> receive_metrics (prom_start pc) (deliveries b j) = Inr q
     \<and> mset (snd (gather gathered ncm q))
         = mset (concat (map (metric_sample ncm (withTimestamp pc)) (metrics_of outs)))
     \<and> (accepts_consistent ncm check \<longrightarrow> consistent (map series_of (metrics_of outs)) \<longrightarrow>
          snd (scrape gathered check ncm q) = Inr (snd (gather gathered ncm q)))"
proof -
  from tcp_stream_to_collectd [OF assms(1-6), where cf = cf and ae = ae and r = r, folded assms(7)] obtain s es h
    where s: "receive_data c new_receiver (map Arrived cs) = Inr (s, es, True)"
      and h: "handle_all (cd_Handle parse cf ae) cd_New (delivered es) r = Inr (h, outs)" by blast
  from h have "published_by_metric_handler outs" unfolding published_by_metric_handler_def by blast
  from published_metrics_aligned [OF this] assms(8) have
    "\<exists>q. receive_metrics (prom_start pc) (deliveries b j) = Inr q
      \<and> mset (snd (gather gathered ncm q))
          = mset (concat (map (metric_sample ncm (withTimestamp pc)) (metrics_of outs)))"
    using deliveries_all [OF assms(10-12)] assms(9) by (intro gather_of_delivered) simp_all
  then obtain q where q: "receive_metrics (prom_start pc) (deliveries b j) = Inr q"
    "mset (snd (gather gathered ncm q)) = mset (concat (map (metric_sample ncm (withTimestamp pc)) (metrics_of outs)))"
    by blast
  have "snd (scrape gathered check ncm q) = Inr (snd (gather gathered ncm q))"
    if "accepts_consistent ncm check" "consistent (map series_of (metrics_of outs))"
  proof -
    from that q(2) have "check (snd (gather gathered ncm q)) = None" unfolding accepts_consistent_def by blast
    then show ?thesis by (simp add: scrape_def split_beta)
  qed
  with s h q show ?thesis by blast
qed

text \<open>One message with a value list of two metrics, in two reads.\<close>

definition ex_two_counters :: "blob \<Rightarrow> string + cd_metric list" where
  "ex_two_counters = (\<lambda>_. Inr [cd_example [''rx'', ''tx'']])"

theorem wire_to_scrape_witness:
  "\<exists>s es h q m1 m2 (b :: (unit, metric) bus).
     receive_data (default_sock_conf\<lparr>sType := ''tcp''\<rparr>) new_receiver
        (map Arrived [take 3 (frame ''abc''), drop 3 (frame ''abc'')]) = Inr (s, es, True)
     \<and> handle_all (cd_Handle ex_two_counters (\<lambda>_. 0) []) cd_New (delivered es) True
         = Inr (h, [Publish_Metric m1, Publish_Metric m2])
     \<and> deliveries b 0 = [m2, m1] \<and> receive_metrics (prom_start ex_conf) [m2, m1] = Inr q
     \<and> mset (snd (gather ex_gathered ex_ncm q))
         = mset (metric_sample ex_ncm True m1 @ metric_sample ex_ncm True m2)
     \<and> length (snd (gather ex_gathered ex_ncm q)) = 2
     \<and> snd (scrape ex_gathered ex_sample_check ex_ncm q) = Inr (snd (gather ex_gathered ex_ncm q))"
proof -
  let ?m = "cd_spec_metric (\<lambda>_. 0) (cd_example [''rx'', ''tx''])"
  let ?outs = "concat (map (cd_message_outputs ex_two_counters (\<lambda>_. 0) [] True) [''abc''])"
  have outs: "?outs = [Publish_Metric (?m 0), Publish_Metric (?m 1)]"
    by (simp add: cd_message_outputs_def ex_two_counters_def cd_spec_outputs_def cd_example_def
        validateMetric_iff slice_of_def)
  then have ms: "metrics_of ?outs = [?m 0, ?m 1]" by simp
  have d: "distinct (map metric_slot (metrics_of ?outs))"
    unfolding ms by (simp add: metric_slot_def cache_key_def cd_spec_metric_def Let_def cd_example_def slice_of_def cd_name_suffix_def)
  have c: "consistent (map series_of (metrics_of ?outs))"
    unfolding ms by (simp add: consistent_def series_of_def cd_spec_metric_def Let_def cd_example_def slice_of_def cd_name_suffix_def)
  obtain b :: "(unit, metric) bus" where b: "bus_reachable no_wait [()] [metrics_of ?outs] b"
    "bus_finished b" "deliveries b 0 = [?m 1, ?m 0]"
    using deliveries_any [of "[?m 1, ?m 0]" "[metrics_of ?outs]" 0 "[()]"] unfolding ms by auto
  have ok: "list_all (cd_message_ok ex_two_counters) [''abc'']"
    by (simp add: cd_message_ok_def ex_two_counters_def cd_in_bounds_def cd_example_def slice_of_def)
  have "\<exists>s es h q. receive_data (default_sock_conf\<lparr>sType := ''tcp''\<rparr>) new_receiver
        (map Arrived [take 3 (frame ''abc''), drop 3 (frame ''abc'')]) = Inr (s, es, True)
     \<and> handle_all (cd_Handle ex_two_counters (\<lambda>_. 0) []) cd_New (delivered es) True = Inr (h, ?outs)
     \<and> receive_metrics (prom_start ex_conf) (deliveries b 0) = Inr q
     \<and> mset (snd (gather ex_gathered ex_ncm q))
         = mset (concat (map (metric_sample ex_ncm (withTimestamp ex_conf)) (metrics_of ?outs)))
     \<and> (accepts_consistent ex_ncm ex_sample_check \<longrightarrow> consistent (map series_of (metrics_of ?outs)) \<longrightarrow>
          snd (scrape ex_gathered ex_sample_check ex_ncm q) = Inr (snd (gather ex_gathered ex_ncm q)))"
    by (rule wire_to_scrape [OF _ _ _ _ _ ok refl d ex_unchecked b(1,2)])
       (simp, simp, simp add: frame_def, simp, code_simp, simp)
  then obtain s es h q where
    q: "receive_data (default_sock_conf\<lparr>sType := ''tcp''\<rparr>) new_receiver
          (map Arrived [take 3 (frame ''abc''), drop 3 (frame ''abc'')]) = Inr (s, es, True)"
      "handle_all (cd_Handle ex_two_counters (\<lambda>_. 0) []) cd_New (delivered es) True = Inr (h, ?outs)"
      "receive_metrics (prom_start ex_conf) [?m 1, ?m 0] = Inr q"
      "mset (snd (gather ex_gathered ex_ncm q))
         = mset (concat (map (metric_sample ex_ncm (withTimestamp ex_conf)) (metrics_of ?outs)))"
      "snd (scrape ex_gathered ex_sample_check ex_ncm q) = Inr (snd (gather ex_gathered ex_ncm q))"
    unfolding b(3) using ex_sample_check_accepts c by blast
  have sample: "length (metric_sample ex_ncm True m) = 1" for m
    by (simp add: metric_sample_def exported_def ex_ncm_def)
  have ex: "withTimestamp ex_conf" by (simp add: ex_conf_def)
  have fin: "mset (snd (gather ex_gathered ex_ncm q)) = mset (metric_sample ex_ncm True (?m 0) @ metric_sample ex_ncm True (?m 1))"
    using q(4) unfolding ms by (simp add: ex)
  from arg_cong [OF this, of size] have "length (snd (gather ex_gathered ex_ncm q)) = 2"
    by (simp add: sample del: mset_append)
  with q(1-3,5) fin b(3) show ?thesis unfolding outs by blast
qed

section \<open>What handlers publish\<close>

text \<open>
  What a handler of the given name can have published, with error reporting on or off: while it
  handled messages, or once a second in its \<open>Run\<close>.
\<close>

inductive gateway_published :: "string \<Rightarrow> bool \<Rightarrow> published list \<Rightarrow> bool" where
  from_collectd_metrics: "handle_all (cd_Handle parse cf ae) c bs r = Inr (c', outs) \<Longrightarrow>
     gateway_published cd_Identify r outs"
| from_ceilometer_metrics: "handle_all (ceil_Handle dec tp) ce bs r = Inr (ce', outs) \<Longrightarrow>
     gateway_published ceil_Identify r outs"
| from_sensubility_metrics: "sensu_ready sm \<Longrightarrow>
     handle_all (sensu_Handle parse_msg parse_outputs tp) sm bs r = Inr (sm', outs) \<Longrightarrow>
     gateway_published sensu_Identify r outs"
| from_events: "Events.configuration eh \<noteq> None \<Longrightarrow> handle_all (events_Handle lib) eh bs r = Inr (eh', outs) \<Longrightarrow>
     gateway_published events_Identify r outs"
| from_logs: "handle_all (log_Handle json tp) l bs r = Inr (l', outs) \<Longrightarrow> gateway_published log_Identify r outs"
| tick_collectd_metrics: "gateway_published cd_Identify r (map Publish_Metric (cd_Run_tick c))"
| tick_ceilometer_metrics: "gateway_published ceil_Identify r (map Publish_Metric (ceil_Run_tick ce))"
| tick_sensubility_metrics: "gateway_published sensu_Identify r (map Publish_Metric (sensu_Run_tick sm))"
| tick_events: "gateway_published events_Identify r (map Publish_Metric (events_Run_tick eh))"
| tick_logs: "gateway_published log_Identify r (map Publish_Metric (log_Run_tick l))"

lemma metric_aligned_sensu_self [simp]: "metric_aligned (sensu_self_metric n v)"
  by (simp add: sensu_self_metric_def metric_aligned_def self_metric_def)

text \<open>
  C15: Every metric on the bus has as many label values as label keys, whichever handler published it
  and in whatever message, as the documentation of \<open>ReceiveMetric\<close> promises to the applications.  An
  error event carries the name of its handler as index, and there are none unless the program is
  configured to report errors.
\<close>

theorem bus_items_well_typed:
  assumes "gateway_published ident report outs"
  shows "list_all (output_ok ident report) outs"
  using assms
proof cases
  case from_collectd_metrics
  then show ?thesis using cdh.handle_all_outputs [OF TrueI] by blast
next
  case from_ceilometer_metrics
  then show ?thesis using ceilh.handle_all_outputs [OF TrueI] by blast
next
  case from_sensubility_metrics
  then show ?thesis using sensuh.handle_all_outputs by blast
next
  case from_events
  then show ?thesis using evh.handle_all_outputs by blast
next
  case from_logs
  then show ?thesis using logh.handle_all_outputs [OF TrueI] by blast
qed (auto simp: cd_Run_tick_def ceil_Run_tick_def sensu_Run_tick_def events_Run_tick_def log_Run_tick_def
       events_tick_loop_eq list_all_iff Let_def)

theorem bus_items_well_typed_witness:
  "list_all (output_ok ''collectd-metrics'' False) (map Publish_Metric (cd_Run_tick cd_New))
   \<and> length (cd_Run_tick cd_New) = 3"
  using bus_items_well_typed [OF tick_collectd_metrics, of False cd_New]
  by (simp add: cd_Identify_def cd_Run_tick_def)

section \<open>Metrics that stay in Prometheus\<close>

lemma subsecond_interval:
  assumes "0 \<le> cdInterval cm" and "cdInterval cm < 1"
  shows "mInterval (cd_spec_metric cf cm i) = 0"
proof -
  have "\<lfloor>cdInterval cm\<rfloor> = 0" using assms by (simp add: floor_eq_iff)
  with assms(1) show ?thesis by (simp add: cd_spec_metric_def Let_def int64_of_f64_def wrap64_def)
qed

text \<open>
  The metrics of a collectd plugin with an interval below one second are never removed: the
  handler passes on the interval 0, and once such a metric is cached anew, Prometheus keeps it
  in every further run, however long ago its last value arrived.
\<close>

theorem subsecond_collectd_metrics_stay:
  assumes "prom_reachable p" and "0 \<le> cdInterval cm" and "cdInterval cm < 1"
    and "ReceiveMetric (cd_spec_metric cf cm i) p = Inr q"
    and "lookup_metric p 3 (cache_key (cd_spec_metric cf cm i)) = None"
    and "prom_step\<^sup>*\<^sup>* q q'"
  shows "\<exists>c mp. map_of (collectors q) 3 = Some c
     \<and> map_of (procs_of q' c) (cache_key (cd_spec_metric cf cm i)) = Some mp"
proof -
  let ?m = "cd_spec_metric cf cm i"
  have al: "metric_aligned ?m" and n: "length (mLabelKeys ?m) = 3"
    by (simp_all add: metric_aligned_def cd_spec_metric_def Let_def)
  from fresh_zero_interval_pinned [OF assms(1,4) al] assms(5) n subsecond_interval [OF assms(2,3)]
  obtain c e where c: "map_of (collectors q) 3 = Some c" and pin: "pinned c (cache_key ?m) e 0 q" by auto
  have "prom_reachable q" by (rule prom_reachable.step [OF assms(1) prom_step.receive [OF al assms(4)]])
  from pinned_steps [OF assms(6) this pin] c show ?thesis by (auto simp: pinned_def)
qed

theorem subsecond_collectd_metrics_stay_witness:
  "\<exists>q c mp. ReceiveMetric (cd_spec_metric (\<lambda>_. 0) ((cd_example [''rx''])\<lparr>cdInterval := 1 / 2\<rparr>) 0) ex_received = Inr q
     \<and> map_of (collectors q) 3 = Some c
     \<and> map_of (procs_of (q\<lparr>now := now q + 10 ^ 15\<rparr>) c)
         (cache_key (cd_spec_metric (\<lambda>_. 0) ((cd_example [''rx''])\<lparr>cdInterval := 1 / 2\<rparr>) 0)) = Some mp"
proof -
  let ?cm = "(cd_example [''rx''])\<lparr>cdInterval := 1 / 2\<rparr>"
  let ?m = "cd_spec_metric (\<lambda>_. 0) ?cm 0"
  have al: "metric_aligned ?m" by (simp add: metric_aligned_def cd_spec_metric_def Let_def)
  from prom_receiver.receive_total [OF ex_received_reachable al] obtain q
    where q: "ReceiveMetric ?m ex_received = Inr q" by blast
  have new: "lookup_metric ex_received 3 (cache_key ?m) = None"
    by (simp add: lookup_metric_def ex_received_eq)
  have "prom_step\<^sup>*\<^sup>* q (q\<lparr>now := now q + 10 ^ 15\<rparr>)" by (intro r_into_rtranclp prom_step.tick) simp
  from subsecond_collectd_metrics_stay [OF ex_received_reachable _ _ q new this] q show ?thesis by auto
qed

section \<open>Two instances of Prometheus\<close>

text \<open>A plugin set whose application is Prometheus, configured with \<open>cfg\<close>.\<close>

definition prom_plugins ::
  "('c \<Rightarrow> string + blob) \<Rightarrow> (blob \<Rightarrow> prom_config \<Rightarrow> prom_config \<times> string option)
     \<Rightarrow> (unit, unit, prom, 'c) plugins" where
  "prom_plugins marshal parse_conf =
     \<lparr>plugin_Open = (\<lambda>path. if path = ''/usr/lib64/sg-core/prometheus.so''
                             then Inr (\<lambda>_. Inr (New_Application (\<lambda>publish. prom_New))) else Inl ''no such file''),
      yaml_Marshal = marshal, transport_Config = (\<lambda>b t. (t, None)), handler_Config = (\<lambda>b h. (h, None)),
      application_Config = (\<lambda>b. prom_Config (parse_conf b)), is_MetricReceiver = (\<lambda>a. True),
      is_EventReceiver = (\<lambda>a. False)\<rparr>"

lemma prom_path: "filepath_Join [''/usr/lib64/sg-core/'', ''prometheus.so''] = ''/usr/lib64/sg-core/prometheus.so''"
  by code_simp

text \<open>
  If Prometheus is configured twice, both instances are subscribed to the metric bus, but only
  the second one is run; the first metric on the bus makes the first one panic, since it has no
  registry.
\<close>

theorem second_prometheus_instance_panics:
  assumes "marshal c1 = Inr b1" and "marshal c2 = Inr b2"
    and "snd (parse_conf b1 (conf prom_New)) = None" and "snd (parse_conf b2 (conf prom_New)) = None"
  shows "\<exists>mg. main_load (prom_plugins marshal parse_conf)
            (default_config\<lparr>cfgApplications := [(''prometheus'', c1), (''prometheus'', c2)]\<rparr>) = Some mg
     \<and> metricBus_subs mg = [0, 1] \<and> RunApplications mg = [1]
     \<and> ReceiveMetric m (app_heap mg ! 0) = Inl Nil_Dereference"
  using assms prom_path
  by (simp add: main_load_def prom_plugins_def default_config_def SetEventBusBlocking_def SetPluginDir_def
      manager_init_def InitApplication_def initPlugin_def prom_Config_def Let_def split_beta
      RunApplications_def ReceiveMetric_def find_collector_def prom_New_def)

theorem second_prometheus_instance_panics_witness:
  "\<exists>mg. main_load (prom_plugins (\<lambda>_ :: unit. Inr []) (\<lambda>_ cf. (cf, None)))
          (default_config\<lparr>cfgApplications := [(''prometheus'', ()), (''prometheus'', ())]\<rparr>) = Some mg
     \<and> metricBus_subs mg = [0, 1] \<and> RunApplications mg = [1]
     \<and> ReceiveMetric (self_metric ''x'' 1) (app_heap mg ! 0) = Inl Nil_Dereference"
  by (rule second_prometheus_instance_panics) simp_all

section \<open>The time of ceilometer's samples\<close>

text \<open>
  A sample of ceilometer is published with the second that its time stamp names if the stamp has
  a zone, but with the time 0 if it has none, which is how ceilometer writes them
  (\<open>2021-02-10T03:50:41\<close>): the handler tries only the layout with a zone and ignores the error.
\<close>

theorem ceilometer_time_needs_zone:
  assumes "stamp_ok t" and "zone_ok z" and "cmTimestamp m = iso_text CHR ''T'' t z"
  shows "\<exists>x. ceil_metric_of time_Parse publisher m = Inr x
     \<and> mTime x = (if z = No_Zone then 0 else max 0 (f64_of_int (stamp_seconds t - zone_seconds z)))"
  using assms
  by (simp add: ceil_metric_of_eq ceil_spec_metric_def ceil_time_def time_Parse_RFC3339 Let_def)

theorem ceilometer_time_needs_zone_witness:
  "\<exists>x. ceil_metric_of time_Parse ''p''
          (ex_ceil_metric\<lparr>cmTimestamp := iso_text CHR ''T'' ex_stamp No_Zone\<rparr>) = Inr x \<and> mTime x = 0"
  using ceilometer_time_needs_zone [of ex_stamp No_Zone
      "ex_ceil_metric\<lparr>cmTimestamp := iso_text CHR ''T'' ex_stamp No_Zone\<rparr>" "''p''"] ex_stamp_ok
  by simp

section \<open>The AMQP transport and the end of the program\<close>

text \<open>Whether the transport has returned after these calls to \<open>Receive\<close>.\<close>

definition amqp_returns :: "amqp \<Rightarrow> amqp_call list \<Rightarrow> bool" where
  "amqp_returns tr calls = snd (snd (amqp_Run None None None calls tr))"

lemma amqp_stays:
  assumes "is_int64 (aMsgCount tr)" and "list_all (\<lambda>c. \<not> ends_loop (aConf tr) c) calls"
  shows "\<not> amqp_returns tr (calls @ replicate n (Returns_Error context_canceled))"
proof -
  have "str_contains context_canceled context_canceled" by code_simp
  then have "\<not> list_ex (ends_loop (aConf tr)) (calls @ replicate n (Returns_Error context_canceled))"
    using assms(2) by (auto simp: list_ex_iff list_all_iff ends_loop_def)
  with amqp_loop_forwards [OF assms(1), of "calls @ replicate n (Returns_Error context_canceled)"]
  show ?thesis by (auto simp: amqp_returns_def amqp_Run_def)
qed

text \<open>
  A connected AMQP transport keeps the program from ending: once the context is cancelled, and
  if none of its calls to \<open>Receive\<close> fails for another reason, \<open>main\<close> waits for it in every further
  run, since its loop takes the error of the cancelled context for a message that did not come yet.
\<close>

theorem amqp_blocks_shutdown:
  assumes "is_int64 (aMsgCount tr)" and "list_all (\<lambda>c. \<not> ends_loop (aConf tr) c) calls"
    and "cancelled s" and "\<not> exited s" and "i < length (routines s)" and "routines s ! i = Routine_Running"
    and "fails k i \<longleftrightarrow> amqp_returns tr calls"
    and "honours k i \<longleftrightarrow> (\<exists>n. amqp_returns tr (calls @ replicate n (Returns_Error context_canceled)))"
    and "(main_step k)\<^sup>*\<^sup>* s s'"
  shows "\<not> exited s'"
proof -
  from assms(7,8) amqp_stays [OF assms(1,2)] amqp_stays [OF assms(1,2), of 0]
  have "\<not> fails k i" "\<not> honours k i" by simp_all
  with assms(6) have "hangs k s i" by (simp add: hangs_def)
  from hang_steps [OF assms(9,3,5) this assms(4)] show ?thesis .
qed

theorem amqp_blocks_shutdown_witness:
  "\<not> exited ((main_start 1)\<lparr>cancelled := True\<rparr>)
   \<and> \<not> (\<exists>s'. (main_step \<lparr>signals = (\<lambda>i. False), fails = (\<lambda>i. False), honours = (\<lambda>i. False)\<rparr>)\<^sup>*\<^sup>*
           ((main_start 1)\<lparr>cancelled := True\<rparr>) s' \<and> exited s')"
proof -
  let ?k = "\<lparr>signals = (\<lambda>i. False), fails = (\<lambda>i. False), honours = (\<lambda>i. False)\<rparr> :: routine_kinds"
  let ?s = "(main_start 1)\<lparr>cancelled := True\<rparr>"
  have c: "is_int64 (aMsgCount amqp_New)" "list_all (\<lambda>c. \<not> ends_loop (aConf amqp_New) c) []"
    by (simp_all add: amqp_New_def is_int64_def)
  have k: "fails ?k 0 \<longleftrightarrow> amqp_returns amqp_New []"
    "honours ?k 0 \<longleftrightarrow> (\<exists>n. amqp_returns amqp_New ([] @ replicate n (Returns_Error context_canceled)))"
    using amqp_stays [OF c] amqp_stays [OF c, of 0] by simp_all
  have "\<not> exited s'" if "(main_step ?k)\<^sup>*\<^sup>* ?s s'" for s'
    by (rule amqp_blocks_shutdown [OF c _ _ _ _ k that]) (simp_all add: main_start_def)
  then show ?thesis by (auto simp: main_start_def)
qed

end
